(* ===== verification/Prelude.thy ===== *)
theory Prelude
  imports Main "HOL-Library.Word" "HOL-Library.Char_ord" "HOL-Library.List_Lexorder"
begin

text \<open>
  Shared vocabulary of the development: the types that stand for Go's built-in types, Go's
  \<^verbatim>\<open>error\<close> values with their texts, instants and durations, the formatting verbs
  \<^verbatim>\<open>%d\<close> and \<^verbatim>\<open>%x\<close>, the collections of rewrite rules, and generic lemmas on
  lists, maps and words.

  \<^item> A Go \<^verbatim>\<open>string\<close> is a sequence of bytes: HOL's \<open>string\<close>, whose characters are
    exactly the 256 bytes.  A \<^verbatim>\<open>[]byte\<close> is a list of 8-bit words;
    \<open>string_of_bytes\<close> and \<open>bytes_of_string\<close> are the two conversions.
  \<^item> \<^verbatim>\<open>int32\<close> and \<^verbatim>\<open>uint16\<close> are words of their width; an \<^verbatim>\<open>int\<close>
    used as a counter or a size is \<open>int\<close> (or \<open>nat\<close> where it is a length).
  \<^item> A \<^verbatim>\<open>time.Time\<close> is an \<open>int\<close>: nanoseconds since Go's zero instant, so that
    \<^verbatim>\<open>IsZero\<close> is equality with 0.  A \<^verbatim>\<open>time.Duration\<close> is an \<open>int\<close> in the
    range of \<^verbatim>\<open>int64\<close>; \<^verbatim>\<open>Time.Sub\<close> saturates as Go's does.
\<close>

section \<open>Collections of facts\<close>

named_theorems go_simps \<open>definitions of the small library operations, for unfolding\<close>
named_theorems codec \<open>length, round-trip and prefix facts of the encoders and decoders\<close>
named_theorems frame \<open>what an operation leaves unchanged\<close>

section \<open>Types\<close>

type_synonym byte = "8 word"
type_synonym int32 = "32 word"
type_synonym uint16 = "16 word"
type_synonym Time = int
type_synonym Duration = int

definition string_of_bytes :: "byte list \<Rightarrow> string" where
  "string_of_bytes bs = map (\<lambda>b. char_of (unat b)) bs"

definition bytes_of_string :: "string \<Rightarrow> byte list" where
  "bytes_of_string s = map (\<lambda>c. word_of_nat (of_char c)) s"

lemma of_char_less_256 [simp]: "(of_char c :: nat) < 256"
  by (metis char_of_char of_char_of mod_less_divisor zero_less_numeral)

lemma unat_less_256 [simp]: "unat (b :: byte) < 256"
  using unsigned_less [of b] by simp

lemma string_bytes_string [simp, codec]: "string_of_bytes (bytes_of_string s) = s"
  by (induction s)
    (simp_all add: string_of_bytes_def bytes_of_string_def unat_of_nat)

lemma bytes_string_bytes [simp, codec]: "bytes_of_string (string_of_bytes bs) = bs"
  by (induction bs) (simp_all add: string_of_bytes_def bytes_of_string_def)

lemma length_bytes_of_string [simp]: "length (bytes_of_string s) = length s"
  by (simp add: bytes_of_string_def)

lemma length_string_of_bytes [simp]: "length (string_of_bytes bs) = length bs"
  by (simp add: string_of_bytes_def)

lemma bytes_of_string_Nil [simp]: "bytes_of_string s = [] \<longleftrightarrow> s = []"
  by (simp add: bytes_of_string_def)

lemma bytes_of_string_inj: "bytes_of_string s = bytes_of_string t \<longleftrightarrow> s = t"
  by (metis string_bytes_string)

section \<open>Instants and durations\<close>

definition Millisecond :: Duration where "Millisecond = 1000000"
definition Second :: Duration where "Second = 1000 * Millisecond"
definition Minute :: Duration where "Minute = 60 * Second"

definition zero_time :: Time where "zero_time = 0"

definition IsZero :: "Time \<Rightarrow> bool" where
  "IsZero t \<longleftrightarrow> t = zero_time"

definition Before :: "Time \<Rightarrow> Time \<Rightarrow> bool" where
  "Before t u \<longleftrightarrow> t < u"

definition After :: "Time \<Rightarrow> Time \<Rightarrow> bool" where
  "After t u \<longleftrightarrow> u < t"

definition Add :: "Time \<Rightarrow> Duration \<Rightarrow> Time" where
  "Add t d = t + d"

text \<open>\<^verbatim>\<open>Time.Sub\<close> saturates at the ends of the \<^verbatim>\<open>int64\<close> range.\<close>

definition Sub :: "Time \<Rightarrow> Time \<Rightarrow> Duration" where
  "Sub t u = max (- (2 ^ 63)) (min (2 ^ 63 - 1) (t - u))"

lemmas time_defs [go_simps] =
  IsZero_def Before_def After_def Add_def zero_time_def

text \<open>A comparison of a saturated difference with a duration is a comparison of the difference.\<close>

definition is_duration :: "Duration \<Rightarrow> bool" where
  "is_duration d \<longleftrightarrow> - (2 ^ 63) \<le> d \<and> d < 2 ^ 63"

lemma Sub_less_eq_iff: "- (2 ^ 63) \<le> d \<Longrightarrow> d < 2 ^ 63 - 1 \<Longrightarrow> Sub t u \<le> d \<longleftrightarrow> t - u \<le> d"
  by (auto simp: Sub_def min_def max_def)

lemma Sub_self [simp]: "Sub t t = 0"
  by (simp add: Sub_def)

lemma Sub_mono: "t \<le> t' \<Longrightarrow> Sub t u \<le> Sub t' u"
  by (auto simp: Sub_def)

text \<open>
  A clock is the sequence of its readings; \<open>tick\<close> takes the next one.  Nothing is assumed
  about the readings unless a statement says so.
\<close>

type_synonym clock = "nat \<Rightarrow> Time"

definition tick :: "clock \<Rightarrow> Time \<times> clock" where
  "tick c = (c 0, \<lambda>n. c (Suc n))"

section \<open>Formatting\<close>

definition digit_char :: "nat \<Rightarrow> char" where
  "digit_char n = char_of (if n < 10 then 48 + n else 87 + n)"

fun show_nat_base :: "nat \<Rightarrow> nat \<Rightarrow> string" where
  "show_nat_base base n =
     (if n < base \<or> base < 2 then [digit_char n]
      else show_nat_base base (n div base) @ [digit_char (n mod base)])"

declare show_nat_base.simps [simp del]

definition show_nat :: "nat \<Rightarrow> string" where
  "show_nat n = show_nat_base 10 n"

definition show_int :: "int \<Rightarrow> string" where
  "show_int i = (if i < 0 then ''-'' @ show_nat (nat (- i)) else show_nat (nat i))"

definition show_hex :: "int \<Rightarrow> string" where
  "show_hex i = (if i < 0 then ''-'' @ show_nat_base 16 (nat (- i)) else show_nat_base 16 (nat i))"

text \<open>Reading a decimal numeral back; the inverse that makes \<open>show_int\<close> injective.\<close>

definition read_nat :: "string \<Rightarrow> nat" where
  "read_nat s = foldl (\<lambda>n c. 10 * n + (of_char c - 48)) 0 s"

lemma read_show_nat [codec]: "read_nat (show_nat n) = n"
  unfolding show_nat_def
proof (induction "10 :: nat" n rule: show_nat_base.induct)
  case (1 n)
  show ?case
  proof (cases "n < 10")
    case True
    then show ?thesis
      by (simp add: show_nat_base.simps [of 10 n] read_nat_def digit_char_def)
  next
    case False
    with 1 have "read_nat (show_nat_base 10 (n div 10)) = n div 10" by simp
    with False show ?thesis
      by (simp add: show_nat_base.simps [of 10 n] read_nat_def digit_char_def)
  qed
qed

definition is_digit :: "char \<Rightarrow> bool" where
  "is_digit c \<longleftrightarrow> 48 \<le> (of_char c :: nat) \<and> (of_char c :: nat) \<le> 57"

lemma show_nat_digits: "c \<in> set (show_nat n) \<Longrightarrow> is_digit c"
  unfolding show_nat_def
proof (induction "10 :: nat" n rule: show_nat_base.induct)
  case (1 n)
  then show ?case
    by (cases "n < 10")
      (auto simp: show_nat_base.simps [of 10 n] is_digit_def digit_char_def)
qed

lemma show_nat_nonempty [simp]: "show_nat n \<noteq> []"
  by (simp add: show_nat_def show_nat_base.simps [of 10 n])

lemma show_int_inj: "show_int i = show_int j \<longleftrightarrow> i = j"
proof
  assume eq: "show_int i = show_int j"
  have nodash: "show_nat m \<noteq> CHR ''-'' # xs" for m xs
    using show_nat_digits [of "CHR ''-''" m] by (auto simp: is_digit_def)
  show "i = j"
  proof (cases "i < 0 \<longleftrightarrow> j < 0")
    case True
    with eq have "show_nat (nat \<bar>i\<bar>) = show_nat (nat \<bar>j\<bar>)"
      by (auto simp: show_int_def split: if_splits)
    then have "nat \<bar>i\<bar> = nat \<bar>j\<bar>" by (metis read_show_nat)
    with True show ?thesis by auto
  next
    case False
    with eq show ?thesis
      by (auto simp: show_int_def nodash nodash [symmetric] split: if_splits)
  qed
qed simp

lemma show_int_chars: "c \<in> set (show_int i) \<Longrightarrow> is_digit c \<or> c = CHR ''-''"
  by (auto simp: show_int_def dest: show_nat_digits split: if_splits)

section \<open>Errors\<close>

text \<open>
  The error values of the program: the sentinels it compares with \<^verbatim>\<open>errors.Is\<close>, a plain
  text (\<^verbatim>\<open>errors.New\<close>, \<^verbatim>\<open>fmt.Errorf\<close> without \<^verbatim>\<open>%w\<close>), a prefix
  around another error (\<^verbatim>\<open>fmt.Errorf("p: %w", err)\<close>), and an error of the network with
  its text.
\<close>

datatype go_error =
    EOF
  | ErrUnexpectedEOF
  | ErrVarIntTooLong
  | errUnsupportedState
  | Errorf string
  | Wrapf string go_error
  | NetError string

primrec Error :: "go_error \<Rightarrow> string" where
  "Error EOF = ''EOF''"
| "Error ErrUnexpectedEOF = ''unexpected EOF''"
| "Error ErrVarIntTooLong = ''varint is too long''"
| "Error errUnsupportedState = ''unsupported next state''"
| "Error (Errorf s) = s"
| "Error (Wrapf p e) = p @ '': '' @ Error e"
| "Error (NetError s) = s"

primrec errors_Is :: "go_error \<Rightarrow> go_error \<Rightarrow> bool" where
  "errors_Is EOF t \<longleftrightarrow> t = EOF"
| "errors_Is ErrUnexpectedEOF t \<longleftrightarrow> t = ErrUnexpectedEOF"
| "errors_Is ErrVarIntTooLong t \<longleftrightarrow> t = ErrVarIntTooLong"
| "errors_Is errUnsupportedState t \<longleftrightarrow> t = errUnsupportedState"
| "errors_Is (Errorf s) t \<longleftrightarrow> t = Errorf s"
| "errors_Is (Wrapf p e) t \<longleftrightarrow> t = Wrapf p e \<or> errors_Is e t"
| "errors_Is (NetError s) t \<longleftrightarrow> t = NetError s"

section \<open>Generic lemmas\<close>

lemma sum_case_Inr: "(case x of Inl e \<Rightarrow> Inl e | Inr v \<Rightarrow> f v) = Inr y \<longleftrightarrow> (\<exists>v. x = Inr v \<and> f v = Inr y)"
  by (cases x) auto

lemma dom_map_upd_Some [simp]: "k \<in> dom (m(k \<mapsto> v))"
  by simp

lemma take_append_exact [simp]: "n = length xs \<Longrightarrow> take n (xs @ ys) = xs"
  by simp

lemma word32_sint_of_nat:
  "n < 2 ^ 31 \<Longrightarrow> sint (word_of_nat n :: int32) = int n"
proof -
  assume n: "n < 2 ^ 31"
  then have "uint (word_of_nat n :: int32) = int n"
    by (simp add: unsigned_of_nat take_bit_nat_eq_self)
  with n show ?thesis
    by (simp only: sint_uint) (simp add: signed_take_bit_int_eq_self)
qed

end
