(* ===== verification/GoText.thy ===== *)
theory GoText
  imports Prelude
begin

text \<open>
  The part of Go's standard library on text that the program calls, on strings as byte
  sequences: UTF-8 decoding and encoding (\<^verbatim>\<open>unicode/utf8\<close>, with its table of
  acceptable continuation bytes), \<^verbatim>\<open>unicode.IsSpace\<close> and \<^verbatim>\<open>unicode.ToLower\<close>
  (the simple lower-case mapping as ranges), \<^verbatim>\<open>strings.TrimSpace\<close>,
  \<^verbatim>\<open>ToLower\<close>, \<^verbatim>\<open>IndexByte\<close>, \<^verbatim>\<open>Contains\<close>,
  \<^verbatim>\<open>HasPrefix\<close>, \<^verbatim>\<open>TrimSuffix\<close> and
  \<^verbatim>\<open>net.SplitHostPort\<close>, \<^verbatim>\<open>net.JoinHostPort\<close>.
\<close>

section \<open>UTF-8\<close>

definition RuneError :: nat where "RuneError = 65533"

abbreviation code :: "char \<Rightarrow> nat" where "code c \<equiv> of_char c"

definition is_cont :: "char \<Rightarrow> bool" where
  "is_cont c \<longleftrightarrow> 128 \<le> code c \<and> code c \<le> 191"

text \<open>
  \<^verbatim>\<open>utf8.DecodeRuneInString\<close>: the rune and its width in bytes; an invalid or cut-off
  sequence is \<open>RuneError\<close> of width 1.
\<close>

definition DecodeRune :: "string \<Rightarrow> nat \<times> nat" where
  "DecodeRune s = (case s of
     [] \<Rightarrow> (RuneError, 0)
   | c0 # s1 \<Rightarrow>
       (let b0 = code c0 in
        if b0 < 128 then (b0, 1)
        else if 194 \<le> b0 \<and> b0 \<le> 223 then
          (case s1 of
             c1 # _ \<Rightarrow> if is_cont c1 then ((b0 - 192) * 64 + (code c1 - 128), 2) else (RuneError, 1)
           | _ \<Rightarrow> (RuneError, 1))
        else if 224 \<le> b0 \<and> b0 \<le> 239 then
          (case s1 of
             c1 # c2 # _ \<Rightarrow>
               if is_cont c1 \<and> (b0 = 224 \<longrightarrow> 160 \<le> code c1) \<and> (b0 = 237 \<longrightarrow> code c1 \<le> 159) \<and> is_cont c2
               then ((b0 - 224) * 4096 + (code c1 - 128) * 64 + (code c2 - 128), 3)
               else (RuneError, 1)
           | _ \<Rightarrow> (RuneError, 1))
        else if 240 \<le> b0 \<and> b0 \<le> 244 then
          (case s1 of
             c1 # c2 # c3 # _ \<Rightarrow>
               if is_cont c1 \<and> (b0 = 240 \<longrightarrow> 144 \<le> code c1) \<and> (b0 = 244 \<longrightarrow> code c1 \<le> 143)
                  \<and> is_cont c2 \<and> is_cont c3
               then ((b0 - 240) * 262144 + (code c1 - 128) * 4096 + (code c2 - 128) * 64 + (code c3 - 128), 4)
               else (RuneError, 1)
           | _ \<Rightarrow> (RuneError, 1))
        else (RuneError, 1)))"

lemma DecodeRune_size:
  "s \<noteq> [] \<Longrightarrow> 0 < snd (DecodeRune s) \<and> snd (DecodeRune s) \<le> length s"
  by (cases s) (simp_all add: DecodeRune_def Let_def split: list.splits)

text \<open>
  The runes of a string with the bytes each is decoded from, as \<^verbatim>\<open>for _, r := range s\<close>
  and the rune-wise functions of \<^verbatim>\<open>strings\<close> see it.
\<close>

function utf8_segs :: "string \<Rightarrow> (nat \<times> string) list" where
  "utf8_segs s =
     (if s = [] then []
      else (let (r, n) = DecodeRune s in (r, take n s) # utf8_segs (drop n s)))"
  by pat_completeness auto
termination
proof (relation "measure length")
  fix s x and r n :: nat
  assume "s \<noteq> ([] :: string)" "x = DecodeRune s" "(r, n) = x"
  then show "(drop n s, s) \<in> measure length"
    using DecodeRune_size [of s] by (cases "DecodeRune s") auto
qed simp

declare utf8_segs.simps [simp del]

lemma utf8_segs_Nil [simp]: "utf8_segs [] = []"
  by (simp add: utf8_segs.simps)

lemma utf8_segs_Cons:
  "utf8_segs (c # s) =
     (let (r, n) = DecodeRune (c # s) in (r, take n (c # s)) # utf8_segs (drop n (c # s)))"
  by (simp add: utf8_segs.simps [of "c # s"])

lemma concat_utf8_segs: "concat (map snd (utf8_segs s)) = s"
proof (induction s rule: utf8_segs.induct)
  case (1 s)
  show ?case
    by (cases "s = []")
      (use 1 in \<open>auto simp: utf8_segs.simps [of s] split: prod.splits\<close>)
qed

definition range_string :: "string \<Rightarrow> nat list" where
  "range_string s = map fst (utf8_segs s)"

text \<open>\<^verbatim>\<open>utf8.Valid\<close>: no byte is decoded as an error.\<close>

definition utf8_Valid :: "byte list \<Rightarrow> bool" where
  "utf8_Valid bs = list_all (\<lambda>(r, seg). \<not> (r = RuneError \<and> length seg = 1)) (utf8_segs (string_of_bytes bs))"

definition utf8_encode :: "nat \<Rightarrow> string" where
  "utf8_encode r =
     (if r < 128 then [char_of r]
      else if r < 2048 then [char_of (192 + r div 64), char_of (128 + r mod 64)]
      else if r < 65536 then
        [char_of (224 + r div 4096), char_of (128 + r div 64 mod 64), char_of (128 + r mod 64)]
      else [char_of (240 + r div 262144), char_of (128 + r div 4096 mod 64),
            char_of (128 + r div 64 mod 64), char_of (128 + r mod 64)])"

definition ascii :: "string \<Rightarrow> bool" where
  "ascii s = list_all (\<lambda>c. code c < 128) s"

lemma ascii_simps [simp]:
  "ascii []"
  "ascii (c # s) \<longleftrightarrow> code c < 128 \<and> ascii s"
  "ascii (s @ t) \<longleftrightarrow> ascii s \<and> ascii t"
  by (simp_all add: ascii_def)

lemma utf8_segs_ascii: "ascii s \<Longrightarrow> utf8_segs s = map (\<lambda>c. (code c, [c])) s"
  by (induction s) (simp_all add: utf8_segs_Cons DecodeRune_def)

lemma utf8_Valid_ascii: "ascii s \<Longrightarrow> utf8_Valid (bytes_of_string s)"
  by (simp add: utf8_Valid_def utf8_segs_ascii list_all_iff ascii_def RuneError_def) auto

section \<open>Character classes\<close>

definition IsSpace :: "nat \<Rightarrow> bool" where
  "IsSpace r \<longleftrightarrow> 9 \<le> r \<and> r \<le> 13 \<or> r = 32 \<or> r = 133 \<or> r = 160 \<or> r = 5760
     \<or> 8192 \<le> r \<and> r \<le> 8202 \<or> r = 8232 \<or> r = 8233 \<or> r = 8239 \<or> r = 8287 \<or> r = 12288"

definition ascii_lower :: "nat \<Rightarrow> nat" where
  "ascii_lower r = (if 65 \<le> r \<and> r \<le> 90 then r + 32 else r)"

text \<open>
  The simple lower-case mapping beyond ASCII: ranges \<open>(first, last, stride, delta)\<close>; the
  code points \<open>first, first + stride, \<dots>, last\<close> map to themselves plus \<open>delta\<close>.
\<close>

definition lower_ranges :: "(nat \<times> nat \<times> nat \<times> int) list" where
  "lower_ranges = [
    (65, 90, 1, 32), (192, 214, 1, 32), (216, 222, 1, 32), (256, 302, 2, 1),
    (304, 304, 1, -199), (306, 310, 2, 1), (313, 327, 2, 1), (330, 374, 2, 1),
    (376, 376, 1, -121), (377, 381, 2, 1), (385, 385, 1, 210), (386, 388, 2, 1),
    (390, 390, 1, 206), (391, 391, 1, 1), (393, 394, 1, 205), (395, 395, 1, 1),
    (398, 398, 1, 79), (399, 399, 1, 202), (400, 400, 1, 203), (401, 401, 1, 1),
    (403, 403, 1, 205), (404, 404, 1, 207), (406, 406, 1, 211), (407, 407, 1, 209),
    (408, 408, 1, 1), (412, 412, 1, 211), (413, 413, 1, 213), (415, 415, 1, 214),
    (416, 420, 2, 1), (422, 422, 1, 218), (423, 423, 1, 1), (425, 425, 1, 218),
    (428, 428, 1, 1), (430, 430, 1, 218), (431, 431, 1, 1), (433, 434, 1, 217),
    (435, 437, 2, 1), (439, 439, 1, 219), (440, 440, 1, 1), (444, 444, 1, 1), (452, 452, 1, 2),
    (453, 453, 1, 1), (455, 455, 1, 2), (456, 456, 1, 1), (458, 458, 1, 2), (459, 475, 2, 1),
    (478, 494, 2, 1), (497, 497, 1, 2), (498, 500, 2, 1), (502, 502, 1, -97),
    (503, 503, 1, -56), (504, 542, 2, 1), (544, 544, 1, -130), (546, 562, 2, 1),
    (570, 570, 1, 10795), (571, 571, 1, 1), (573, 573, 1, -163), (574, 574, 1, 10792),
    (577, 577, 1, 1), (579, 579, 1, -195), (580, 580, 1, 69), (581, 581, 1, 71),
    (582, 590, 2, 1), (880, 882, 2, 1), (886, 886, 1, 1), (895, 895, 1, 116),
    (902, 902, 1, 38), (904, 906, 1, 37), (908, 908, 1, 64), (910, 911, 1, 63),
    (913, 929, 1, 32), (931, 939, 1, 32), (975, 975, 1, 8), (984, 1006, 2, 1),
    (1012, 1012, 1, -60), (1015, 1015, 1, 1), (1017, 1017, 1, -7), (1018, 1018, 1, 1),
    (1021, 1023, 1, -130), (1024, 1039, 1, 80), (1040, 1071, 1, 32), (1120, 1152, 2, 1),
    (1162, 1214, 2, 1), (1216, 1216, 1, 15), (1217, 1229, 2, 1), (1232, 1326, 2, 1),
    (1329, 1366, 1, 48), (4256, 4293, 1, 7264), (4295, 4295, 1, 7264), (4301, 4301, 1, 7264),
    (5024, 5103, 1, 38864), (5104, 5109, 1, 8), (7312, 7354, 1, -3008), (7357, 7359, 1, -3008),
    (7680, 7828, 2, 1), (7838, 7838, 1, -7615), (7840, 7934, 2, 1), (7944, 7951, 1, -8),
    (7960, 7965, 1, -8), (7976, 7983, 1, -8), (7992, 7999, 1, -8), (8008, 8013, 1, -8),
    (8025, 8031, 2, -8), (8040, 8047, 1, -8), (8072, 8079, 1, -8), (8088, 8095, 1, -8),
    (8104, 8111, 1, -8), (8120, 8121, 1, -8), (8122, 8123, 1, -74), (8124, 8124, 1, -9),
    (8136, 8139, 1, -86), (8140, 8140, 1, -9), (8152, 8153, 1, -8), (8154, 8155, 1, -100),
    (8168, 8169, 1, -8), (8170, 8171, 1, -112), (8172, 8172, 1, -7), (8184, 8185, 1, -128),
    (8186, 8187, 1, -126), (8188, 8188, 1, -9), (8486, 8486, 1, -7517), (8490, 8490, 1, -8383),
    (8491, 8491, 1, -8262), (8498, 8498, 1, 28), (8544, 8559, 1, 16), (8579, 8579, 1, 1),
    (9398, 9423, 1, 26), (11264, 11311, 1, 48), (11360, 11360, 1, 1),
    (11362, 11362, 1, -10743), (11363, 11363, 1, -3814), (11364, 11364, 1, -10727),
    (11367, 11371, 2, 1), (11373, 11373, 1, -10780), (11374, 11374, 1, -10749),
    (11375, 11375, 1, -10783), (11376, 11376, 1, -10782), (11378, 11378, 1, 1),
    (11381, 11381, 1, 1), (11390, 11391, 1, -10815), (11392, 11490, 2, 1),
    (11499, 11501, 2, 1), (11506, 11506, 1, 1), (42560, 42604, 2, 1), (42624, 42650, 2, 1),
    (42786, 42798, 2, 1), (42802, 42862, 2, 1), (42873, 42875, 2, 1),
    (42877, 42877, 1, -35332), (42878, 42886, 2, 1), (42891, 42891, 1, 1),
    (42893, 42893, 1, -42280), (42896, 42898, 2, 1), (42902, 42920, 2, 1),
    (42922, 42922, 1, -42308), (42923, 42923, 1, -42319), (42924, 42924, 1, -42315),
    (42925, 42925, 1, -42305), (42926, 42926, 1, -42308), (42928, 42928, 1, -42258),
    (42929, 42929, 1, -42282), (42930, 42930, 1, -42261), (42931, 42931, 1, 928),
    (42932, 42946, 2, 1), (42948, 42948, 1, -48), (42949, 42949, 1, -42307),
    (42950, 42950, 1, -35384), (42951, 42953, 2, 1), (42960, 42960, 1, 1),
    (42966, 42968, 2, 1), (42997, 42997, 1, 1), (65313, 65338, 1, 32), (66560, 66599, 1, 40),
    (66736, 66771, 1, 40), (66928, 66938, 1, 39), (66940, 66954, 1, 39), (66956, 66962, 1, 39),
    (66964, 66965, 1, 39), (68736, 68786, 1, 64), (71840, 71871, 1, 32), (93760, 93791, 1, 32),
    (125184, 125217, 1, 34)]"

definition in_range :: "nat \<Rightarrow> nat \<times> nat \<times> nat \<times> int \<Rightarrow> bool" where
  "in_range r = (\<lambda>(lo, hi, stride, _). lo \<le> r \<and> r \<le> hi \<and> (r - lo) mod stride = 0)"

definition unicode_ToLower :: "nat \<Rightarrow> nat" where
  "unicode_ToLower r =
     (if r < 128 then ascii_lower r
      else case find (in_range r) lower_ranges of
             None \<Rightarrow> r
           | Some (_, _, _, delta) \<Rightarrow> nat (int r + delta))"

section \<open>Package strings\<close>

text \<open>\<^verbatim>\<open>strings.TrimSpace\<close> drops the leading and trailing runes that are spaces.\<close>

definition TrimSpace :: "string \<Rightarrow> string" where
  "TrimSpace s =
     (let space = (\<lambda>(r, _). IsSpace r);
          rest = dropWhile space (utf8_segs s)
      in concat (map snd (rev (dropWhile space (rev rest)))))"

text \<open>\<^verbatim>\<open>strings.ToLower\<close>: byte-wise on ASCII text, rune-wise otherwise.\<close>

definition lower_char :: "char \<Rightarrow> char" where
  "lower_char c = char_of (ascii_lower (code c))"

definition ToLower :: "string \<Rightarrow> string" where
  "ToLower s =
     (if ascii s then map lower_char s
      else concat (map (\<lambda>r. utf8_encode (unicode_ToLower r)) (range_string s)))"

primrec IndexByte :: "string \<Rightarrow> char \<Rightarrow> nat option" where
  "IndexByte [] c = None"
| "IndexByte (x # s) c = (if x = c then Some 0 else map_option Suc (IndexByte s c))"

definition LastIndexByte :: "string \<Rightarrow> char \<Rightarrow> nat option" where
  "LastIndexByte s c = map_option (\<lambda>i. length s - 1 - i) (IndexByte (rev s) c)"

definition HasPrefix :: "string \<Rightarrow> string \<Rightarrow> bool" where
  "HasPrefix s p \<longleftrightarrow> take (length p) s = p"

definition HasSuffix :: "string \<Rightarrow> string \<Rightarrow> bool" where
  "HasSuffix s p \<longleftrightarrow> length p \<le> length s \<and> drop (length s - length p) s = p"

definition TrimPrefix :: "string \<Rightarrow> string \<Rightarrow> string" where
  "TrimPrefix s p = (if HasPrefix s p then drop (length p) s else s)"

definition TrimSuffix :: "string \<Rightarrow> string \<Rightarrow> string" where
  "TrimSuffix s p = (if HasSuffix s p then take (length s - length p) s else s)"

fun Contains :: "string \<Rightarrow> string \<Rightarrow> bool" where
  "Contains [] p \<longleftrightarrow> p = []"
| "Contains (c # s) p \<longleftrightarrow> HasPrefix (c # s) p \<or> Contains s p"

section \<open>Package net\<close>

definition AddrError :: "string \<Rightarrow> string \<Rightarrow> go_error" where
  "AddrError addr why = Errorf (''address '' @ addr @ '': '' @ why)"

definition missingPort :: string where "missingPort = ''missing port in address''"
definition tooManyColons :: string where "tooManyColons = ''too many colons in address''"

definition SplitHostPort :: "string \<Rightarrow> go_error + string \<times> string" where
  "SplitHostPort hostport =
    (case LastIndexByte hostport (CHR '':'') of
       None \<Rightarrow> Inl (AddrError hostport missingPort)
     | Some i \<Rightarrow>
       (let finish = (\<lambda>host j k.
          if IndexByte (drop j hostport) (CHR ''['') \<noteq> None
          then Inl (AddrError hostport ''unexpected '[' in address'')
          else if IndexByte (drop k hostport) (CHR '']'') \<noteq> None
          then Inl (AddrError hostport ''unexpected ']' in address'')
          else Inr (host, drop (i + 1) hostport))
        in
        if hd hostport = CHR ''['' then
          (case IndexByte hostport (CHR '']'') of
             None \<Rightarrow> Inl (AddrError hostport ''missing ']' in address'')
           | Some e \<Rightarrow>
               if e + 1 = length hostport then Inl (AddrError hostport missingPort)
               else if e + 1 = i then finish (drop 1 (take e hostport)) 1 (e + 1)
               else if hostport ! (e + 1) = CHR '':'' then Inl (AddrError hostport tooManyColons)
               else Inl (AddrError hostport missingPort))
        else
          (let host = take i hostport in
           if IndexByte host (CHR '':'') \<noteq> None then Inl (AddrError hostport tooManyColons)
           else finish host 0 0)))"

definition JoinHostPort :: "string \<Rightarrow> string \<Rightarrow> string" where
  "JoinHostPort host port =
     (if IndexByte host (CHR '':'') \<noteq> None then ''['' @ host @ '']:'' @ port
      else host @ '':'' @ port)"

section \<open>Package strconv\<close>

text \<open>
  \<^verbatim>\<open>strconv.Quote\<close>, the verb \<^verbatim>\<open>%q\<close>, exactly on ASCII text; other bytes are escaped one by one, as Go
  does where they are no UTF-8.  The label values that reach it are ASCII; otherwise it only makes up
  the text of error messages.
\<close>

definition quote_char :: "char \<Rightarrow> string" where
  "quote_char c =
     (if c = CHR 0x22 then [CHR 0x5C, CHR 0x22]
      else if c = CHR 0x5C then [CHR 0x5C, CHR 0x5C]
      else if c = CHR 0x0A then CHR 0x5C # ''n''
      else if c = CHR 0x0D then CHR 0x5C # ''r''
      else if c = CHR 0x09 then CHR 0x5C # ''t''
      else if c = CHR 0x07 then CHR 0x5C # ''a''
      else if c = CHR 0x08 then CHR 0x5C # ''b''
      else if c = CHR 0x0C then CHR 0x5C # ''f''
      else if c = CHR 0x0B then CHR 0x5C # ''v''
      else if (of_char c :: nat) < 32 \<or> 127 \<le> (of_char c :: nat)
      then CHR 0x5C # ''x'' @ [digit_char (of_char c div 16), digit_char (of_char c mod 16)]
      else [c])"

definition strconv_Quote :: "string \<Rightarrow> string" where
  "strconv_Quote s = CHR 0x22 # concat (map quote_char s) @ [CHR 0x22]"

definition FormatBool :: "bool \<Rightarrow> string" where
  "FormatBool b = (if b then ''true'' else ''false'')"

fun join_with :: "string \<Rightarrow> string list \<Rightarrow> string" where
  "join_with sep [] = []"
| "join_with sep [x] = x"
| "join_with sep (x # y # xs) = x @ sep @ join_with sep (y # xs)"

definition newline :: string where
  "newline = [CHR 0x0A]"

section \<open>Lemmas\<close>

lemma IndexByte_None [simp]: "IndexByte s c = None \<longleftrightarrow> c \<notin> set s"
  by (induction s) auto

lemma IndexByte_Some:
  "IndexByte s c = Some i \<longleftrightarrow> i < length s \<and> s ! i = c \<and> c \<notin> set (take i s)"
proof (induction s arbitrary: i)
  case Nil
  then show ?case by simp
next
  case (Cons x s)
  then show ?case by (cases i) auto
qed

lemma LastIndexByte_None [simp]: "LastIndexByte s c = None \<longleftrightarrow> c \<notin> set s"
  by (simp add: LastIndexByte_def)

lemma Index_absent [simp]:
  "c \<notin> set s \<Longrightarrow> IndexByte s c = None"
  "c \<notin> set s \<Longrightarrow> LastIndexByte s c = None"
  by simp_all

lemma LastIndexByte_append:
  "c \<notin> set t \<Longrightarrow> LastIndexByte (s @ c # t) c = Some (length s)"
proof -
  assume c: "c \<notin> set t"
  have "IndexByte (rev t @ c # rev s) c = Some (length t)"
    using c by (simp add: IndexByte_Some nth_append)
  then show ?thesis by (simp add: LastIndexByte_def)
qed

lemma LastIndexByte_SomeE:
  assumes "LastIndexByte s c = Some i"
  obtains t u where "s = t @ c # u" "length t = i" "c \<notin> set u"
proof -
  from assms have "c \<in> set s" by (metis LastIndexByte_None option.distinct(1))
  then obtain t u where s: "s = t @ c # u" "c \<notin> set u"
    by (meson split_list_last)
  with assms have "length t = i" by (simp add: LastIndexByte_append)
  with s that show ?thesis by blast
qed

lemma length_TrimSuffix: "length (TrimSuffix s p) \<le> length s"
  by (simp add: TrimSuffix_def)

lemma TrimSuffix_single:
  "TrimSuffix s [c] = (if s \<noteq> [] \<and> last s = c then butlast s else s)"
  by (cases s rule: rev_cases) (auto simp: TrimSuffix_def HasSuffix_def)

lemma SplitHostPort_no_colon:
  "CHR '':'' \<notin> set h \<Longrightarrow> SplitHostPort h = Inl (AddrError h missingPort)"
  by (simp add: SplitHostPort_def)

lemma SplitHostPort_plain:
  assumes h: "CHR '':'' \<notin> set h" "CHR ''['' \<notin> set h" "CHR '']'' \<notin> set h"
    and p: "CHR '':'' \<notin> set p" "CHR ''['' \<notin> set p" "CHR '']'' \<notin> set p"
  shows "SplitHostPort (h @ CHR '':'' # p) = Inr (h, p)"
proof -
  have "hd (h @ CHR '':'' # p) \<noteq> CHR ''[''"
    using h by (cases h) auto
  then show ?thesis
    using h p by (simp add: SplitHostPort_def LastIndexByte_append Let_def)
qed

lemma SplitHostPort_bracketed:
  assumes h: "CHR ''['' \<notin> set h" "CHR '']'' \<notin> set h"
    and p: "CHR '':'' \<notin> set p" "CHR ''['' \<notin> set p" "CHR '']'' \<notin> set p"
  shows "SplitHostPort (''['' @ h @ '']:'' @ p) = Inr (h, p)"
proof -
  let ?hp = "(CHR ''['' # h @ [CHR '']'']) @ CHR '':'' # p"
  have last: "LastIndexByte ?hp (CHR '':'') = Some (length h + 2)"
    using LastIndexByte_append [OF p(1), of "CHR ''['' # h @ [CHR '']'']"] by simp
  have close: "IndexByte ?hp (CHR '']'') = Some (length h + 1)"
    using h by (simp add: IndexByte_Some nth_append)
  show ?thesis
    using h p last close by (simp add: SplitHostPort_def Let_def)
qed

text \<open>A successful split returns parts of its argument that hold no bracket, and a port without colon.\<close>

lemma SplitHostPort_port:
  assumes "SplitHostPort s = Inr (h, p)"
  shows "CHR '':'' \<notin> set p \<and> length h + length p < length s"
proof -
  from assms obtain i where i: "LastIndexByte s (CHR '':'') = Some i"
    by (cases "LastIndexByte s (CHR '':'')") (simp_all add: SplitHostPort_def)
  then obtain t u where s: "s = t @ CHR '':'' # u" "length t = i" "CHR '':'' \<notin> set u"
    by (rule LastIndexByte_SomeE)
  with assms i show ?thesis
    by (auto simp: SplitHostPort_def Let_def split: if_splits option.splits)
qed

lemma ToLower_ascii: "ascii s \<Longrightarrow> ToLower s = map lower_char s"
  by (simp add: ToLower_def)

lemma code_lower_char: "code c < 128 \<Longrightarrow> code (lower_char c) = ascii_lower (code c)"
  by (simp add: lower_char_def ascii_lower_def)

lemma lower_char_idem: "lower_char (lower_char c) = lower_char c"
proof -
  have "ascii_lower (ascii_lower (code c) mod 256) = ascii_lower (code c) mod 256"
    by (auto simp: ascii_lower_def)
  then show ?thesis by (simp add: lower_char_def)
qed

lemma ascii_ToLower: "ascii s \<Longrightarrow> ascii (ToLower s)"
  by (auto simp: ToLower_ascii ascii_def list_all_iff code_lower_char ascii_lower_def)

lemma ToLower_idem_ascii: "ascii s \<Longrightarrow> ToLower (ToLower s) = ToLower s"
  using ascii_ToLower [of s] by (simp add: ToLower_ascii lower_char_idem)

lemma set_TrimSpace: "set (TrimSpace s) \<subseteq> set s"
proof -
  let ?space = "\<lambda>(r :: nat, _ :: string). IsSpace r"
  let ?kept = "rev (dropWhile ?space (rev (dropWhile ?space (utf8_segs s))))"
  have "set ?kept \<subseteq> set (utf8_segs s)"
    by (metis (no_types, lifting) set_dropWhileD set_rev subsetI)
  then have "set (concat (map snd ?kept)) \<subseteq> set (concat (map snd (utf8_segs s)))"
    by auto
  then show ?thesis
    by (simp add: TrimSpace_def Let_def concat_utf8_segs)
qed

lemma ascii_subset: "ascii s \<Longrightarrow> set t \<subseteq> set s \<Longrightarrow> ascii t"
  by (auto simp: ascii_def list_all_iff)

lemma TrimSpace_ascii:
  "ascii s \<Longrightarrow> TrimSpace s =
     (let space = (\<lambda>c. IsSpace (code c)) in rev (dropWhile space (rev (dropWhile space s))))"
  by (simp add: TrimSpace_def utf8_segs_ascii dropWhile_map rev_map comp_def Let_def)

lemma TrimSpace_none_ascii:
  assumes "ascii s" "s = [] \<or> \<not> IsSpace (code (hd s)) \<and> \<not> IsSpace (code (last s))"
  shows "TrimSpace s = s"
proof (cases "s = []")
  case False
  then have "dropWhile (\<lambda>c. IsSpace (code c)) s = s"
    "dropWhile (\<lambda>c. IsSpace (code c)) (rev s) = rev s"
    using assms(2) by (simp_all add: dropWhile_eq_self_iff hd_rev)
  with assms(1) show ?thesis by (simp add: TrimSpace_ascii Let_def)
qed (use assms in \<open>simp add: TrimSpace_ascii\<close>)

lemma TrimSpace_hd_last:
  assumes "ascii s" "TrimSpace s \<noteq> []"
  shows "\<not> IsSpace (code (hd (TrimSpace s))) \<and> \<not> IsSpace (code (last (TrimSpace s)))"
proof -
  let ?sp = "\<lambda>c. IsSpace (code c)"
  let ?a = "dropWhile ?sp s"
  let ?b = "dropWhile ?sp (rev ?a)"
  have t: "TrimSpace s = rev ?b" using assms(1) by (simp add: TrimSpace_ascii Let_def)
  with assms(2) have b: "?b \<noteq> []" by simp
  then have l: "\<not> ?sp (hd ?b)" by (rule hd_dropWhile)
  have a: "?a \<noteq> []"
  proof
    assume "?a = []"
    then have "?b = []" by (simp only: rev.simps dropWhile.simps)
    with b show False by contradiction
  qed
  then have "\<not> ?sp (hd ?a)" by (rule hd_dropWhile)
  moreover have "last ?b = last (rev ?a)"
    using b by (metis append_is_Nil_conv last_appendR takeWhile_dropWhile_id)
  ultimately have "\<not> ?sp (last ?b)" using a by (simp add: last_rev)
  with l b t show ?thesis by (simp add: hd_rev last_rev)
qed

lemma TrimSpace_idem_ascii: "ascii s \<Longrightarrow> TrimSpace (TrimSpace s) = TrimSpace s"
  using TrimSpace_hd_last [of s] TrimSpace_none_ascii [of "TrimSpace s"]
    ascii_subset [OF _ set_TrimSpace, of s] by blast

lemma ToLower_Nil [simp]: "ToLower [] = []"
  by (simp add: ToLower_def)

lemma TrimSpace_Nil [simp]: "TrimSpace [] = []"
  by (simp add: TrimSpace_def)

lemma HasPrefix_append [simp]: "HasPrefix (p @ s) p"
  by (simp add: HasPrefix_def)

lemma Contains_prefix: "HasPrefix s p \<Longrightarrow> Contains s p"
  by (cases s) (auto simp: HasPrefix_def)

lemma Contains_append_left: "Contains s p \<Longrightarrow> Contains (t @ s) p"
  by (induction t) auto

lemma Contains_middle: "Contains (t @ p @ s) p"
  by (simp add: Contains_append_left Contains_prefix)

end
