(* ===== verification/Host.thy ===== *)
theory Host
  imports GoText
begin

text \<open>
  \<^verbatim>\<open>NormalizeHost\<close> of \<^verbatim>\<open>internal/mcproto/handshake.go\<close>: the form of a host
  name under which routes are stored and looked up.  Spaces around the name, everything from
  the first NUL byte on (mod loaders append markers there), a port, the brackets of an IPv6
  literal and one final dot are dropped, and the rest is lower-cased.
\<close>

definition NormalizeHost :: "string \<Rightarrow> string" where
  "NormalizeHost host =
     (let host = TrimSpace host;
          host = (case IndexByte host CHR 0x00 of Some i \<Rightarrow> take i host | None \<Rightarrow> host);
          host = (case SplitHostPort host of
                    Inr (h, _) \<Rightarrow> h
                  | Inl _ \<Rightarrow>
                      if HasPrefix host ''['' \<and> HasSuffix host '']''
                      then TrimPrefix (TrimSuffix host '']'') ''[''
                      else host);
          host = TrimSuffix host ''.''
      in ToLower host)"

text \<open>The steps of the normalisation, one after the other.\<close>

definition cut_nul :: "string \<Rightarrow> string" where
  "cut_nul s = (case IndexByte s CHR 0x00 of Some i \<Rightarrow> take i s | None \<Rightarrow> s)"

definition strip_port :: "string \<Rightarrow> string" where
  "strip_port s = (case SplitHostPort s of
     Inr (h, _) \<Rightarrow> h
   | Inl _ \<Rightarrow> if HasPrefix s ''['' \<and> HasSuffix s '']'' then TrimPrefix (TrimSuffix s '']'') ''['' else s)"

lemma NormalizeHost_steps:
  "NormalizeHost s = ToLower (TrimSuffix (strip_port (cut_nul (TrimSpace s))) ''.'')"
  by (simp add: NormalizeHost_def cut_nul_def strip_port_def Let_def)

lemma cut_nul_none [simp]: "CHR 0x00 \<notin> set s \<Longrightarrow> cut_nul s = s"
  by (simp add: cut_nul_def)

lemma HasPrefix_single: "HasPrefix s [c] \<longleftrightarrow> s \<noteq> [] \<and> hd s = c"
  by (cases s) (auto simp: HasPrefix_def)

lemma strip_port_none [simp]: "CHR '':'' \<notin> set s \<Longrightarrow> CHR ''['' \<notin> set s \<Longrightarrow> strip_port s = s"
  by (cases s) (auto simp: strip_port_def SplitHostPort_no_colon HasPrefix_single)

section \<open>Plain host names\<close>

text \<open>
  The host names routes are configured with: non-empty ASCII text without spaces at its
  ends, NUL, colon or brackets, and without a dot at its end.
\<close>

definition special_chars :: "char set" where
  "special_chars = {CHR 0x00, CHR '':'', CHR ''['', CHR '']''}"

definition plain_host :: "string \<Rightarrow> bool" where
  "plain_host h \<longleftrightarrow> h \<noteq> [] \<and> ascii h \<and> set h \<inter> special_chars = {}
     \<and> \<not> IsSpace (code (hd h)) \<and> \<not> IsSpace (code (last h)) \<and> last h \<noteq> CHR ''.''"

lemma plain_hostD:
  assumes "plain_host h"
  shows "h \<noteq> []" "ascii h" "CHR 0x00 \<notin> set h" "CHR '':'' \<notin> set h" "CHR ''['' \<notin> set h"
    "CHR '']'' \<notin> set h" "TrimSpace h = h" "TrimSuffix h ''.'' = h"
  using assms by (auto simp: plain_host_def special_chars_def TrimSpace_none_ascii TrimSuffix_single)

lemma NormalizeHost_plain: "plain_host h \<Longrightarrow> NormalizeHost h = ToLower h"
  by (simp add: NormalizeHost_steps plain_hostD)

lemma NormalizeHost_Nil [simp]: "NormalizeHost [] = []"
  by (simp add: NormalizeHost_steps TrimSuffix_single)

text \<open>Lower-casing keeps a plain name plain.\<close>

lemma lower_char_fixes:
  assumes "code c < 128" "lower_char c = d" "code d < 65 \<or> 90 < code d \<and> code d < 97 \<or> 122 < code d"
  shows "c = d"
proof -
  from assms have "ascii_lower (code c) = code d"
    by (auto simp: code_lower_char simp flip: assms(2))
  with assms(3) have "code c = code d" by (auto simp: ascii_lower_def split: if_splits)
  then show ?thesis by simp
qed

lemma IsSpace_lower: "code c < 128 \<Longrightarrow> IsSpace (code (lower_char c)) \<longleftrightarrow> IsSpace (code c)"
  by (auto simp: code_lower_char ascii_lower_def IsSpace_def)

lemma plain_host_ToLower:
  assumes "plain_host h"
  shows "plain_host (ToLower h)"
proof -
  from assms have a: "ascii h" and ne: "h \<noteq> []" by (auto dest: plain_hostD)
  then have lt: "\<And>c. c \<in> set h \<Longrightarrow> code c < 128" by (auto simp: ascii_def list_all_iff)
  have low: "ToLower h = map lower_char h" using a by (rule ToLower_ascii)
  have "d \<notin> set (ToLower h)" if d: "d \<in> special_chars" for d
  proof
    assume "d \<in> set (ToLower h)"
    then obtain c where c: "c \<in> set h" "lower_char c = d" by (auto simp: low)
    then have "c = d" using lower_char_fixes [OF lt [OF c(1)] c(2)] d by (auto simp: special_chars_def)
    with c(1) d show False using assms by (auto simp: plain_host_def)
  qed
  then have sp: "set (ToLower h) \<inter> special_chars = {}" by blast
  have dot: "last (ToLower h) \<noteq> CHR ''.''"
  proof
    assume "last (ToLower h) = CHR ''.''"
    then have "lower_char (last h) = CHR ''.''" using ne by (simp add: low last_map)
    then have "last h = CHR ''.''" using lower_char_fixes [OF lt [of "last h"]] ne by simp
    with assms show False by (simp add: plain_host_def)
  qed
  have "\<not> IsSpace (code (hd (ToLower h)))" "\<not> IsSpace (code (last (ToLower h)))"
    using assms ne lt by (auto simp: low plain_host_def hd_map last_map IsSpace_lower)
  with sp dot ne ascii_ToLower [OF a] show ?thesis
    by (simp add: plain_host_def low)
qed

lemma NormalizeHost_plain_idem: "plain_host h \<Longrightarrow> NormalizeHost (NormalizeHost h) = NormalizeHost h"
  by (simp add: NormalizeHost_plain plain_host_ToLower ToLower_idem_ascii plain_hostD)

text \<open>
  The variants of a plain name a client may send: a final dot, a port, a marker after a NUL
  byte, and any letter case.
\<close>

lemma NormalizeHost_dot:
  assumes "plain_host h"
  shows "NormalizeHost (h @ ''.'') = NormalizeHost h"
proof -
  have "TrimSpace (h @ ''.'') = h @ ''.''"
    using plain_hostD [OF assms] assms
    by (intro TrimSpace_none_ascii) (auto simp: plain_host_def hd_append IsSpace_def)
  then show ?thesis
    using plain_hostD [OF assms]
    by (simp add: NormalizeHost_plain assms NormalizeHost_steps TrimSuffix_single)
qed

lemma NormalizeHost_port:
  assumes h: "plain_host h" and p: "p \<noteq> []" "list_all is_digit p"
  shows "NormalizeHost (h @ '':'' @ p) = NormalizeHost h"
proof -
  have dig: "48 \<le> code c \<and> code c \<le> 57" if "c \<in> set p" for c
    using p(2) that by (auto simp: list_all_iff is_digit_def)
  then have ap: "ascii p" by (fastforce simp: ascii_def list_all_iff)
  have "last p \<in> set p" using p(1) by simp
  from dig [OF this] have "\<not> IsSpace (code (last p))" by (auto simp: IsSpace_def)
  then have trim: "TrimSpace (h @ '':'' @ p) = h @ '':'' @ p"
    using plain_hostD [OF h] h p(1) ap
    by (intro TrimSpace_none_ascii) (auto simp: plain_host_def hd_append)
  have np: "CHR 0x00 \<notin> set p" "CHR '':'' \<notin> set p" "CHR ''['' \<notin> set p" "CHR '']'' \<notin> set p"
    using dig [of "CHR 0x00"] dig [of "CHR '':''"] dig [of "CHR ''[''"] dig [of "CHR '']''"]
    by auto
  then have nul: "cut_nul (h @ '':'' @ p) = h @ '':'' @ p"
    using plain_hostD(3) [OF h] by simp
  have split: "SplitHostPort (h @ '':'' @ p) = Inr (h, p)"
    using SplitHostPort_plain plain_hostD [OF h] np by simp
  then have "strip_port (h @ '':'' @ p) = h" by (simp add: strip_port_def)
  then show ?thesis
    by (simp only: NormalizeHost_plain [OF h] NormalizeHost_steps [of "h @ '':'' @ p"] trim nul plain_hostD(8) [OF h])
qed

lemma NormalizeHost_marker:
  assumes h: "plain_host h" and m: "ascii m" "m = [] \<or> \<not> IsSpace (code (last m))"
  shows "NormalizeHost (h @ CHR 0x00 # m) = NormalizeHost h"
proof -
  let ?s = "h @ CHR 0x00 # m"
  have trim: "TrimSpace ?s = ?s"
    using plain_hostD [OF h] h m
    by (intro TrimSpace_none_ascii) (auto simp: plain_host_def hd_append IsSpace_def)
  have "cut_nul ?s = h"
    using plain_hostD(3) [OF h] IndexByte_Some [of ?s "CHR 0x00" "length h"]
    by (simp add: cut_nul_def)
  with trim show ?thesis
    by (simp only: NormalizeHost_plain [OF h] NormalizeHost_steps) (simp add: plain_hostD [OF h])
qed

lemma NormalizeHost_case:
  assumes "plain_host h" "plain_host g" "ToLower g = ToLower h"
  shows "NormalizeHost g = NormalizeHost h"
  using assms by (simp add: NormalizeHost_plain)

end
