(* ===== verification/Router.thy ===== *)
theory Router
  imports Host
begin

text \<open>
  \<^verbatim>\<open>internal/proxy/router.go\<close> with the \<^verbatim>\<open>Backend\<close> and
  \<^verbatim>\<open>Route\<close> types of \<^verbatim>\<open>internal/proxy/types.go\<close>: the table from normalised
  host names to backends.  The locale \<open>host_router\<close> is the \<^verbatim>\<open>Router\<close> interface as
  the server uses it.
\<close>

section \<open>Definitions\<close>

record Backend =
  Name :: string
  Addr :: string
  StatusCacheFlag :: "bool option"

record Route =
  Hosts :: "string list"
  RouteBackend :: Backend

record StaticRouter =
  routes :: "string \<rightharpoonup> Backend"
  default_backend :: "Backend option"

definition add_host :: "Backend \<Rightarrow> (string \<rightharpoonup> Backend) \<Rightarrow> string \<Rightarrow> (string \<rightharpoonup> Backend)" where
  "add_host backend routeMap host =
     (let normalized = NormalizeHost host
      in if normalized \<noteq> '''' then routeMap(normalized \<mapsto> backend) else routeMap)"

definition NewStaticRouter :: "Route list \<Rightarrow> Backend option \<Rightarrow> StaticRouter" where
  "NewStaticRouter rs def =
     \<lparr>routes = foldl (\<lambda>m route. foldl (add_host (RouteBackend route)) m (Hosts route)) Map.empty rs,
      default_backend = def\<rparr>"

definition Resolve :: "StaticRouter \<Rightarrow> string \<Rightarrow> Backend option" where
  "Resolve r host =
     (let normalized = NormalizeHost host in
      case routes r normalized of
        Some backend \<Rightarrow> Some backend
      | None \<Rightarrow> default_backend r)"

section \<open>The interface\<close>

locale host_router =
  fixes resolve :: "'r \<Rightarrow> string \<Rightarrow> Backend option"
    and lookup :: "'r \<Rightarrow> string \<Rightarrow> Backend option"
    and fallback :: "'r \<Rightarrow> Backend option"
  assumes resolve_known: "lookup r (NormalizeHost h) = Some b \<Longrightarrow> resolve r h = Some b"
    and resolve_unknown: "lookup r (NormalizeHost h) = None \<Longrightarrow> resolve r h = fallback r"
begin

text \<open>The server looks up the normal form of the client's address, so the name is normalised twice.\<close>

lemma resolve_normalized:
  "NormalizeHost a = NormalizeHost h \<Longrightarrow> plain_host h \<Longrightarrow> resolve r (NormalizeHost a) = resolve r h"
  by (cases "lookup r (NormalizeHost h)")
    (simp_all add: resolve_known resolve_unknown NormalizeHost_plain_idem)

lemma resolve_total: "fallback r \<noteq> None \<Longrightarrow> resolve r h \<noteq> None"
  by (cases "lookup r (NormalizeHost h)") (simp_all add: resolve_known resolve_unknown)

end

interpretation static: host_router Resolve routes default_backend
  by unfold_locales (simp_all add: Resolve_def)

section \<open>The table as a list\<close>

text \<open>The entries in the order of the configuration; later entries override earlier ones.\<close>

definition route_table :: "Route list \<Rightarrow> (string \<times> Backend) list" where
  "route_table rs = concat (map (\<lambda>route.
     map (\<lambda>h. (NormalizeHost h, RouteBackend route))
       (filter (\<lambda>h. NormalizeHost h \<noteq> '''') (Hosts route))) rs)"

lemma add_hosts:
  "foldl (add_host b) m hs = m ++ map_of (rev (map (\<lambda>h. (NormalizeHost h, b)) (filter (\<lambda>h. NormalizeHost h \<noteq> '''') hs)))"
  by (induction hs arbitrary: m) (simp_all add: add_host_def Let_def map_add_assoc)

lemma routes_NewStaticRouter: "routes (NewStaticRouter rs def) = map_of (rev (route_table rs))"
proof -
  have "foldl (\<lambda>m route. foldl (add_host (RouteBackend route)) m (Hosts route)) m rs
      = m ++ map_of (rev (route_table rs))" for m
    by (induction rs arbitrary: m) (simp_all add: route_table_def add_hosts map_add_assoc)
  then show ?thesis by (simp add: NewStaticRouter_def)
qed

lemma default_NewStaticRouter [simp]: "default_backend (NewStaticRouter rs def) = def"
  by (simp add: NewStaticRouter_def)

lemma Resolve_NewStaticRouter:
  "Resolve (NewStaticRouter rs def) h =
     (case map_of (rev (route_table rs)) (NormalizeHost h) of Some b \<Rightarrow> Some b | None \<Rightarrow> def)"
  by (simp add: Resolve_def routes_NewStaticRouter split: option.split)

lemma route_table_iff:
  "(n, b) \<in> set (route_table rs) \<longleftrightarrow>
     n \<noteq> '''' \<and> (\<exists>route \<in> set rs. RouteBackend route = b \<and> (\<exists>h \<in> set (Hosts route). NormalizeHost h = n))"
  by (auto simp: route_table_def)

text \<open>A name that is listed once resolves to the backend of its route.\<close>

lemma Resolve_unique:
  assumes "distinct (map fst (route_table rs))" "route \<in> set rs" "h \<in> set (Hosts route)"
    and "NormalizeHost h \<noteq> ''''" "NormalizeHost a = NormalizeHost h"
  shows "Resolve (NewStaticRouter rs def) a = Some (RouteBackend route)"
proof -
  have "(NormalizeHost h, RouteBackend route) \<in> set (rev (route_table rs))"
    using assms(2-4) by (auto simp: route_table_iff)
  moreover have "distinct (map fst (rev (route_table rs)))"
    using assms(1) by (simp flip: rev_map)
  ultimately have "map_of (rev (route_table rs)) (NormalizeHost h) = Some (RouteBackend route)"
    by simp
  with assms(5) show ?thesis by (simp add: Resolve_NewStaticRouter)
qed

section \<open>Properties\<close>



text \<open>
  The server asks for the normal form of the host it was sent, and the table takes the normal form again.  A host
  with two dots at its end, which loses one of them each time, is never found.
\<close>

lemma two_dots_unreachable:
  "Resolve (NewStaticRouter [\<lparr>Hosts = [''a..''], RouteBackend = b\<rparr>] None) (NormalizeHost ''a..'') = None"
proof -
  have n: "NormalizeHost ''a..'' = ''a.''" "NormalizeHost ''a.'' = ''a''"
    by (simp_all add: NormalizeHost_def Let_def TrimSpace_none_ascii IsSpace_def SplitHostPort_no_colon ToLower_ascii
        lower_char_def ascii_lower_def char_of_eq_iff TrimSuffix_single HasPrefix_def)
  show ?thesis by (simp add: Resolve_NewStaticRouter route_table_def n)
qed


end
