(* ===== verification/GoIO.thy ===== *)
theory GoIO
  imports GoText
begin

text \<open>
  Input and output.  A reader is the bytes that will still arrive and the error that ends
  them: \<open>EOF\<close> for a \<^verbatim>\<open>bytes.Reader\<close> and for an orderly close, the text of a timeout
  or a reset for a connection whose deadline passes first.  A connection adds what was
  written to it, a script of the outcomes of its \<^verbatim>\<open>Write\<close> calls (a failing call may
  have sent a part of its bytes), its remote address and whether it was closed.
\<close>

section \<open>Readers\<close>

record reader =
  pending :: "byte list"
  at_end :: go_error

definition bytes_NewReader :: "byte list \<Rightarrow> reader" where
  "bytes_NewReader bs = \<lparr>pending = bs, at_end = EOF\<rparr>"

definition reader_Len :: "reader \<Rightarrow> nat" where
  "reader_Len r = length (pending r)"

text \<open>
  \<^verbatim>\<open>io.ReadFull\<close> into a buffer of \<open>n\<close> bytes: an empty buffer needs no read; an
  end of input after some bytes is \<^verbatim>\<open>io.ErrUnexpectedEOF\<close>.
\<close>

definition ReadFull :: "nat \<Rightarrow> reader \<Rightarrow> (go_error + byte list) \<times> reader" where
  "ReadFull n r =
     (if n \<le> length (pending r)
      then (Inr (take n (pending r)), r\<lparr>pending := drop n (pending r)\<rparr>)
      else (Inl (if pending r \<noteq> [] \<and> at_end r = EOF then ErrUnexpectedEOF else at_end r),
            r\<lparr>pending := []\<rparr>))"

text \<open>
  \<^verbatim>\<open>bytes.Reader.Read\<close> into a buffer of \<open>n\<close> bytes: at the end of the data it is
  \<^verbatim>\<open>io.EOF\<close>, also for an empty buffer.
\<close>

definition bytes_Read :: "nat \<Rightarrow> reader \<Rightarrow> (go_error + byte list) \<times> reader" where
  "bytes_Read n r =
     (if pending r = [] then (Inl EOF, r)
      else (Inr (take n (pending r)), r\<lparr>pending := drop n (pending r)\<rparr>))"

lemma ReadFull_enough [simp]:
  "n \<le> length bs \<Longrightarrow>
     ReadFull n \<lparr>pending = bs, at_end = e\<rparr> = (Inr (take n bs), \<lparr>pending = drop n bs, at_end = e\<rparr>)"
  by (simp add: ReadFull_def)

lemma ReadFull_1_Cons [simp]:
  "ReadFull (Suc 0) \<lparr>pending = b # bs, at_end = e\<rparr> = (Inr [b], \<lparr>pending = bs, at_end = e\<rparr>)"
  by (simp add: ReadFull_def)

lemma ReadFull_1_Nil [simp]:
  "ReadFull (Suc 0) \<lparr>pending = [], at_end = e\<rparr> = (Inl e, \<lparr>pending = [], at_end = e\<rparr>)"
  by (simp add: ReadFull_def)

lemma ReadFull_Inr:
  "ReadFull n r = (Inr bs, r') \<longleftrightarrow>
     n = length bs \<and> pending r = bs @ pending r' \<and> at_end r' = at_end r \<and> r' = r\<lparr>pending := pending r'\<rparr>"
proof -
  have "n \<le> length (pending r) \<Longrightarrow> pending r = take n (pending r) @ drop n (pending r)"
    by simp
  then show ?thesis
    by (cases r, cases r') (auto simp: ReadFull_def min_def split: if_splits)
qed

lemma ReadFull_at_end [frame]: "at_end (snd (ReadFull n r)) = at_end r"
  by (simp add: ReadFull_def)

lemma pending_NewReader [simp]:
  "pending (bytes_NewReader bs) = bs" "at_end (bytes_NewReader bs) = EOF"
  by (simp_all add: bytes_NewReader_def)

section \<open>Connections\<close>

datatype write_outcome = WriteOK | WriteFails nat go_error

record conn =
  inp :: reader
  outp :: "byte list"
  write_script :: "write_outcome list"
  remote_addr :: string
  closed :: bool

definition new_conn :: "byte list \<Rightarrow> go_error \<Rightarrow> write_outcome list \<Rightarrow> string \<Rightarrow> conn" where
  "new_conn bs e ws addr =
     \<lparr>inp = \<lparr>pending = bs, at_end = e\<rparr>, outp = [], write_script = ws, remote_addr = addr, closed = False\<rparr>"

definition errClosed :: go_error where
  "errClosed = NetError ''use of closed network connection''"

text \<open>\<^verbatim>\<open>conn.Write\<close>: the error it returns, if any, and the connection afterwards.\<close>

definition Write :: "byte list \<Rightarrow> conn \<Rightarrow> go_error option \<times> conn" where
  "Write bs c =
     (if closed c then (Some errClosed, c)
      else case write_script c of
        [] \<Rightarrow> (None, c\<lparr>outp := outp c @ bs\<rparr>)
      | WriteOK # ws \<Rightarrow> (None, c\<lparr>outp := outp c @ bs, write_script := ws\<rparr>)
      | WriteFails n e # ws \<Rightarrow> (Some e, c\<lparr>outp := outp c @ take n bs, write_script := ws\<rparr>))"

definition Close :: "conn \<Rightarrow> conn" where
  "Close c = c\<lparr>closed := True\<rparr>"

lemma Write_inp [frame, simp]: "inp (snd (Write bs c)) = inp c"
  "remote_addr (snd (Write bs c)) = remote_addr c"
  "closed (snd (Write bs c)) = closed c"
  by (auto simp: Write_def split: list.splits write_outcome.splits)

lemma Write_ok: "Write bs c = (None, c') \<Longrightarrow> outp c' = outp c @ bs \<and> inp c' = inp c \<and> closed c' = closed c"
  by (auto simp: Write_def split: list.splits write_outcome.splits if_splits)

text \<open>Whatever the outcome, a write appends a part of its argument, from the front.\<close>

lemma Write_prefix: "\<exists>n. outp (snd (Write bs c)) = outp c @ take n bs"
proof (cases "closed c")
  case True
  then have "outp (snd (Write bs c)) = outp c @ take 0 bs" by (simp add: Write_def)
  then show ?thesis ..
next
  case False
  show ?thesis
  proof (cases "write_script c")
    case Nil
    with False have "outp (snd (Write bs c)) = outp c @ take (length bs) bs" by (simp add: Write_def)
    then show ?thesis ..
  next
    case (Cons w ws)
    with False show ?thesis
      by (cases w) (auto simp: Write_def intro: exI [of _ "length bs"])
  qed
qed

lemma Write_healthy [simp]:
  "\<not> closed c \<Longrightarrow> write_script c = [] \<Longrightarrow> Write bs c = (None, c\<lparr>outp := outp c @ bs\<rparr>)"
  by (simp add: Write_def)

end
