(* ===== verification/VarInt.thy ===== *)
theory VarInt
  imports GoIO
begin

unbundle bit_operations_syntax

text \<open>
  \<^verbatim>\<open>internal/mcproto/varint.go\<close>: the variable-length encoding of 32-bit integers, seven
  bits per byte, least significant group first, the top bit of a byte saying that another
  byte follows.  The decoder is the loop of the source with its accumulator, its count of
  bytes and the raw bytes it collects.
\<close>

section \<open>Definitions\<close>

definition MaxVarIntBytes :: nat where "MaxVarIntBytes = 5"
definition MaxPacketLength :: int where "MaxPacketLength = 2 ^ 21 - 1"

function ReadVarInt_loop ::
  "nat \<Rightarrow> int32 \<Rightarrow> byte list \<Rightarrow> reader \<Rightarrow> (go_error + int32) \<times> byte list \<times> reader" where
  "ReadVarInt_loop numRead result raw r =
     (case ReadFull 1 r of
        (Inl err, r') \<Rightarrow> (Inl err, raw, r')
      | (Inr buf, r') \<Rightarrow>
          (let b = hd buf;
               raw' = raw @ [b];
               val = ucast (b AND 0x7F) :: int32;
               result' = result OR push_bit (7 * numRead) val;
               numRead' = numRead + 1
           in if numRead' > MaxVarIntBytes then (Inl ErrVarIntTooLong, raw', r')
              else if b AND 0x80 = 0 then (Inr result', raw', r')
              else ReadVarInt_loop numRead' result' raw' r'))"
  by pat_completeness auto
termination
  by (relation "measure (\<lambda>(n, _, _, _). MaxVarIntBytes + 1 - n)") auto

declare ReadVarInt_loop.simps [simp del]

definition ReadVarInt :: "reader \<Rightarrow> (go_error + int32) \<times> byte list \<times> reader" where
  "ReadVarInt r = ReadVarInt_loop 0 0 [] r"

lemma unat_drop_bit_7: "unat (drop_bit 7 (u :: int32)) = unat u div 128"
  by (simp only: unat_drop_bit_eq) (simp add: drop_bit_eq_div)

lemma drop_bit_7_less: "(u :: int32) AND NOT 0x7F \<noteq> 0 \<Longrightarrow> unat (drop_bit 7 u) < unat u"
proof -
  assume u: "u AND NOT 0x7F \<noteq> 0"
  have "u \<noteq> 0"
  proof
    assume "u = 0"
    with u show False by simp
  qed
  then have "0 < unat u" by (simp add: unat_gt_0)
  then show ?thesis by (simp only: unat_drop_bit_eq) (simp add: drop_bit_eq_div)
qed

function EncodeVarInt_loop :: "int32 \<Rightarrow> byte list \<Rightarrow> byte list" where
  "EncodeVarInt_loop u out =
     (if u AND NOT 0x7F = 0 then out @ [ucast u]
      else EncodeVarInt_loop (drop_bit 7 u) (out @ [ucast ((u AND 0x7F) OR 0x80)]))"
  by pat_completeness auto
termination
  by (relation "measure (\<lambda>(u, _). unat u)") (auto intro: drop_bit_7_less)

declare EncodeVarInt_loop.simps [simp del]

definition EncodeVarInt :: "int32 \<Rightarrow> byte list" where
  "EncodeVarInt val = EncodeVarInt_loop val []"

definition WriteVarInt :: "conn \<Rightarrow> int32 \<Rightarrow> go_error option \<times> conn" where
  "WriteVarInt w val = Write (EncodeVarInt val) w"

definition VarIntSize :: "int32 \<Rightarrow> nat" where
  "VarIntSize val = length (EncodeVarInt val)"

definition CheckPacketLength :: "int32 \<Rightarrow> int \<Rightarrow> go_error option" where
  "CheckPacketLength len maxLen =
     (if sint len < 0 then Some (Errorf (''negative packet length '' @ show_int (sint len)))
      else if sint len > maxLen
      then Some (Errorf (''packet length '' @ show_int (sint len) @ '' exceeds max '' @ show_int maxLen))
      else None)"

section \<open>Bit facts\<close>

lemma mask_7F: "(0x7F :: 'a::len word) = mask 7"
  by (simp add: mask_numeral)

lemma bit_128 [simp]: "bit (0x80 :: int) n \<longleftrightarrow> n = 7"
proof -
  have e: "(0x80 :: int) = 2 ^ 7" by simp
  show ?thesis by (simp only: e bit_exp_iff) auto
qed

lemma no_high_bits: "(u :: int32) AND NOT 0x7F = 0 \<longleftrightarrow> (\<forall>n\<ge>7. \<not> bit u n)"
proof -
  have "bit u n \<Longrightarrow> n < 32" for n using bit_imp_le_length [of u n] by simp
  then show ?thesis unfolding mask_7F bit_eq_iff by (auto simp: bit_simps not_less)
qed

lemma top_bit_clear: "(b :: byte) AND 0x80 = 0 \<longleftrightarrow> \<not> bit b 7"
proof
  assume "b AND 0x80 = 0"
  then have "\<not> bit (b AND 0x80) 7" by simp
  then show "\<not> bit b 7" by (simp add: bit_and_iff)
next
  assume "\<not> bit b 7"
  then show "b AND 0x80 = 0" by (intro bit_word_eqI) (auto simp: bit_and_iff)
qed

lemma low_bits_only: "unat (u :: int32) < 2 ^ m \<Longrightarrow> m \<le> n \<Longrightarrow> \<not> bit u n"
proof -
  assume "unat u < 2 ^ m" "m \<le> n"
  then have "unat (take_bit m u) = unat u"
    by (simp add: unsigned_take_bit_eq take_bit_nat_eq_self)
  then have "take_bit m u = u" by (rule unsigned_word_eqI)
  with \<open>m \<le> n\<close> show ?thesis by (metis bit_take_bit_iff not_le)
qed

lemma last_group:
  assumes "(u :: int32) AND NOT 0x7F = 0"
  shows "ucast ((ucast u :: byte) AND 0x7F) = u" and "\<not> bit (ucast u :: byte) 7"
proof -
  show "ucast ((ucast u :: byte) AND 0x7F) = u"
    unfolding mask_7F
  proof (rule bit_word_eqI)
    fix n assume "n < LENGTH(32)"
    moreover have "\<forall>n\<ge>7. \<not> bit u n" using assms by (rule no_high_bits [THEN iffD1])
    ultimately show "bit (ucast ((ucast u :: byte) AND mask 7) :: int32) n = bit u n"
      by (cases "n < 7") (auto simp: bit_simps)
  qed
  show "\<not> bit (ucast u :: byte) 7"
    using no_high_bits [THEN iffD1, OF assms] by (simp add: bit_simps)
qed

lemma middle_group:
  "ucast (ucast (((u :: int32) AND 0x7F) OR 0x80) AND (0x7F :: byte)) = u AND 0x7F"
  "bit (ucast (((u :: int32) AND 0x7F) OR 0x80) :: byte) 7"
proof -
  show "ucast (ucast ((u AND 0x7F) OR 0x80) AND (0x7F :: byte)) = u AND 0x7F"
    unfolding mask_7F by (rule bit_word_eqI) (auto simp: bit_simps)
  show "bit (ucast ((u AND 0x7F) OR 0x80) :: byte) 7"
    by (simp add: bit_simps)
qed

lemma join_groups:
  "push_bit k (u AND 0x7F) OR push_bit (k + 7) (drop_bit 7 u) = push_bit k (u :: int32)"
  unfolding mask_7F
proof (rule bit_word_eqI)
  fix n assume "n < LENGTH(32)"
  then show "bit (push_bit k (u AND mask 7) OR push_bit (k + 7) (drop_bit 7 u)) n = bit (push_bit k u) n"
    by (cases "n < 7 + k") (auto simp: bit_simps add.commute)
qed

section \<open>The encoder\<close>

lemma EncodeVarInt_loop_append: "EncodeVarInt_loop u out = out @ EncodeVarInt u"
proof (induction "unat u" arbitrary: u out rule: less_induct)
  case less
  show ?case
  proof (cases "u AND NOT 0x7F = 0")
    case True
    then show ?thesis by (simp add: EncodeVarInt_def EncodeVarInt_loop.simps [of u])
  next
    case False
    then have "unat (drop_bit 7 u) < unat u" by (rule drop_bit_7_less)
    then have IH: "EncodeVarInt_loop (drop_bit 7 u) out' = out' @ EncodeVarInt (drop_bit 7 u)" for out'
      by (rule less)
    from False have unroll: "EncodeVarInt_loop u out' =
        EncodeVarInt_loop (drop_bit 7 u) (out' @ [ucast ((u AND 0x7F) OR 0x80)])" for out'
      by (subst EncodeVarInt_loop.simps) (simp only: if_False)
    show ?thesis
      unfolding EncodeVarInt_def [of u] unroll IH by simp
  qed
qed

text \<open>The encoder without its buffer.\<close>

lemma EncodeVarInt_rec:
  "EncodeVarInt u =
     (if u AND NOT 0x7F = 0 then [ucast u]
      else ucast ((u AND 0x7F) OR 0x80) # EncodeVarInt (drop_bit 7 u))"
proof -
  have "EncodeVarInt_loop (drop_bit 7 u) [b] = b # EncodeVarInt (drop_bit 7 u)" for b
    by (simp only: EncodeVarInt_loop_append append.simps)
  then show ?thesis
    by (simp only: EncodeVarInt_def [of u] EncodeVarInt_loop.simps [of u] append.simps)
qed

lemma EncodeVarInt_induct [case_names last more]:
  assumes "\<And>u. u AND NOT 0x7F = 0 \<Longrightarrow> P u"
    and "\<And>u. u AND NOT 0x7F \<noteq> 0 \<Longrightarrow> P (drop_bit 7 u) \<Longrightarrow> P u"
  shows "P (u :: int32)"
proof (induction "unat u" arbitrary: u rule: less_induct)
  case less
  then show ?case
    using assms drop_bit_7_less by (cases "u AND NOT 0x7F = 0") blast+
qed

lemma EncodeVarInt_nonempty [simp]: "EncodeVarInt u \<noteq> []"
  by (simp add: EncodeVarInt_rec [of u])

text \<open>\<open>7 n\<close> bits take at most \<open>n\<close> bytes, so 32 bits take at most five.\<close>

lemma length_EncodeVarInt_bits:
  "unat u < 2 ^ (7 * n) \<Longrightarrow> 0 < n \<Longrightarrow> length (EncodeVarInt u) \<le> n"
proof (induction u arbitrary: n rule: EncodeVarInt_induct)
  case (last u)
  then show ?case by (simp add: EncodeVarInt_rec [of u])
next
  case (more u)
  have "1 < n"
  proof (rule ccontr)
    assume "\<not> 1 < n"
    with more.prems(2) have "n = 1" by simp
    with more.prems(1) have "unat u < 2 ^ 7" by simp
    then have "\<forall>n\<ge>7. \<not> bit u n" using low_bits_only by blast
    then have "u AND NOT 0x7F = 0" by (rule no_high_bits [THEN iffD2])
    with more.hyps show False by contradiction
  qed
  then obtain m where m: "n = Suc m" "0 < m" by (cases n) auto
  have "unat (drop_bit 7 u) < 2 ^ (7 * m)"
    using more.prems(1) m
    by (simp only: unat_drop_bit_7) (simp add: power_add less_mult_imp_div_less mult.commute)
  with more.IH m(2) have "length (EncodeVarInt (drop_bit 7 u)) \<le> m" by blast
  with more.hyps m(1) show ?case by (simp add: EncodeVarInt_rec [of u])
qed

lemma length_EncodeVarInt [codec]: "length (EncodeVarInt u) \<le> MaxVarIntBytes"
proof -
  have "unat u < 2 ^ LENGTH(32)" by (rule unsigned_less)
  then have "unat u < 2 ^ (7 * 5)" by simp
  then show ?thesis using length_EncodeVarInt_bits [of u 5] by (simp add: MaxVarIntBytes_def)
qed

section \<open>The decoder\<close>

lemma ReadVarInt_loop_EncodeVarInt:
  assumes "unat u < 2 ^ (32 - 7 * k)" "k \<le> 4"
  shows "ReadVarInt_loop k acc raw \<lparr>pending = EncodeVarInt u @ rest, at_end = e\<rparr>
    = (Inr (acc OR push_bit (7 * k) u), raw @ EncodeVarInt u, \<lparr>pending = rest, at_end = e\<rparr>)"
  using assms
proof (induction u arbitrary: k acc raw rule: EncodeVarInt_induct)
  case (last u)
  then show ?case
    by (simp add: EncodeVarInt_rec [of u] ReadVarInt_loop.simps [of k] Let_def MaxVarIntBytes_def
        last_group top_bit_clear)
next
  case (more u)
  let ?b = "ucast ((u AND 0x7F) OR 0x80) :: byte"
  have k: "k < 4"
  proof (rule ccontr)
    assume "\<not> k < 4"
    with more.prems have "unat u < 2 ^ 4" by (simp add: le_antisym)
    then have "\<forall>n\<ge>7. \<not> bit u n"
      by (intro allI impI low_bits_only [of u 4]) auto
    then have "u AND NOT 0x7F = 0" by (rule no_high_bits [THEN iffD2])
    with more.hyps show False by contradiction
  qed
  have "unat (drop_bit 7 u) < 2 ^ (32 - 7 * (k + 1))"
  proof -
    have "32 - 7 * k = (32 - 7 * (k + 1)) + 7" using k by simp
    then have "(2 :: nat) ^ (32 - 7 * k) = 2 ^ (32 - 7 * (k + 1)) * 2 ^ 7"
      by (simp only: power_add)
    with more.prems show ?thesis
      by (simp only: unat_drop_bit_7) (simp add: less_mult_imp_div_less)
  qed
  with more.IH k have IH: "ReadVarInt_loop (k + 1) acc' raw' \<lparr>pending = EncodeVarInt (drop_bit 7 u) @ rest, at_end = e\<rparr>
      = (Inr (acc' OR push_bit (7 * (k + 1)) (drop_bit 7 u)), raw' @ EncodeVarInt (drop_bit 7 u),
         \<lparr>pending = rest, at_end = e\<rparr>)" for acc' raw'
    by simp
  have enc: "EncodeVarInt u = ?b # EncodeVarInt (drop_bit 7 u)"
    by (simp only: EncodeVarInt_rec [of u] more.hyps if_False)
  have "ReadVarInt_loop k acc raw \<lparr>pending = EncodeVarInt u @ rest, at_end = e\<rparr>
    = ReadVarInt_loop (k + 1) (acc OR push_bit (7 * k) (u AND 0x7F)) (raw @ [?b])
        \<lparr>pending = EncodeVarInt (drop_bit 7 u) @ rest, at_end = e\<rparr>"
    using k by (subst ReadVarInt_loop.simps)
      (simp only: enc append.simps One_nat_def ReadFull_1_Cons prod.case sum.case list.sel Let_def
        top_bit_clear middle_group MaxVarIntBytes_def, simp)
  also have "\<dots> = (Inr (acc OR push_bit (7 * k) u), raw @ EncodeVarInt u, \<lparr>pending = rest, at_end = e\<rparr>)"
    using join_groups [of "7 * k" u] by (simp only: IH enc) (simp add: or.assoc add.commute)
  finally show ?case .
qed

text \<open>
  A reference description of the format: the value of a list of groups, least significant
  first, and which byte lists are complete encodings.
\<close>

primrec varint_value :: "byte list \<Rightarrow> int32" where
  "varint_value [] = 0"
| "varint_value (b # bs) = ucast (b AND 0x7F) OR push_bit 7 (varint_value bs)"

definition is_varint :: "byte list \<Rightarrow> bool" where
  "is_varint bs \<longleftrightarrow> bs \<noteq> [] \<and> length bs \<le> MaxVarIntBytes
     \<and> list_all (\<lambda>b. bit b 7) (butlast bs) \<and> \<not> bit (last bs) 7"

lemma ReadVarInt_loop_Nil:
  "ReadVarInt_loop k acc raw \<lparr>pending = [], at_end = e\<rparr> = (Inl e, raw, \<lparr>pending = [], at_end = e\<rparr>)"
  by (simp add: ReadVarInt_loop.simps [of k])

lemma ReadVarInt_loop_Cons:
  "ReadVarInt_loop k acc raw \<lparr>pending = b # bs, at_end = e\<rparr> =
     (let acc' = acc OR push_bit (7 * k) (ucast (b AND 0x7F)); rest = \<lparr>pending = bs, at_end = e\<rparr>
      in if MaxVarIntBytes \<le> k then (Inl ErrVarIntTooLong, raw @ [b], rest)
         else if \<not> bit b 7 then (Inr acc', raw @ [b], rest)
         else ReadVarInt_loop (Suc k) acc' (raw @ [b]) rest)"
  by (subst ReadVarInt_loop.simps) (simp add: Let_def top_bit_clear less_Suc_eq_le)

lemma ReadVarInt_loop_spec:
  "ReadVarInt_loop k acc raw \<lparr>pending = p, at_end = e\<rparr> = (Inr v, raw', r') \<longleftrightarrow>
     (\<exists>bs. bs \<noteq> [] \<and> k + length bs \<le> MaxVarIntBytes \<and> list_all (\<lambda>b. bit b 7) (butlast bs)
        \<and> \<not> bit (last bs) 7 \<and> raw' = raw @ bs \<and> v = acc OR push_bit (7 * k) (varint_value bs)
        \<and> p = bs @ pending r' \<and> at_end r' = e)"
proof (induction p arbitrary: k acc raw)
  case Nil
  then show ?case by (simp add: ReadVarInt_loop_Nil)
next
  case (Cons b p)
  let ?acc = "acc OR push_bit (7 * k) (ucast (b AND 0x7F))"
  consider (long) "MaxVarIntBytes \<le> k" | (last) "k < MaxVarIntBytes" "\<not> bit b 7"
    | (more) "k < MaxVarIntBytes" "bit b 7"
    by linarith
  then show ?case
  proof cases
    case long
    then show ?thesis by (auto simp: ReadVarInt_loop_Cons Let_def neq_Nil_conv)
  next
    case last
    have "(\<exists>bs. bs \<noteq> [] \<and> k + length bs \<le> MaxVarIntBytes \<and> list_all (\<lambda>b. bit b 7) (butlast bs)
        \<and> \<not> bit (last bs) 7 \<and> raw' = raw @ bs \<and> v = acc OR push_bit (7 * k) (varint_value bs)
        \<and> b # p = bs @ pending r' \<and> at_end r' = e) \<longleftrightarrow>
      raw' = raw @ [b] \<and> v = ?acc \<and> p = pending r' \<and> at_end r' = e" (is "(\<exists>bs. ?P bs) \<longleftrightarrow> ?Q")
    proof
      assume "\<exists>bs. ?P bs"
      then obtain bs where P: "?P bs" ..
      then obtain bs' where bs: "bs = b # bs'" by (cases bs) auto
      with P last have "bs' = []" by (auto split: if_splits)
      with P bs show ?Q by simp
    next
      assume ?Q
      with last have "?P [b]" by simp
      then show "\<exists>bs. ?P bs" by (rule exI [of _ "[b]"])
    qed
    with last show ?thesis by (cases r') (auto simp: ReadVarInt_loop_Cons Let_def)
  next
    case more
    have "ReadVarInt_loop k acc raw \<lparr>pending = b # p, at_end = e\<rparr>
        = ReadVarInt_loop (Suc k) ?acc (raw @ [b]) \<lparr>pending = p, at_end = e\<rparr>"
      using more by (simp add: ReadVarInt_loop_Cons Let_def)
    then have step: "?thesis \<longleftrightarrow>
        (\<exists>bs. bs \<noteq> [] \<and> Suc k + length bs \<le> MaxVarIntBytes \<and> list_all (\<lambda>b. bit b 7) (butlast bs)
          \<and> \<not> bit (last bs) 7 \<and> raw' = (raw @ [b]) @ bs
          \<and> v = ?acc OR push_bit (7 * Suc k) (varint_value bs) \<and> p = bs @ pending r' \<and> at_end r' = e)
        \<longleftrightarrow> (\<exists>bs. bs \<noteq> [] \<and> k + length bs \<le> MaxVarIntBytes \<and> list_all (\<lambda>b. bit b 7) (butlast bs)
          \<and> \<not> bit (last bs) 7 \<and> raw' = raw @ bs \<and> v = acc OR push_bit (7 * k) (varint_value bs)
          \<and> b # p = bs @ pending r' \<and> at_end r' = e)" (is "_ \<longleftrightarrow> ((\<exists>bs. ?P bs) \<longleftrightarrow> (\<exists>bs. ?Q bs))")
      by (simp only: Cons.IH)
    have PQ: "?P bs \<Longrightarrow> ?Q (b # bs)" for bs
      using more by (simp add: push_bit_or push_bit_push_bit or.assoc add.commute)
    have QP: "?Q bs \<Longrightarrow> ?P (tl bs)" for bs
      using more by (cases bs) (auto simp: push_bit_or push_bit_push_bit or.assoc add.commute split: if_splits)
    show ?thesis unfolding step using PQ QP by blast
  qed
qed

lemma ReadVarInt_spec:
  "ReadVarInt r = (Inr v, raw, r') \<longleftrightarrow>
     is_varint raw \<and> v = varint_value raw \<and> pending r = raw @ pending r' \<and> at_end r' = at_end r"
  by (cases r) (auto simp: ReadVarInt_def ReadVarInt_loop_spec is_varint_def)

text \<open>Whatever the result, the raw bytes are exactly what was consumed, six at most.\<close>

lemma ReadVarInt_loop_consumes:
  "ReadVarInt_loop k acc raw \<lparr>pending = p, at_end = e\<rparr> = (res, raw', r') \<Longrightarrow> k \<le> MaxVarIntBytes \<Longrightarrow>
     \<exists>bs. raw' = raw @ bs \<and> p = bs @ pending r' \<and> k + length bs \<le> Suc MaxVarIntBytes \<and> at_end r' = e"
proof (induction p arbitrary: k acc raw)
  case Nil
  then show ?case by (auto simp: ReadVarInt_loop_Nil)
next
  case (Cons b p)
  show ?case
  proof (cases "k < MaxVarIntBytes \<and> bit b 7")
    case True
    with Cons.prems have "ReadVarInt_loop (Suc k) (acc OR push_bit (7 * k) (ucast (b AND 0x7F)))
        (raw @ [b]) \<lparr>pending = p, at_end = e\<rparr> = (res, raw', r')"
      by (simp add: ReadVarInt_loop_Cons Let_def)
    from Cons.IH [OF this] True obtain bs where
      "raw' = (raw @ [b]) @ bs" "p = bs @ pending r'" "Suc k + length bs \<le> Suc MaxVarIntBytes" "at_end r' = e"
      by auto
    then show ?thesis by (intro exI [of _ "b # bs"]) simp
  next
    case False
    with Cons.prems have "raw' = raw @ [b] \<and> r' = \<lparr>pending = p, at_end = e\<rparr>"
      by (auto simp: ReadVarInt_loop_Cons Let_def split: if_splits)
    with Cons.prems(2) show ?thesis by (intro exI [of _ "[b]"]) simp
  qed
qed

lemma ReadVarInt_consumes:
  assumes "ReadVarInt r = (res, raw, r')"
  shows "pending r = raw @ pending r' \<and> length raw \<le> Suc MaxVarIntBytes \<and> at_end r' = at_end r"
  using ReadVarInt_loop_consumes [of 0 0 "[]" "pending r" "at_end r" res raw r'] assms
  by (cases r) (auto simp: ReadVarInt_def)

lemma ReadVarInt_at_end [frame]: "at_end (snd (snd (ReadVarInt r))) = at_end r"
  by (cases "ReadVarInt r") (auto dest: ReadVarInt_consumes)

lemma ReadVarInt_loop_too_long:
  "e \<noteq> ErrVarIntTooLong \<Longrightarrow> k \<le> MaxVarIntBytes \<Longrightarrow>
     fst (ReadVarInt_loop k acc raw \<lparr>pending = p, at_end = e\<rparr>) = Inl ErrVarIntTooLong \<longleftrightarrow>
     MaxVarIntBytes - k < length p \<and> list_all (\<lambda>b. bit b 7) (take (MaxVarIntBytes - k) p)"
proof (induction p arbitrary: k acc raw)
  case Nil
  then show ?case by (simp add: ReadVarInt_loop_Nil)
next
  case (Cons b p)
  show ?case
  proof (cases "k = MaxVarIntBytes")
    case True
    then show ?thesis by (simp add: ReadVarInt_loop_Cons Let_def)
  next
    case False
    with Cons.prems have k: "Suc k \<le> MaxVarIntBytes" "MaxVarIntBytes - k = Suc (MaxVarIntBytes - Suc k)"
      by simp_all
    with Cons.IH [OF Cons.prems(1) k(1)] show ?thesis
      by (simp add: ReadVarInt_loop_Cons Let_def)
  qed
qed

lemma ReadVarInt_EncodeVarInt [codec, simp]:
  "ReadVarInt \<lparr>pending = EncodeVarInt u @ rest, at_end = e\<rparr> = (Inr u, EncodeVarInt u, \<lparr>pending = rest, at_end = e\<rparr>)"
proof -
  have "unat u < 2 ^ LENGTH(32)" by (rule unsigned_less)
  then show ?thesis
    using ReadVarInt_loop_EncodeVarInt [of u 0 0 "[]" rest e] by (simp add: ReadVarInt_def)
qed

lemma ReadVarInt_EncodeVarInt_only [codec, simp]:
  "ReadVarInt \<lparr>pending = EncodeVarInt u, at_end = e\<rparr> = (Inr u, EncodeVarInt u, \<lparr>pending = [], at_end = e\<rparr>)"
  using ReadVarInt_EncodeVarInt [of u "[]" e] by simp

lemma is_varint_EncodeVarInt [codec]: "is_varint (EncodeVarInt u)" "varint_value (EncodeVarInt u) = u"
  using ReadVarInt_EncodeVarInt [of u "[]" EOF] unfolding ReadVarInt_spec by simp_all

text \<open>No encoding of a value is shorter than the one the encoder produces.\<close>

lemma varint_value_bits: "bit (varint_value bs) n \<Longrightarrow> n < 7 * length bs"
proof (induction bs arbitrary: n)
  case (Cons b bs)
  show ?case
  proof (rule ccontr)
    assume n: "\<not> n < 7 * length (b # bs)"
    with Cons.prems have "bit (varint_value bs) (n - 7)"
      by (auto simp: bit_simps mask_7F)
    with Cons.IH [of "n - 7"] n show False by simp
  qed
qed simp

lemma no_bits_bound:
  assumes "\<And>n. bit (u :: int32) n \<Longrightarrow> n < m"
  shows "unat u < 2 ^ m"
proof -
  have "take_bit m u = u"
    by (rule bit_word_eqI) (use assms in \<open>auto simp: bit_simps\<close>)
  then have "unat u = take_bit m (unat u)" by (metis unsigned_take_bit_eq)
  then show ?thesis by (metis take_bit_nat_less_exp)
qed

lemma EncodeVarInt_shortest:
  assumes "is_varint bs" "varint_value bs = u"
  shows "length (EncodeVarInt u) \<le> length bs"
proof (rule length_EncodeVarInt_bits)
  show "unat u < 2 ^ (7 * length bs)"
    using assms(2) varint_value_bits [of bs] by (intro no_bits_bound) simp
  show "0 < length bs" using assms(1) by (simp add: is_varint_def)
qed

lemma CheckPacketLength_None:
  "CheckPacketLength len maxLen = None \<longleftrightarrow> 0 \<le> sint len \<and> sint len \<le> maxLen"
  by (auto simp: CheckPacketLength_def)

section \<open>Properties\<close>

text \<open>
  C37: Every 32-bit value, written as a variable-length integer of at most five bytes, is read back
  from the front of any input: the value, the bytes it took, and the rest untouched.
\<close>

theorem varint_roundtrip:
  "ReadVarInt \<lparr>pending = EncodeVarInt u @ rest, at_end = e\<rparr>
     = (Inr u, EncodeVarInt u, \<lparr>pending = rest, at_end = e\<rparr>)
   \<and> VarIntSize u \<le> MaxVarIntBytes"
  using length_EncodeVarInt [of u] by (simp add: VarIntSize_def)

text \<open>
  C36: The decoder accepts exactly the byte strings of one to five groups whose last group alone has
  its high bit clear, returns their value modulo 2^32 and consumes nothing else; it reports
  \<^verbatim>\<open>ErrVarIntTooLong\<close> exactly when five continuation bytes are followed by a sixth byte.
\<close>

theorem varint_decoder_language:
  "(ReadVarInt r = (Inr v, raw, r') \<longleftrightarrow>
      is_varint raw \<and> v = varint_value raw \<and> pending r = raw @ pending r' \<and> at_end r' = at_end r)
   \<and> (at_end r \<noteq> ErrVarIntTooLong \<longrightarrow>
      (fst (ReadVarInt r) = Inl ErrVarIntTooLong \<longleftrightarrow>
         5 < length (pending r) \<and> list_all (\<lambda>b. bit b 7) (take 5 (pending r))))"
proof -
  have "fst (ReadVarInt r) = Inl ErrVarIntTooLong \<longleftrightarrow>
      5 < length (pending r) \<and> list_all (\<lambda>b. bit b 7) (take 5 (pending r))" if "at_end r \<noteq> ErrVarIntTooLong"
    using ReadVarInt_loop_too_long [OF that, of 0 0 "[]" "pending r"]
    by (cases r) (simp add: ReadVarInt_def MaxVarIntBytes_def)
  then show ?thesis using ReadVarInt_spec by blast
qed

theorem varint_decoder_language_witness:
  "fst (ReadVarInt \<lparr>pending = [0xFF, 0xFF, 0xFF, 0xFF, 0xFF, 1], at_end = EOF\<rparr>) = Inl ErrVarIntTooLong"
  using varint_decoder_language [of "\<lparr>pending = [0xFF, 0xFF, 0xFF, 0xFF, 0xFF, 1], at_end = EOF\<rparr>"]
  by (simp add: bit_numeral_rec numeral_3_eq_3)

end
