(* ===== verification/Codec.thy ===== *)
theory Codec
  imports Prelude
begin

text \<open>
  The interface of a wire format: an encoder, and a decoder that consumes a prefix of its
  input and returns the rest.  A format whose decoder recovers every encoded value in front
  of any rest is injective and prefix-free, and a stream of encodings has one reading.  The
  locale is interpreted on the program's variable-length integers, strings and packets.
\<close>

locale wire_format =
  fixes enc :: "'a \<Rightarrow> byte list"
    and dec :: "byte list \<Rightarrow> (go_error + 'a) \<times> byte list"
    and ok :: "'a \<Rightarrow> bool"
  assumes dec_enc: "ok a \<Longrightarrow> dec (enc a @ rest) = (Inr a, rest)"
    and enc_nonempty: "ok a \<Longrightarrow> enc a \<noteq> []"
begin

lemma prefix_free:
  assumes "ok a" "ok b" "enc a @ x = enc b @ y"
  shows "a = b \<and> x = y"
proof -
  have "(Inr a, x) = dec (enc a @ x)" using assms(1) by (simp add: dec_enc)
  also have "\<dots> = dec (enc b @ y)" using assms(3) by simp
  also have "\<dots> = (Inr b, y)" using assms(2) by (simp add: dec_enc)
  finally show ?thesis by simp
qed

lemma enc_inj: "ok a \<Longrightarrow> ok b \<Longrightarrow> enc a = enc b \<longleftrightarrow> a = b"
  using prefix_free [of a b "[]" "[]"] by auto

lemma stream_unique:
  "list_all ok as \<Longrightarrow> list_all ok bs \<Longrightarrow> concat (map enc as) = concat (map enc bs) \<Longrightarrow> as = bs"
proof (induction as arbitrary: bs)
  case Nil
  then show ?case by (cases bs) (auto simp: enc_nonempty)
next
  case (Cons a as)
  show ?case
  proof (cases bs)
    case Nil
    with Cons.prems show ?thesis by (auto simp: enc_nonempty)
  next
    case (Cons b bs')
    with Cons.prems have "a = b \<and> concat (map enc as) = concat (map enc bs')"
      by (intro prefix_free) simp_all
    with Cons.IH [of bs'] Cons.prems Cons show ?thesis by simp
  qed
qed

end

end
