(* ===== verification/Packet.thy ===== *)
theory Packet
  imports VarInt Codec
begin

text \<open>
  \<^verbatim>\<open>internal/mcproto/packet.go\<close>: length-prefixed packets.  \<open>Raw\<close> keeps the bytes
  as they were received, which is what the proxy replays.
\<close>

section \<open>Definitions\<close>

record Packet =
  ID :: int32
  Data :: "byte list"
  Payload :: "byte list"
  Raw :: "byte list"

definition ReadPacket :: "reader \<Rightarrow> int \<Rightarrow> (go_error + Packet) \<times> reader" where
  "ReadPacket r maxLen =
     (case ReadVarInt r of
        (Inl err, _, r1) \<Rightarrow> (Inl err, r1)
      | (Inr len, lengthRaw, r1) \<Rightarrow>
          (case CheckPacketLength len maxLen of
             Some err \<Rightarrow> (Inl err, r1)
           | None \<Rightarrow>
               (case ReadFull (nat (sint len)) r1 of
                  (Inl err, r2) \<Rightarrow> (Inl err, r2)
                | (Inr payload, r2) \<Rightarrow>
                    (case ReadVarInt (bytes_NewReader payload) of
                       (Inl err, _, _) \<Rightarrow> (Inl (Wrapf ''read packet id'' err), r2)
                     | (Inr i, idRaw, _) \<Rightarrow>
                         (let dataOffset = length idRaw in
                          if dataOffset > length payload then (Inl ErrUnexpectedEOF, r2)
                          else (Inr \<lparr>ID = i, Data = drop dataOffset payload, Payload = payload,
                                      Raw = lengthRaw @ payload\<rparr>, r2))))))"

definition WritePacket :: "conn \<Rightarrow> Packet \<Rightarrow> go_error option \<times> conn" where
  "WritePacket w p =
     (if length (Raw p) > 0 then Write (Raw p) w
      else (let payload = (if length (Payload p) = 0 then EncodeVarInt (ID p) @ Data p else Payload p) in
            case WriteVarInt w (word_of_nat (length payload)) of
              (Some err, w') \<Rightarrow> (Some err, w')
            | (None, w') \<Rightarrow> Write payload w'))"

definition NewPacket :: "int32 \<Rightarrow> byte list \<Rightarrow> Packet" where
  "NewPacket i d =
     (let payload = EncodeVarInt i @ d;
          raw = EncodeVarInt (word_of_nat (length payload)) @ payload
      in \<lparr>ID = i, Data = d, Payload = payload, Raw = raw\<rparr>)"

section \<open>What a successful read returns\<close>

text \<open>
  A packet as the wire has it: a length prefix, and a payload of that length that starts
  with an identifier.
\<close>

definition packet_on_wire :: "Packet \<Rightarrow> bool" where
  "packet_on_wire p \<longleftrightarrow>
     (\<exists>lengthRaw idRaw. is_varint lengthRaw \<and> is_varint idRaw
        \<and> Raw p = lengthRaw @ Payload p \<and> Payload p = idRaw @ Data p
        \<and> ID p = varint_value idRaw \<and> sint (varint_value lengthRaw) = int (length (Payload p)))"

lemma ReadPacket_Inr:
  assumes "ReadPacket r maxLen = (Inr p, r')"
  shows "packet_on_wire p \<and> int (length (Payload p)) \<le> maxLen
    \<and> pending r = Raw p @ pending r' \<and> at_end r' = at_end r"
proof -
  obtain len lengthRaw r1 where l: "ReadVarInt r = (Inr len, lengthRaw, r1)"
    using assms by (cases "ReadVarInt r"; cases "fst (ReadVarInt r)") (auto simp: ReadPacket_def)
  have c: "CheckPacketLength len maxLen = None"
    using assms l by (cases "CheckPacketLength len maxLen") (auto simp: ReadPacket_def)
  obtain payload r2 where f: "ReadFull (nat (sint len)) r1 = (Inr payload, r2)"
    using assms l c by (cases "ReadFull (nat (sint len)) r1"; cases "fst (ReadFull (nat (sint len)) r1)")
      (auto simp: ReadPacket_def)
  obtain i idRaw r3 where i: "ReadVarInt (bytes_NewReader payload) = (Inr i, idRaw, r3)"
    using assms l c f
    by (cases "ReadVarInt (bytes_NewReader payload)"; cases "fst (ReadVarInt (bytes_NewReader payload))")
      (auto simp: ReadPacket_def)
  have L: "is_varint lengthRaw" "len = varint_value lengthRaw" "pending r = lengthRaw @ pending r1"
    "at_end r1 = at_end r"
    using l by (auto simp: ReadVarInt_spec)
  have I: "is_varint idRaw" "i = varint_value idRaw" "payload = idRaw @ pending r3"
    using i by (auto simp: ReadVarInt_spec)
  have F: "nat (sint len) = length payload" "pending r1 = payload @ pending r2" "at_end r2 = at_end r1"
    using f by (auto simp: ReadFull_Inr)
  have p: "p = \<lparr>ID = i, Data = drop (length idRaw) payload, Payload = payload, Raw = lengthRaw @ payload\<rparr>"
    "r' = r2"
    using assms l c f i I(3) by (auto simp: ReadPacket_def Let_def)
  have "0 \<le> sint len" "sint len \<le> maxLen" using c by (auto simp: CheckPacketLength_None)
  with L I F p show ?thesis
    by (auto simp: packet_on_wire_def)
qed

text \<open>Conversely, every packet on the wire within the limit is read.\<close>

lemma ReadPacket_wire:
  assumes w: "packet_on_wire p" and len: "int (length (Payload p)) \<le> maxLen"
  shows "ReadPacket \<lparr>pending = Raw p @ rest, at_end = e\<rparr> maxLen = (Inr p, \<lparr>pending = rest, at_end = e\<rparr>)"
proof -
  obtain lengthRaw idRaw where
    L: "is_varint lengthRaw" "Raw p = lengthRaw @ Payload p" "sint (varint_value lengthRaw) = int (length (Payload p))"
    and I: "is_varint idRaw" "Payload p = idRaw @ Data p" "ID p = varint_value idRaw"
    using w by (auto simp: packet_on_wire_def)
  have l: "ReadVarInt \<lparr>pending = Raw p @ rest, at_end = e\<rparr>
      = (Inr (varint_value lengthRaw), lengthRaw, \<lparr>pending = Payload p @ rest, at_end = e\<rparr>)"
    using L by (simp add: ReadVarInt_spec)
  have i: "ReadVarInt (bytes_NewReader (Payload p)) = (Inr (ID p), idRaw, \<lparr>pending = Data p, at_end = EOF\<rparr>)"
    using I by (simp add: ReadVarInt_spec)
  have c: "CheckPacketLength (varint_value lengthRaw) maxLen = None"
    using L(3) len by (simp add: CheckPacketLength_None)
  have f: "ReadFull (nat (sint (varint_value lengthRaw))) \<lparr>pending = Payload p @ rest, at_end = e\<rparr>
      = (Inr (Payload p), \<lparr>pending = rest, at_end = e\<rparr>)"
    unfolding L(3) by simp
  have d: "drop (length idRaw) (Payload p) = Data p" "\<not> length (Payload p) < length idRaw"
    using I(2) by simp_all
  have "p = \<lparr>ID = ID p, Data = Data p, Payload = Payload p, Raw = lengthRaw @ Payload p\<rparr>"
    using L(2) by simp
  then show ?thesis
    unfolding ReadPacket_def l by (simp add: c f i d Let_def)
qed

lemma NewPacket_wire [codec]:
  assumes "length (Payload (NewPacket i d)) < 2 ^ 31"
  shows "packet_on_wire (NewPacket i d)"
  unfolding packet_on_wire_def
proof (intro exI conjI)
  let ?p = "NewPacket i d"
  show "is_varint (EncodeVarInt (word_of_nat (length (Payload ?p))))" "is_varint (EncodeVarInt i)"
    by (rule is_varint_EncodeVarInt)+
  show "Raw ?p = EncodeVarInt (word_of_nat (length (Payload ?p))) @ Payload ?p"
    "Payload ?p = EncodeVarInt i @ Data ?p" "ID ?p = varint_value (EncodeVarInt i)"
    by (simp_all add: NewPacket_def Let_def is_varint_EncodeVarInt)
  show "sint (varint_value (EncodeVarInt (word_of_nat (length (Payload ?p))))) = int (length (Payload ?p))"
    using assms by (simp only: is_varint_EncodeVarInt word32_sint_of_nat)
qed

lemma NewPacket_sel [simp]: "ID (NewPacket i d) = i" "Data (NewPacket i d) = d"
  "Payload (NewPacket i d) = EncodeVarInt i @ d"
  by (simp_all add: NewPacket_def Let_def)

lemma length_Payload_NewPacket: "length (Payload (NewPacket i d)) \<le> MaxVarIntBytes + length d"
  using length_EncodeVarInt [of i] by simp

lemma Raw_NewPacket_nonempty [simp]: "Raw (NewPacket i d) \<noteq> []"
  by (simp add: NewPacket_def Let_def)

text \<open>A written packet is its raw bytes, whichever representation it was built from.\<close>

lemma WritePacket_NewPacket [simp]: "WritePacket w (NewPacket i d) = Write (Raw (NewPacket i d)) w"
  by (simp add: WritePacket_def)

lemma WritePacket_rebuilt:
  assumes "\<not> closed w" "write_script w = []"
  shows "WritePacket w \<lparr>ID = i, Data = d, Payload = [], Raw = []\<rparr>
    = (None, w\<lparr>outp := outp w @ Raw (NewPacket i d)\<rparr>)"
  using assms by (simp add: WritePacket_def WriteVarInt_def NewPacket_def Let_def)

text \<open>No read changes how the input ends, and none looks beyond the error.\<close>

lemma ReadPacket_suffix:
  assumes "ReadPacket r maxLen = (res, r')"
  shows "\<exists>used. pending r = used @ pending r' \<and> at_end r' = at_end r"
proof -
  obtain lres lraw r1 where l: "ReadVarInt r = (lres, lraw, r1)" by (cases "ReadVarInt r") auto
  then have L: "pending r = lraw @ pending r1" "at_end r1 = at_end r"
    using ReadVarInt_consumes by blast+
  have rf: "\<exists>used. pending r1 = used @ pending (snd (ReadFull n r1)) \<and> at_end (snd (ReadFull n r1)) = at_end r1" for n
    by (auto simp: ReadFull_def intro: exI [of _ "take n (pending r1)"])
  have "r' = r1 \<or> (\<exists>n. r' = snd (ReadFull n r1))"
  proof (cases lres)
    case (Inl err)
    with assms l show ?thesis by (simp add: ReadPacket_def)
  next
    case (Inr len)
    show ?thesis
    proof (cases "CheckPacketLength len maxLen")
      case (Some err)
      with assms l Inr show ?thesis by (simp add: ReadPacket_def)
    next
      case None
      obtain f r2 where "ReadFull (nat (sint len)) r1 = (f, r2)" by (cases "ReadFull (nat (sint len)) r1") auto
      with assms l Inr None have "r' = snd (ReadFull (nat (sint len)) r1)"
        by (cases f) (auto simp: ReadPacket_def Let_def split: prod.splits sum.splits if_splits)
      then show ?thesis by blast
    qed
  qed
  with L rf show ?thesis by (metis append.assoc)
qed

section \<open>The wire formats of this layer\<close>

definition decode_varint :: "byte list \<Rightarrow> (go_error + int32) \<times> byte list" where
  "decode_varint bs = (case ReadVarInt (bytes_NewReader bs) of (res, _, r) \<Rightarrow> (res, pending r))"

definition decode_packet :: "int \<Rightarrow> byte list \<Rightarrow> (go_error + Packet) \<times> byte list" where
  "decode_packet maxLen bs = (case ReadPacket (bytes_NewReader bs) maxLen of (res, r) \<Rightarrow> (res, pending r))"

interpretation varint_format: wire_format EncodeVarInt decode_varint "\<lambda>_. True"
  by unfold_locales (simp_all add: decode_varint_def bytes_NewReader_def)

interpretation packet_format: wire_format Raw "decode_packet maxLen"
  "\<lambda>p. packet_on_wire p \<and> int (length (Payload p)) \<le> maxLen" for maxLen
proof unfold_locales
  fix p rest
  assume "packet_on_wire p \<and> int (length (Payload p)) \<le> maxLen"
  then show "decode_packet maxLen (Raw p @ rest) = (Inr p, rest)"
    by (simp add: decode_packet_def bytes_NewReader_def ReadPacket_wire)
next
  fix p
  assume "packet_on_wire p \<and> int (length (Payload p)) \<le> maxLen"
  then show "Raw p \<noteq> []" by (auto simp: packet_on_wire_def is_varint_def)
qed

section \<open>Properties\<close>

text \<open>
  A packet that is read consists of exactly the bytes taken from the connection: the raw bytes
  kept for replay are the length prefix and the payload, the payload is the identifier and the
  data, its length is the declared one and within the limit, and every byte after it is left for
  the next read.
\<close>

lemma packet_read_is_exact:
  assumes "ReadPacket r maxLen = (Inr p, r')"
  shows "pending r = Raw p @ pending r' \<and> at_end r' = at_end r \<and> packet_on_wire p
    \<and> int (length (Payload p)) \<le> maxLen"
  using ReadPacket_Inr [OF assms] by blast

lemma packet_read_example:
  "packet_on_wire \<lparr>ID = 1, Data = [7, 8], Payload = [1, 7, 8], Raw = [3, 1, 7, 8]\<rparr>"
proof -
  have "ReadPacket (bytes_NewReader [3, 1, 7, 8, 9]) 100
      = (Inr \<lparr>ID = 1, Data = [7, 8], Payload = [1, 7, 8], Raw = [3, 1, 7, 8]\<rparr>, bytes_NewReader [9])"
    by code_simp
  from packet_read_is_exact [OF this] show ?thesis by blast
qed

text \<open>
  C35: A packet built by the proxy and written to a connection is read back by the peer as the same
  packet, in front of whatever follows, as long as its payload is within the reader's limit.
\<close>

theorem packet_build_read_roundtrip:
  assumes "int (length (Payload (NewPacket i d))) \<le> maxLen" "maxLen < 2 ^ 31"
    and "WritePacket w (NewPacket i d) = (None, w')"
  shows "\<exists>sent. outp w' = outp w @ sent \<and>
    ReadPacket \<lparr>pending = sent @ rest, at_end = e\<rparr> maxLen = (Inr (NewPacket i d), \<lparr>pending = rest, at_end = e\<rparr>)"
proof (intro exI conjI)
  show "outp w' = outp w @ Raw (NewPacket i d)"
    using Write_ok [OF assms(3) [unfolded WritePacket_NewPacket]] by blast
  show "ReadPacket \<lparr>pending = Raw (NewPacket i d) @ rest, at_end = e\<rparr> maxLen
      = (Inr (NewPacket i d), \<lparr>pending = rest, at_end = e\<rparr>)"
    using assms(1,2) by (intro ReadPacket_wire NewPacket_wire) simp_all
qed

theorem packet_build_read_roundtrip_witness:
  "\<exists>sent. outp (snd (WritePacket (new_conn [] EOF [] ''c'') (NewPacket 0 [1, 2]))) = sent \<and>
    ReadPacket \<lparr>pending = sent @ [9], at_end = EOF\<rparr> 1000 = (Inr (NewPacket 0 [1, 2]), \<lparr>pending = [9], at_end = EOF\<rparr>)"
  using packet_build_read_roundtrip [of 0 "[1, 2]" 1000 "new_conn [] EOF [] ''c''"
      "snd (WritePacket (new_conn [] EOF [] ''c'') (NewPacket 0 [1, 2]))" "[9]" EOF]
    length_Payload_NewPacket [of 0 "[1, 2]"]
  by (simp add: MaxVarIntBytes_def new_conn_def)



end
