(* ===== verification/Handshake.thy ===== *)
theory Handshake
  imports Packet
begin

unbundle bit_operations_syntax

text \<open>
  \<^verbatim>\<open>internal/mcproto/handshake.go\<close>, the strings of the protocol and the handshake
  packet: the only packet of a connection the proxy must understand, since it names the host
  the connection is routed by and what the client wants next.
\<close>

section \<open>Strings\<close>

definition utf16CodeUnits :: "string \<Rightarrow> nat" where
  "utf16CodeUnits val = sum_list (map (\<lambda>r. if r > 0xFFFF then 2 else 1) (range_string val))"

definition ReadString :: "reader \<Rightarrow> int \<Rightarrow> (go_error + string) \<times> reader" where
  "ReadString r maxChars =
     (case ReadVarInt r of
        (Inl err, _, r1) \<Rightarrow> (Inl err, r1)
      | (Inr len, _, r1) \<Rightarrow>
          if sint len < 0
          then (Inl (Errorf (''negative string length '' @ show_int (sint len))), r1)
          else if sint len > int (reader_Len r1)
          then (Inl (Errorf (''string length '' @ show_int (sint len) @ '' exceeds remaining ''
                             @ show_int (int (reader_Len r1)))), r1)
          else if sint len > maxChars * 4
          then (Inl (Errorf (''string byte length '' @ show_int (sint len) @ '' exceeds max ''
                             @ show_int (maxChars * 4))), r1)
          else (case bytes_Read (nat (sint len)) r1 of
                  (Inl err, r2) \<Rightarrow> (Inl err, r2)
                | (Inr raw, r2) \<Rightarrow>
                    if \<not> utf8_Valid raw then (Inl (Errorf ''string is not valid utf-8''), r2)
                    else (let val = string_of_bytes raw in
                          if int (utf16CodeUnits val) > maxChars
                          then (Inl (Errorf (''string character length exceeds max '' @ show_int maxChars)), r2)
                          else (Inr val, r2))))"

definition EncodeString :: "string \<Rightarrow> byte list" where
  "EncodeString val = EncodeVarInt (word_of_nat (length (bytes_of_string val))) @ bytes_of_string val"

section \<open>The handshake packet\<close>

definition HandshakePacketID :: int32 where "HandshakePacketID = 0"
definition NextStateStatus :: int32 where "NextStateStatus = 1"
definition NextStateLogin :: int32 where "NextStateLogin = 2"

record Handshake =
  ProtocolVersion :: int32
  ServerAddress :: string
  ServerPort :: uint16
  NextState :: int32

definition BigEndian_Uint16 :: "byte list \<Rightarrow> uint16" where
  "BigEndian_Uint16 b = ucast (b ! 1) OR push_bit 8 (ucast (b ! 0))"

definition BigEndian_PutUint16 :: "uint16 \<Rightarrow> byte list" where
  "BigEndian_PutUint16 v = [ucast (drop_bit 8 v), ucast v]"

definition ParseHandshake :: "Packet \<Rightarrow> go_error + Handshake" where
  "ParseHandshake p =
     (if ID p \<noteq> HandshakePacketID
      then Inl (Errorf (''expected handshake packet id 0x00, got 0x'' @ show_hex (sint (ID p))))
      else (case ReadVarInt (bytes_NewReader (Data p)) of
        (Inl err, _, _) \<Rightarrow> Inl (Wrapf ''protocol version'' err)
      | (Inr protocolVersion, _, r1) \<Rightarrow>
         (case ReadString r1 255 of
            (Inl err, _) \<Rightarrow> Inl (Wrapf ''server address'' err)
          | (Inr serverAddress, r2) \<Rightarrow>
             if reader_Len r2 < 2 then Inl (Errorf ''server port: short read'')
             else (case bytes_Read 2 r2 of
                (Inl err, _) \<Rightarrow> Inl (Wrapf ''server port'' err)
              | (Inr portBytes, r3) \<Rightarrow>
                 (case ReadVarInt r3 of
                    (Inl err, _, _) \<Rightarrow> Inl (Wrapf ''next state'' err)
                  | (Inr nextState, _, _) \<Rightarrow>
                      Inr \<lparr>ProtocolVersion = protocolVersion, ServerAddress = serverAddress,
                           ServerPort = BigEndian_Uint16 portBytes, NextState = nextState\<rparr>)))))"

definition BuildHandshake :: "int32 \<Rightarrow> string \<Rightarrow> uint16 \<Rightarrow> int32 \<Rightarrow> Packet" where
  "BuildHandshake protocolVersion host port nextState =
     NewPacket HandshakePacketID
       (EncodeVarInt protocolVersion @ EncodeString host @ BigEndian_PutUint16 port
        @ EncodeVarInt nextState)"

section \<open>Lemmas on strings\<close>

text \<open>A rune takes at most three bytes for each of its UTF-16 code units.\<close>

lemma DecodeRune_units:
  assumes "DecodeRune s = (r, n)" "s \<noteq> []"
  shows "n \<le> 3 * (if r > 0xFFFF then 2 else 1)"
proof -
  from assms(2) obtain c0 s1 where s: "s = c0 # s1" by (cases s) auto
  have four: "0xFFFF < (code c0 - 240) * 262144 + (code c1 - 128) * 4096 + x + y"
    if "240 \<le> code c0" "code c0 = 240 \<longrightarrow> 144 \<le> code c1" for c1 x y
  proof (cases "code c0 = 240")
    case True
    with that have "16 * 4096 \<le> (code c1 - 128) * 4096" by simp
    then show ?thesis by simp
  next
    case False
    with that have "1 * 262144 \<le> (code c0 - 240) * 262144" by (intro mult_le_mono) auto
    then show ?thesis by linarith
  qed
  show ?thesis
    using assms(1) four by (auto simp: s DecodeRune_def Let_def split: if_splits list.splits)
qed

lemma length_utf16: "length s \<le> 3 * utf16CodeUnits s"
proof (induction s rule: utf8_segs.induct)
  case (1 s)
  show ?case
  proof (cases "s = []")
    case False
    obtain r n where d: "DecodeRune s = (r, n)" by fastforce
    with False have "n \<le> length s" using DecodeRune_size [of s] by simp
    moreover have "utf16CodeUnits s = (if r > 0xFFFF then 2 else 1) + utf16CodeUnits (drop n s)"
      using False by (simp add: utf16CodeUnits_def range_string_def utf8_segs.simps [of s] d)
    moreover have "length (drop n s) \<le> 3 * utf16CodeUnits (drop n s)"
      using 1 [OF False refl] d by simp
    moreover note DecodeRune_units [OF d False]
    ultimately show ?thesis by auto
  qed simp
qed

lemma utf16CodeUnits_ascii: "ascii s \<Longrightarrow> utf16CodeUnits s = length s"
  by (induction s) (simp_all add: utf16CodeUnits_def range_string_def utf8_segs_ascii)

text \<open>The strings of at most \<open>maxChars\<close> characters that the protocol can carry.\<close>

definition wire_string :: "int \<Rightarrow> string \<Rightarrow> bool" where
  "wire_string maxChars s \<longleftrightarrow>
     utf8_Valid (bytes_of_string s) \<and> int (utf16CodeUnits s) \<le> maxChars \<and> length s < 2 ^ 31"

lemma wire_string_ascii:
  "ascii s \<Longrightarrow> int (length s) \<le> maxChars \<Longrightarrow> length s < 2 ^ 31 \<Longrightarrow> wire_string maxChars s"
  by (simp add: wire_string_def utf8_Valid_ascii utf16CodeUnits_ascii)

lemma wire_string_bytes: "wire_string maxChars s \<Longrightarrow> int (length s) \<le> maxChars * 4"
  using length_utf16 [of s] by (auto simp: wire_string_def)

lemma EncodeString_nonempty [simp]: "EncodeString s \<noteq> []"
  by (simp add: EncodeString_def)

lemma length_EncodeString: "length (EncodeString s) \<le> MaxVarIntBytes + length s"
  using length_EncodeVarInt by (simp add: EncodeString_def)

lemma ReadString_EncodeString:
  assumes "wire_string maxChars s" "s \<noteq> [] \<or> rest \<noteq> []"
  shows "ReadString \<lparr>pending = EncodeString s @ rest, at_end = e\<rparr> maxChars
    = (Inr s, \<lparr>pending = rest, at_end = e\<rparr>)"
proof -
  let ?n = "word_of_nat (length s) :: int32"
  have n: "sint ?n = int (length s)"
    using assms(1) by (intro word32_sint_of_nat) (simp add: wire_string_def)
  have v: "ReadVarInt \<lparr>pending = EncodeString s @ rest, at_end = e\<rparr>
      = (Inr ?n, EncodeVarInt ?n, \<lparr>pending = bytes_of_string s @ rest, at_end = e\<rparr>)"
    by (simp add: EncodeString_def)
  have b: "bytes_Read (length s) \<lparr>pending = bytes_of_string s @ rest, at_end = e\<rparr>
      = (Inr (bytes_of_string s), \<lparr>pending = rest, at_end = e\<rparr>)"
    using assms(2) by (auto simp: bytes_Read_def)
  show ?thesis
    unfolding ReadString_def v
    using assms(1) wire_string_bytes [OF assms(1)]
    by (simp add: n b reader_Len_def wire_string_def Let_def)
qed

text \<open>A string the decoder accepts respects the limit and is valid UTF-8; its bytes were consumed.\<close>

lemma ReadString_Inr:
  assumes "ReadString r maxChars = (Inr s, r')"
  shows "utf8_Valid (bytes_of_string s) \<and> int (utf16CodeUnits s) \<le> maxChars
    \<and> (\<exists>raw. is_varint raw \<and> sint (varint_value raw) = int (length s)
        \<and> pending r = raw @ bytes_of_string s @ pending r') \<and> at_end r' = at_end r"
proof -
  obtain len raw r1 where l: "ReadVarInt r = (Inr len, raw, r1)"
    using assms by (cases "ReadVarInt r"; cases "fst (ReadVarInt r)") (auto simp: ReadString_def)
  have len: "0 \<le> sint len" "sint len \<le> int (length (pending r1))"
    using assms l by (auto simp: ReadString_def reader_Len_def split: if_splits)
  obtain bs r2 where b: "bytes_Read (nat (sint len)) r1 = (Inr bs, r2)"
    using assms l len by (cases "bytes_Read (nat (sint len)) r1"; cases "fst (bytes_Read (nat (sint len)) r1)")
      (auto simp: ReadString_def split: if_splits)
  then have B: "bs = take (nat (sint len)) (pending r1)" "pending r2 = drop (nat (sint len)) (pending r1)"
    "at_end r2 = at_end r1"
    by (auto simp: bytes_Read_def split: if_splits)
  have V: "utf8_Valid bs" "int (utf16CodeUnits (string_of_bytes bs)) \<le> maxChars" "s = string_of_bytes bs" "r' = r2"
    using assms l len b by (auto simp: ReadString_def Let_def split: if_splits)
  have L: "is_varint raw" "len = varint_value raw" "pending r = raw @ pending r1" "at_end r1 = at_end r"
    using l by (auto simp: ReadVarInt_spec)
  have "length bs = nat (sint len)" "pending r1 = bs @ pending r2"
    using B(1,2) len by simp_all
  then have "is_varint raw \<and> sint (varint_value raw) = int (length s)
      \<and> pending r = raw @ bytes_of_string s @ pending r'"
    using V(3,4) L len(1) by simp
  with V B(3) L(4) show ?thesis by auto
qed

text \<open>An empty string with nothing behind it is refused: the read of no bytes reports the end of the data.\<close>

lemma ReadString_empty_at_end:
  "0 \<le> maxChars \<Longrightarrow>
     ReadString \<lparr>pending = EncodeString [], at_end = e\<rparr> maxChars = (Inl EOF, \<lparr>pending = [], at_end = e\<rparr>)"
proof -
  assume m: "0 \<le> maxChars"
  have "ReadVarInt \<lparr>pending = EncodeString [], at_end = e\<rparr>
      = (Inr 0, EncodeVarInt 0, \<lparr>pending = [], at_end = e\<rparr>)"
    unfolding EncodeString_def by (simp add: bytes_of_string_def)
  with m show ?thesis
    by (simp add: ReadString_def bytes_Read_def reader_Len_def)
qed

section \<open>Lemmas on the handshake\<close>

lemma BigEndian_Uint16_Put [codec, simp]: "BigEndian_Uint16 (BigEndian_PutUint16 v) = v"
proof -
  have "ucast (ucast v :: byte) OR push_bit 8 (ucast (ucast (drop_bit 8 v) :: byte)) = v"
  proof (rule bit_word_eqI)
    fix n assume n: "n < LENGTH(16)"
    have "bit v n \<Longrightarrow> n < 16" using bit_imp_le_length [of v n] by simp
    with n show "bit (ucast (ucast v :: byte) OR push_bit 8 (ucast (ucast (drop_bit 8 v) :: byte)) :: uint16) n = bit v n"
      by (cases "n < 8") (auto simp: bit_simps)
  qed
  then show ?thesis by (simp add: BigEndian_Uint16_def BigEndian_PutUint16_def)
qed

lemma bytes_Read_append:
  "bs \<noteq> [] \<Longrightarrow> length bs = n \<Longrightarrow>
     bytes_Read n \<lparr>pending = bs @ rest, at_end = e\<rparr> = (Inr bs, \<lparr>pending = rest, at_end = e\<rparr>)"
  by (auto simp: bytes_Read_def)

lemma ParseHandshake_BuildHandshake:
  assumes "wire_string 255 host"
  shows "ParseHandshake (BuildHandshake v host port st)
    = Inr \<lparr>ProtocolVersion = v, ServerAddress = host, ServerPort = port, NextState = st\<rparr>"
proof -
  let ?port = "BigEndian_PutUint16 port"
  have s: "ReadString \<lparr>pending = EncodeString host @ ?port @ EncodeVarInt st, at_end = EOF\<rparr> 255
      = (Inr host, \<lparr>pending = ?port @ EncodeVarInt st, at_end = EOF\<rparr>)"
    using assms by (intro ReadString_EncodeString) (simp_all add: BigEndian_PutUint16_def)
  have port: "?port \<noteq> []" "length ?port = 2" by (simp_all add: BigEndian_PutUint16_def)
  then have b: "bytes_Read 2 \<lparr>pending = ?port @ EncodeVarInt st, at_end = EOF\<rparr>
      = (Inr ?port, \<lparr>pending = EncodeVarInt st, at_end = EOF\<rparr>)"
    by (simp add: bytes_Read_append)
  have len: "\<not> length (?port @ EncodeVarInt st) < 2"
    by (simp add: BigEndian_PutUint16_def)
  show ?thesis
    unfolding ParseHandshake_def BuildHandshake_def bytes_NewReader_def
    by (simp only: NewPacket_sel ReadVarInt_EncodeVarInt ReadVarInt_EncodeVarInt_only s b prod.case sum.case
        simp_thms if_False if_True reader_Len_def reader.simps len BigEndian_Uint16_Put)
qed

lemma ParseHandshake_Inr:
  assumes "ParseHandshake p = Inr h"
  shows "ID p = HandshakePacketID" "utf8_Valid (bytes_of_string (ServerAddress h))"
    "utf16CodeUnits (ServerAddress h) \<le> 255"
proof -
  show "ID p = HandshakePacketID"
    using assms by (simp add: ParseHandshake_def split: if_splits)
  obtain v raw r1 where "ReadVarInt (bytes_NewReader (Data p)) = (Inr v, raw, r1)"
    using assms by (auto simp: ParseHandshake_def split: if_splits prod.splits sum.splits)
  moreover obtain a r2 where s: "ReadString r1 255 = (Inr a, r2)"
    using assms calculation by (auto simp: ParseHandshake_def split: if_splits prod.splits sum.splits)
  ultimately have "ServerAddress h = a"
    using assms by (auto simp: ParseHandshake_def split: if_splits prod.splits sum.splits)
  with ReadString_Inr [OF s] show "utf8_Valid (bytes_of_string (ServerAddress h))"
    "utf16CodeUnits (ServerAddress h) \<le> 255"
    by auto
qed

section \<open>Strings as a wire format\<close>

definition decode_string :: "int \<Rightarrow> byte list \<Rightarrow> (go_error + string) \<times> byte list" where
  "decode_string maxChars bs = (case ReadString (bytes_NewReader bs) maxChars of (res, r) \<Rightarrow> (res, pending r))"

interpretation string_format: wire_format EncodeString "decode_string maxChars"
  "\<lambda>s. wire_string maxChars s \<and> s \<noteq> []" for maxChars
  by unfold_locales (simp_all add: decode_string_def bytes_NewReader_def ReadString_EncodeString)

section \<open>Properties\<close>

text \<open>
  C38: A handshake built for a server address the protocol can carry is parsed back field by field:
  protocol version, address, port and next state, for every value of the four.
\<close>

theorem handshake_roundtrip:
  assumes "wire_string 255 host"
  shows "ParseHandshake (BuildHandshake v host port st)
    = Inr \<lparr>ProtocolVersion = v, ServerAddress = host, ServerPort = port, NextState = st\<rparr>"
  using assms by (rule ParseHandshake_BuildHandshake)

theorem handshake_roundtrip_witness:
  "ParseHandshake (BuildHandshake 772 ''mc.example.com'' 25565 2)
    = Inr \<lparr>ProtocolVersion = 772, ServerAddress = ''mc.example.com'', ServerPort = 25565, NextState = 2\<rparr>"
  by (rule handshake_roundtrip) (simp add: wire_string_ascii)

text \<open>
  C39: A string accepted from the wire is valid UTF-8, has at most the allowed number of UTF-16 code
  units, and is exactly the bytes after its length; and every string of the protocol is accepted,
  except the empty string at the end of the packet, which is reported as \<^verbatim>\<open>io.EOF\<close>.
\<close>

theorem wire_string_decoding:
  "(ReadString r maxChars = (Inr s, r') \<longrightarrow>
      utf8_Valid (bytes_of_string s) \<and> int (utf16CodeUnits s) \<le> maxChars \<and> at_end r' = at_end r \<and>
      (\<exists>raw. is_varint raw \<and> sint (varint_value raw) = int (length s) \<and> pending r = raw @ bytes_of_string s @ pending r'))
   \<and> (wire_string maxChars t \<longrightarrow>
      ReadString \<lparr>pending = EncodeString t @ rest, at_end = e\<rparr> maxChars
        = (if t = [] \<and> rest = [] then Inl EOF else Inr t, \<lparr>pending = rest, at_end = e\<rparr>))"
proof -
  have "wire_string maxChars [] \<Longrightarrow> 0 \<le> maxChars" by (auto simp: wire_string_def)
  then show ?thesis
    using ReadString_Inr [of r maxChars s r'] ReadString_EncodeString [of maxChars t rest e]
      ReadString_empty_at_end [of maxChars e] by auto
qed

theorem wire_string_decoding_witness:
  "fst (ReadString (bytes_NewReader [0]) 16) = Inl EOF \<and> fst (ReadString (bytes_NewReader [0, 5]) 16) = Inr ''''"
proof -
  have eqs: "bytes_NewReader [0] = \<lparr>pending = EncodeString [] @ [], at_end = EOF\<rparr>"
    "bytes_NewReader [0, 5] = \<lparr>pending = EncodeString [] @ [5], at_end = EOF\<rparr>"
    by code_simp+
  have "wire_string 16 []" by (simp add: wire_string_ascii)
  then show ?thesis
    unfolding eqs
    using wire_string_decoding [of undefined 16 undefined undefined "[]" "[]" EOF]
      wire_string_decoding [of undefined 16 undefined undefined "[]" "[5]" EOF] by simp
qed

end
