(* ===== verification/GoJson.thy ===== *)
theory GoJson
  imports GoText
begin

text \<open>
  What the program uses of \<^verbatim>\<open>encoding/json\<close>: checking that a text is one JSON value
  (with the decoder's nesting limit), splitting a top-level object into its members with the
  raw text of each value, unquoting member names, and the encoder's compaction and string
  quoting with HTML escaping.

  \<open>skip_value\<close> and its companions return the text behind a value.  They recurse on a fuel
  argument; \<open>skip_fuel\<close> shows that any fuel above the length of the text gives the
  same result, and \<open>json_skip\<close> supplies that much.
\<close>

section \<open>Scanning\<close>

definition is_ws :: "char \<Rightarrow> bool" where
  "is_ws c \<longleftrightarrow> c = CHR '' '' \<or> c = CHR 0x09 \<or> c = CHR 0x0A \<or> c = CHR 0x0D"

definition skip_ws :: "string \<Rightarrow> string" where
  "skip_ws s = dropWhile is_ws s"

definition is_hex :: "char \<Rightarrow> bool" where
  "is_hex c \<longleftrightarrow> is_digit c \<or> 97 \<le> code c \<and> code c \<le> 102 \<or> 65 \<le> code c \<and> code c \<le> 70"

definition simple_escapes :: string where
  "simple_escapes = [CHR ''b'', CHR ''f'', CHR ''n'', CHR ''r'', CHR ''t'', CHR 0x5C, CHR ''/'', CHR 0x22]"

text \<open>Behind the opening quote of a string: the text after its closing quote.\<close>

fun skip_string :: "string \<Rightarrow> string option" where
  "skip_string [] = None"
| "skip_string (c # s) =
     (if c = CHR 0x22 then Some s
      else if c = CHR 0x5C then
        (case s of
           [] \<Rightarrow> None
         | e # s1 \<Rightarrow>
             if e \<in> set simple_escapes then skip_string s1
             else if e = CHR ''u'' then
               (case s1 of
                  h1 # h2 # h3 # h4 # s2 \<Rightarrow>
                    if is_hex h1 \<and> is_hex h2 \<and> is_hex h3 \<and> is_hex h4 then skip_string s2 else None
                | _ \<Rightarrow> None)
             else None)
      else if code c < 32 then None
      else skip_string s)"

definition skip_digits :: "string \<Rightarrow> string option" where
  "skip_digits s = (if s \<noteq> [] \<and> is_digit (hd s) then Some (dropWhile is_digit s) else None)"

definition skip_int :: "string \<Rightarrow> string option" where
  "skip_int s = (case s of
     [] \<Rightarrow> None
   | c # s1 \<Rightarrow> if c = CHR ''0'' then Some s1 else skip_digits s)"

definition skip_frac :: "string \<Rightarrow> string option" where
  "skip_frac s = (case s of c # s1 \<Rightarrow> if c = CHR ''.'' then skip_digits s1 else Some s | [] \<Rightarrow> Some s)"

definition skip_exp :: "string \<Rightarrow> string option" where
  "skip_exp s = (case s of
     [] \<Rightarrow> Some s
   | c # s1 \<Rightarrow>
       if c = CHR ''e'' \<or> c = CHR ''E'' then
         (case s1 of
            d # s2 \<Rightarrow> if d = CHR ''+'' \<or> d = CHR ''-'' then skip_digits s2 else skip_digits s1
          | [] \<Rightarrow> None)
       else Some s)"

definition skip_number :: "string \<Rightarrow> string option" where
  "skip_number s =
     (let s = (if s \<noteq> [] \<and> hd s = CHR ''-'' then tl s else s) in
      case skip_int s of
        None \<Rightarrow> None
      | Some s \<Rightarrow> (case skip_frac s of None \<Rightarrow> None | Some s \<Rightarrow> skip_exp s))"

definition skip_literal :: "string \<Rightarrow> string \<Rightarrow> string option" where
  "skip_literal lit s = (if HasPrefix s lit then Some (drop (length lit) s) else None)"

definition maxNestingDepth :: nat where "maxNestingDepth = 10000"

text \<open>
  One value; the elements of an array and the members of an object behind the opening
  bracket and at their first element, up to the closing bracket.
\<close>

fun skip_value :: "nat \<Rightarrow> nat \<Rightarrow> string \<Rightarrow> string option"
and skip_elements :: "nat \<Rightarrow> nat \<Rightarrow> string \<Rightarrow> string option"
and skip_members :: "nat \<Rightarrow> nat \<Rightarrow> string \<Rightarrow> string option" where
  "skip_value 0 depth s = None"
| "skip_value (Suc fuel) depth s =
     (case s of
        [] \<Rightarrow> None
      | c # s1 \<Rightarrow>
          if c = CHR ''{'' then
            (if depth = 0 then None
             else (case skip_ws s1 of
                     d # s2 \<Rightarrow> if d = CHR ''}'' then Some s2 else skip_members fuel (depth - 1) (d # s2)
                   | [] \<Rightarrow> None))
          else if c = CHR ''['' then
            (if depth = 0 then None
             else (case skip_ws s1 of
                     d # s2 \<Rightarrow> if d = CHR '']'' then Some s2 else skip_elements fuel (depth - 1) (d # s2)
                   | [] \<Rightarrow> None))
          else if c = CHR 0x22 then skip_string s1
          else if c = CHR ''t'' then skip_literal ''true'' s
          else if c = CHR ''f'' then skip_literal ''false'' s
          else if c = CHR ''n'' then skip_literal ''null'' s
          else skip_number s)"
| "skip_elements 0 depth s = None"
| "skip_elements (Suc fuel) depth s =
     (case skip_value fuel depth s of
        None \<Rightarrow> None
      | Some s1 \<Rightarrow>
          (case skip_ws s1 of
             d # s2 \<Rightarrow>
               if d = CHR '']'' then Some s2
               else if d = CHR '','' then skip_elements fuel depth (skip_ws s2)
               else None
           | [] \<Rightarrow> None))"
| "skip_members 0 depth s = None"
| "skip_members (Suc fuel) depth s =
     (case s of
        [] \<Rightarrow> None
      | q # s0 \<Rightarrow>
          if q \<noteq> CHR 0x22 then None
          else (case skip_string s0 of
            None \<Rightarrow> None
          | Some s1 \<Rightarrow>
              (case skip_ws s1 of
                 colon # s2 \<Rightarrow>
                   if colon \<noteq> CHR '':'' then None
                   else (case skip_value fuel depth (skip_ws s2) of
                     None \<Rightarrow> None
                   | Some s3 \<Rightarrow>
                       (case skip_ws s3 of
                          d # s4 \<Rightarrow>
                            if d = CHR ''}'' then Some s4
                            else if d = CHR '','' then skip_members fuel depth (skip_ws s4)
                            else None
                        | [] \<Rightarrow> None))
               | [] \<Rightarrow> None)))"

definition json_skip :: "nat \<Rightarrow> string \<Rightarrow> string option" where
  "json_skip depth s = skip_value (Suc (2 * length s)) depth s"

definition json_Valid :: "string \<Rightarrow> bool" where
  "json_Valid s = (case json_skip maxNestingDepth (skip_ws s) of
     None \<Rightarrow> False | Some rest \<Rightarrow> skip_ws rest = [])"

section \<open>Unquoting\<close>

definition hex_value :: "char \<Rightarrow> nat" where
  "hex_value c = (if is_digit c then code c - 48 else if 97 \<le> code c then code c - 87 else code c - 55)"

definition getu4 :: "string \<Rightarrow> nat option" where
  "getu4 s = (case s of
     c0 # c1 # h1 # h2 # h3 # h4 # _ \<Rightarrow>
       if c0 = CHR 0x5C \<and> c1 = CHR ''u'' \<and> is_hex h1 \<and> is_hex h2 \<and> is_hex h3 \<and> is_hex h4
       then Some (((hex_value h1 * 16 + hex_value h2) * 16 + hex_value h3) * 16 + hex_value h4)
       else None
   | _ \<Rightarrow> None)"

definition is_surrogate :: "nat \<Rightarrow> bool" where
  "is_surrogate r \<longleftrightarrow> 0xD800 \<le> r \<and> r < 0xE000"

definition utf16_DecodeRune :: "nat \<Rightarrow> nat \<Rightarrow> nat option" where
  "utf16_DecodeRune r1 r2 =
     (if 0xD800 \<le> r1 \<and> r1 < 0xDC00 \<and> 0xDC00 \<le> r2 \<and> r2 < 0xE000
      then Some ((r1 - 0xD800) * 1024 + (r2 - 0xDC00) + 0x10000) else None)"

definition escape_value :: "char \<Rightarrow> char" where
  "escape_value e = (if e = CHR ''b'' then CHR 0x08 else if e = CHR ''f'' then CHR 0x0C
     else if e = CHR ''n'' then CHR 0x0A else if e = CHR ''r'' then CHR 0x0D
     else if e = CHR ''t'' then CHR 0x09 else e)"

text \<open>
  The contents of a scanned string: escapes are replaced, a surrogate pair is joined, a lone
  surrogate and an invalid byte become U+FFFD.  The recursion is on the length of the text
  (the fuel), of which every step takes at least one byte.
\<close>

fun unquote_fuel :: "nat \<Rightarrow> string \<Rightarrow> string" where
  "unquote_fuel 0 s = []"
| "unquote_fuel (Suc fuel) s =
     (case s of
        [] \<Rightarrow> []
      | c # s1 \<Rightarrow>
          if c = CHR 0x5C then
            (case s1 of
               [] \<Rightarrow> []
             | e # s2 \<Rightarrow>
                 if e = CHR ''u'' then
                   (case getu4 s of
                      None \<Rightarrow> []
                    | Some r \<Rightarrow>
                        if is_surrogate r then
                          (case getu4 (drop 6 s) of
                             Some r' \<Rightarrow>
                               (case utf16_DecodeRune r r' of
                                  Some dec \<Rightarrow> utf8_encode dec @ unquote_fuel fuel (drop 12 s)
                                | None \<Rightarrow> utf8_encode RuneError @ unquote_fuel fuel (drop 6 s))
                           | None \<Rightarrow> utf8_encode RuneError @ unquote_fuel fuel (drop 6 s))
                        else utf8_encode r @ unquote_fuel fuel (drop 6 s))
                 else escape_value e # unquote_fuel fuel s2)
          else if code c < 128 then c # unquote_fuel fuel s1
          else (let (r, n) = DecodeRune s in utf8_encode r @ unquote_fuel fuel (drop n s)))"

definition unquote :: "string \<Rightarrow> string" where
  "unquote s = unquote_fuel (length s) s"

section \<open>Members of a top-level object\<close>

text \<open>The text of \<open>s\<close> in front of its suffix \<open>rest\<close>.\<close>

definition before :: "string \<Rightarrow> string \<Rightarrow> string" where
  "before s rest = take (length s - length rest) s"

text \<open>
  The members of an object at its first member (an object that \<open>skip_members\<close> accepts): the
  unquoted name and the raw text of the value of each.
\<close>

fun members :: "nat \<Rightarrow> nat \<Rightarrow> string \<Rightarrow> (string \<times> string) list" where
  "members 0 depth s = []"
| "members (Suc fuel) depth s =
     (case skip_string (tl s) of
        None \<Rightarrow> []
      | Some s1 \<Rightarrow>
          (let name = unquote (butlast (before (tl s) s1));
               s2 = skip_ws (tl (skip_ws s1))
           in case json_skip depth s2 of
                None \<Rightarrow> []
              | Some s3 \<Rightarrow>
                  (name, before s2 s3) #
                  (case skip_ws s3 of
                     d # s4 \<Rightarrow> if d = CHR '','' then members fuel depth (skip_ws s4) else []
                   | [] \<Rightarrow> [])))"

text \<open>
  \<^verbatim>\<open>json.Unmarshal\<close> into a \<^verbatim>\<open>map[string]json.RawMessage\<close>: \<open>None\<close> is an
  error.  A \<^verbatim>\<open>null\<close> leaves the map empty; other values that are no objects are errors.
  The members are in the order of the text, and a later one replaces an earlier one of the
  same name.
\<close>

definition Unmarshal_raw_map :: "string \<Rightarrow> (string \<times> string) list option" where
  "Unmarshal_raw_map s =
     (if \<not> json_Valid s then None
      else (let t = skip_ws s in
        if hd t = CHR ''n'' then Some []
        else if hd t \<noteq> CHR ''{'' then None
        else (let u = skip_ws (tl t) in
              if hd u = CHR ''}'' then Some [] else Some (members (length u) (maxNestingDepth - 1) u))))"

definition raw_map_get :: "(string \<times> string) list \<Rightarrow> string \<Rightarrow> string option" where
  "raw_map_get ms k = map_of (rev ms) k"

section \<open>Encoding\<close>

definition html_char :: "char \<Rightarrow> bool" where
  "html_char c \<longleftrightarrow> c = CHR ''<'' \<or> c = CHR ''>'' \<or> c = CHR ''&''"

definition hex_digit :: "nat \<Rightarrow> char" where
  "hex_digit n = digit_char (n mod 16)"

definition unicode_escape :: "nat \<Rightarrow> string" where
  "unicode_escape r = [CHR 0x5C, CHR ''u'', hex_digit (r div 4096), hex_digit (r div 256),
     hex_digit (r div 16), hex_digit r]"

text \<open>
  \<^verbatim>\<open>compact\<close> with HTML escaping, on a valid text: spaces outside strings go, and
  \<^verbatim>\<open><\<close>, \<^verbatim>\<open>>\<close>, \<^verbatim>\<open>&\<close>, U+2028 and U+2029 are written as escapes.
  The flag says whether the position is inside a string.
\<close>

fun compact :: "bool \<Rightarrow> string \<Rightarrow> string" where
  "compact inside [] = []"
| "compact inside (c # s) =
     (if html_char c then unicode_escape (code c) @ compact inside s
      else if c = CHR 0xE2 \<and> length s \<ge> 2 \<and> s ! 0 = CHR 0x80 \<and> (s ! 1 = CHR 0xA8 \<or> s ! 1 = CHR 0xA9)
      then unicode_escape (8232 + (code (s ! 1) - 168)) @ compact inside (drop 2 s)
      else if inside then
        (if c = CHR 0x5C then (case s of [] \<Rightarrow> [c] | e # s1 \<Rightarrow> c # e # compact True s1)
         else if c = CHR 0x22 then c # compact False s
         else c # compact True s)
      else if is_ws c then compact False s
      else if c = CHR 0x22 then c # compact True s
      else c # compact False s)"

text \<open>\<^verbatim>\<open>json.Marshal\<close> of a \<^verbatim>\<open>json.RawMessage\<close>: \<open>None\<close> where the text is not JSON.\<close>

definition Marshal_raw :: "string \<Rightarrow> string option" where
  "Marshal_raw s = (if json_Valid s then Some (compact False s) else None)"

definition quote_rune :: "nat \<times> string \<Rightarrow> string" where
  "quote_rune = (\<lambda>(r, seg).
     if r < 128 then
       (if r = 0x5C \<or> r = 0x22 then CHR 0x5C # seg
        else if r = 8 then [CHR 0x5C, CHR ''b''] else if r = 12 then [CHR 0x5C, CHR ''f'']
        else if r = 10 then [CHR 0x5C, CHR ''n''] else if r = 13 then [CHR 0x5C, CHR ''r'']
        else if r = 9 then [CHR 0x5C, CHR ''t'']
        else if r < 32 \<or> r = 60 \<or> r = 62 \<or> r = 38 then unicode_escape r
        else seg)
     else if r = RuneError \<and> length seg = 1 then unicode_escape RuneError
     else if r = 8232 \<or> r = 8233 then unicode_escape r
     else seg)"

definition Marshal_string :: "string \<Rightarrow> string" where
  "Marshal_string s = [CHR 0x22] @ concat (map quote_rune (utf8_segs s)) @ [CHR 0x22]"

section \<open>Lemmas\<close>

lemma skip_ws_length: "length (skip_ws s) \<le> length s"
  by (simp add: skip_ws_def length_dropWhile_le)

lemma skip_string_escape:
  assumes "skip_string (CHR 0x5C # t) = Some r"
  obtains e t1 where "t = e # t1" "skip_string t1 = Some r"
  | h0 h1 h2 h3 h4 t2 where "t = h0 # h1 # h2 # h3 # h4 # t2" "skip_string t2 = Some r"
proof -
  from assms obtain e t1 where t: "t = e # t1" by (cases t) auto
  show ?thesis
  proof (cases "e \<in> set simple_escapes")
    case True
    with assms t have "skip_string t1 = Some r" by simp
    with t that(1) show ?thesis by blast
  next
    case False
    with assms t obtain h1 h2 h3 h4 t2 where "t1 = h1 # h2 # h3 # h4 # t2" "skip_string t2 = Some r"
      by (simp split: if_splits list.splits)
    with t that(2) show ?thesis by blast
  qed
qed

lemma skip_string_length: "skip_string s = Some r \<Longrightarrow> length r < length s"
proof (induction "length s" arbitrary: s r rule: less_induct)
  case less
  then obtain c t where s: "s = c # t" by (cases s) auto
  consider (quote) "c = CHR 0x22" | (escape) "c = CHR 0x5C" | (plain) "c \<noteq> CHR 0x22" "c \<noteq> CHR 0x5C"
    by blast
  then show ?case
  proof cases
    case quote
    with less.prems s show ?thesis by simp
  next
    case escape
    with less.prems s have "skip_string (CHR 0x5C # t) = Some r" by simp
    then show ?thesis
    proof (cases rule: skip_string_escape)
      case (1 e t1)
      with less.hyps [of t1 r] s show ?thesis by simp
    next
      case (2 h0 h1 h2 h3 h4 t2)
      with less.hyps [of t2 r] s show ?thesis by simp
    qed
  next
    case plain
    with less.prems s have "skip_string t = Some r" by (simp split: if_splits)
    with less.hyps [of t r] s show ?thesis by simp
  qed
qed

lemma skip_digits_length: "skip_digits s = Some r \<Longrightarrow> length r < length s"
  by (cases s) (auto simp: skip_digits_def le_imp_less_Suc length_dropWhile_le split: if_splits)

lemma skip_int_length: "skip_int s = Some r \<Longrightarrow> length r < length s"
  by (cases s) (auto simp: skip_int_def split: if_splits dest: skip_digits_length)

lemma skip_number_length:
  assumes "skip_number s = Some r"
  shows "length r < length s"
proof -
  let ?t = "if s \<noteq> [] \<and> hd s = CHR ''-'' then tl s else s"
  obtain a b where a: "skip_int ?t = Some a" and b: "skip_frac a = Some b" and r: "skip_exp b = Some r"
    using assms by (auto simp: skip_number_def Let_def split: option.splits)
  have "length a < length ?t"
    using a by (rule skip_int_length)
  moreover have "length b \<le> length a"
    using b skip_digits_length by (fastforce simp: skip_frac_def split: list.splits if_splits)
  moreover have "length r \<le> length b"
    using r skip_digits_length by (fastforce simp: skip_exp_def split: list.splits if_splits)
  ultimately show ?thesis by (auto split: if_splits)
qed

lemma skip_literal_length: "lit \<noteq> [] \<Longrightarrow> skip_literal lit s = Some r \<Longrightarrow> length r < length s"
  by (auto simp: skip_literal_def HasPrefix_def split: if_splits)
    (metis diff_less length_greater_0_conv take_eq_Nil2)

text \<open>Every scan takes at least one byte, and twice the length of the text is fuel enough.\<close>

lemma skip_ws_Cons: "skip_ws s = d # t \<Longrightarrow> length t < length s"
  using skip_ws_length [of s] by simp

lemma skip_shorter:
  "skip_value f depth s = Some r \<Longrightarrow> length r < length s"
  "skip_elements f depth s = Some r \<Longrightarrow> length r < length s"
  "skip_members f depth s = Some r \<Longrightarrow> length r < length s"
proof (induction f depth s and f depth s and f depth s arbitrary: r and r and r
    rule: skip_value_skip_elements_skip_members.induct)
  case (2 f depth s)
  then obtain c s1 where s: "s = c # s1" by (cases s) auto
  show ?case
  proof (cases "c = CHR ''{'' \<or> c = CHR ''[''")
    case True
    then obtain d s2 where d: "skip_ws s1 = d # s2"
      using 2(3) s by (auto split: list.splits if_splits)
    then have "r = s2 \<or> length r < length (d # s2)"
      using 2 s True by (auto split: if_splits)
    with skip_ws_Cons [OF d] s show ?thesis by auto
  next
    case False
    have nonempty: "''true'' \<noteq> []" "''false'' \<noteq> []" "''null'' \<noteq> []" by simp_all
    from False 2(3) s show ?thesis
      using skip_string_length skip_number_length skip_literal_length nonempty
      by (fastforce split: if_splits)
  qed
next
  case (4 f depth s)
  then obtain s1 where v: "skip_value f depth s = Some s1" by (auto split: option.splits)
  then obtain d s2 where d: "skip_ws s1 = d # s2"
    using 4(3) by (auto split: list.splits)
  have "r = s2 \<or> length r < length (skip_ws s2)"
    using 4(2,3) v d by (auto split: if_splits)
  with 4(1) [OF v] skip_ws_Cons [OF d] skip_ws_length [of s2] show ?case by auto
next
  case (6 f depth s)
  then obtain q s0 where s: "s = q # s0" "q = CHR 0x22" by (auto split: list.splits if_splits)
  then obtain s1 where k: "skip_string s0 = Some s1" using 6(3) by (auto split: option.splits)
  obtain s2 where c: "skip_ws s1 = CHR '':'' # s2"
    using 6(3) s k by (auto split: list.splits if_splits)
  obtain s3 where v: "skip_value f depth (skip_ws s2) = Some s3"
    using 6(3) s k c by (auto split: option.splits)
  obtain d s4 where d: "skip_ws s3 = d # s4"
    using 6(3) s k c v by (auto split: list.splits)
  have "r = s4 \<or> length r < length (skip_ws s4)"
    using 6(2) [of q s0 s1 "CHR '':''" s2 s3 d s4 r] 6(3) s k c v d by (auto split: if_splits)
  moreover have "length s3 < length (skip_ws s2)"
    using 6(1) [of q s0 s1 "CHR '':''" s2 s3] s k c v by simp
  ultimately show ?case
    using s skip_string_length [OF k] skip_ws_Cons [OF c] skip_ws_length [of s2] skip_ws_Cons [OF d]
      skip_ws_length [of s4] by auto
qed auto

text \<open>One step of each function, with another fuel for its calls on what is left of the text.\<close>

lemma skip_value_cong:
  assumes "\<And>u. length u < length s \<Longrightarrow> skip_members f (depth - 1) u = skip_members g (depth - 1) u"
    and "\<And>u. length u < length s \<Longrightarrow> skip_elements f (depth - 1) u = skip_elements g (depth - 1) u"
  shows "skip_value (Suc f) depth s = skip_value (Suc g) depth s"
proof (cases s)
  case s: (Cons c s1)
  show ?thesis
  proof (cases "skip_ws s1")
    case (Cons d s2)
    then have "length (d # s2) < length s" using skip_ws_length [of s1] s by simp
    with assms [of "d # s2"] show ?thesis unfolding s by (simp only: skip_value.simps list.case Cons)
  qed (simp add: s)
qed simp

lemma skip_elements_cong:
  assumes "skip_value f depth s = skip_value g depth s"
    and "\<And>u. length u < length s \<Longrightarrow> skip_elements f depth u = skip_elements g depth u"
  shows "skip_elements (Suc f) depth s = skip_elements (Suc g) depth s"
proof (cases "skip_value g depth s")
  case (Some s1)
  show ?thesis
  proof (cases "skip_ws s1")
    case (Cons d s2)
    have "length (skip_ws s2) < length s"
      using skip_ws_Cons [OF Cons] skip_ws_length [of s2] skip_shorter(1) [OF Some] by simp
    with assms Some Cons show ?thesis by simp
  qed (use Some assms(1) in simp)
qed (use assms(1) in simp)

lemma skip_members_cong:
  assumes val: "\<And>u. length u < length s \<Longrightarrow> skip_value f depth u = skip_value g depth u"
    and members: "\<And>u. length u < length s \<Longrightarrow> skip_members f depth u = skip_members g depth u"
  shows "skip_members (Suc f) depth s = skip_members (Suc g) depth s"
proof (cases "\<exists>s0 s1 s2. s = CHR 0x22 # s0 \<and> skip_string s0 = Some s1 \<and> skip_ws s1 = CHR '':'' # s2")
  case True
  then obtain s0 s1 s2 where s: "s = CHR 0x22 # s0" "skip_string s0 = Some s1" "skip_ws s1 = CHR '':'' # s2" by blast
  then have l2: "length (skip_ws s2) < length s"
    using skip_string_length [OF s(2)] skip_ws_Cons [OF s(3)] skip_ws_length [of s2] by simp
  show ?thesis
  proof (cases "skip_value g depth (skip_ws s2)")
    case (Some s3)
    show ?thesis
    proof (cases "skip_ws s3")
      case (Cons d s4)
      have "length (skip_ws s4) < length s"
        using skip_ws_Cons [OF Cons] skip_ws_length [of s4] skip_shorter(1) [OF Some] l2 by simp
      with members val [OF l2] s Some Cons show ?thesis by simp
    qed (use s Some val [OF l2] in simp)
  qed (use s val [OF l2] in simp)
next
  case False
  then have "skip_members (Suc h) depth s = None" for h by (auto split: list.splits option.splits if_splits)
  then show ?thesis by simp
qed

lemma skip_fuel:
  "2 * length s < f \<Longrightarrow> 2 * length s < f' \<Longrightarrow> skip_value f depth s = skip_value f' depth s"
  "2 * length s + 1 < f \<Longrightarrow> 2 * length s + 1 < f' \<Longrightarrow> skip_elements f depth s = skip_elements f' depth s"
  "2 * length s < f \<Longrightarrow> 2 * length s < f' \<Longrightarrow> skip_members f depth s = skip_members f' depth s"
proof (induction f arbitrary: f' depth s)
  case (Suc f)
  case 1
  then obtain g where g: "f' = Suc g" by (cases f') auto
  show ?case unfolding g using 1 g by (intro skip_value_cong Suc.IH) simp_all
next
  case (Suc f)
  case 2
  then obtain g where g: "f' = Suc g" by (cases f') auto
  show ?case unfolding g using 2 g by (intro skip_elements_cong Suc.IH) simp_all
next
  case (Suc f)
  case 3
  then obtain g where g: "f' = Suc g" by (cases f') auto
  show ?case unfolding g using 3 g by (intro skip_members_cong Suc.IH) simp_all
qed simp_all

lemma json_skip_fuel: "2 * length s < f \<Longrightarrow> skip_value f depth s = json_skip depth s"
  unfolding json_skip_def by (rule skip_fuel(1)) simp_all

lemma json_skip_shorter: "json_skip depth s = Some r \<Longrightarrow> length r < length s"
  unfolding json_skip_def by (rule skip_shorter(1))

end
