(* ===== verification/JsonTree.thy ===== *)
theory JsonTree
  imports GoJson
begin

text \<open>
  JSON values as trees: what \<^verbatim>\<open>encoding/json\<close> decodes into an \<^verbatim>\<open>any\<close> and how it encodes
  structs and maps.  A number is its text.  The members of an object are in the order in which they were
  read or will be written; a later member of the same name replaces an earlier one.
\<close>

section \<open>Values\<close>

datatype json =
    JNull
  | JBool bool
  | JNumber string
  | JString string
  | JArray "json list"
  | JObject "(string \<times> json) list"

definition int_json :: "int \<Rightarrow> json" where
  "int_json n = JNumber (show_int n)"

section \<open>Encoding\<close>

fun json_encode :: "json \<Rightarrow> string" where
  "json_encode JNull = ''null''"
| "json_encode (JBool b) = FormatBool b"
| "json_encode (JNumber n) = n"
| "json_encode (JString s) = Marshal_string s"
| "json_encode (JArray vs) = ''['' @ join_with '','' (map json_encode vs) @ '']''"
| "json_encode (JObject ms) =
     ''{'' @ join_with '','' (map (\<lambda>(k, v). Marshal_string k @ '':'' @ json_encode v) ms) @ ''}''"

text \<open>
  A \<^verbatim>\<open>map[string]any\<close> is written with each key once and the keys in order; \<open>number\<close> renders a
  decoded number, a \<^verbatim>\<open>float64\<close>.
\<close>

definition last_of_each :: "(string \<times> 'a) list \<Rightarrow> (string \<times> 'a) list" where
  "last_of_each ms = map (\<lambda>k. (k, the (map_of (rev ms) k))) (sort (remdups (map fst ms)))"

fun any_encodable :: "(string \<Rightarrow> string) \<Rightarrow> json \<Rightarrow> json" where
  "any_encodable number JNull = JNull"
| "any_encodable number (JBool b) = JBool b"
| "any_encodable number (JNumber n) = JNumber (number n)"
| "any_encodable number (JString s) = JString s"
| "any_encodable number (JArray vs) = JArray (map (any_encodable number) vs)"
| "any_encodable number (JObject ms) = JObject (last_of_each (map (\<lambda>(k, v). (k, any_encodable number v)) ms))"

section \<open>Decoding\<close>

text \<open>The raw texts of the elements of an array at its first element (an array that \<open>skip_elements\<close> accepts).\<close>

fun elements :: "nat \<Rightarrow> nat \<Rightarrow> string \<Rightarrow> string list" where
  "elements 0 depth s = []"
| "elements (Suc fuel) depth s =
     (case json_skip depth s of
        None \<Rightarrow> []
      | Some s1 \<Rightarrow>
          before s s1 #
          (case skip_ws s1 of
             d # s2 \<Rightarrow> if d = CHR '','' then elements fuel depth (skip_ws s2) else []
           | [] \<Rightarrow> []))"

text \<open>
  The tree of the raw text of a value; \<open>fuel\<close> is the length of the text, which is longer than
  the text of every part of it.
\<close>

fun decode_any :: "nat \<Rightarrow> nat \<Rightarrow> string \<Rightarrow> json" where
  "decode_any 0 depth s = JNull"
| "decode_any (Suc fuel) depth s =
     (case s of
        [] \<Rightarrow> JNull
      | c # s1 \<Rightarrow>
          if c = CHR ''{'' then
            (let u = skip_ws s1 in
             if u = [] \<or> hd u = CHR ''}'' then JObject []
             else JObject (map (\<lambda>(k, raw). (k, decode_any fuel (depth - 1) raw)) (members (length u) (depth - 1) u)))
          else if c = CHR ''['' then
            (let u = skip_ws s1 in
             if u = [] \<or> hd u = CHR '']'' then JArray []
             else JArray (map (decode_any fuel (depth - 1)) (elements (length u) (depth - 1) u)))
          else if c = CHR 0x22 then JString (unquote (butlast s1))
          else if c = CHR ''t'' then JBool True
          else if c = CHR ''f'' then JBool False
          else if c = CHR ''n'' then JNull
          else JNumber s)"

definition json_decode :: "nat \<Rightarrow> string \<Rightarrow> json" where
  "json_decode depth raw = decode_any (Suc (length raw)) depth raw"

text \<open>The numbers of a tree; one that is no \<^verbatim>\<open>float64\<close> is an error of the decoder.\<close>

fun numbers :: "json \<Rightarrow> string list" where
  "numbers (JNumber n) = [n]"
| "numbers (JArray vs) = concat (map numbers vs)"
| "numbers (JObject ms) = concat (map (\<lambda>(k, v). numbers v) ms)"
| "numbers _ = []"

text \<open>
  How a member's name selects a field of a struct: exactly, or up to the case of letters, where
  the long s and the Kelvin sign count as the letters they fold to.
\<close>

definition fold_rune :: "nat \<times> string \<Rightarrow> string" where
  "fold_rune = (\<lambda>(r, seg).
     if r < 128 then map (\<lambda>c. if 97 \<le> code c \<and> code c \<le> 122 then char_of (code c - 32) else c) seg
     else if r = 0x17F then ''S'' else if r = 0x212A then ''K'' else seg)"

definition foldName :: "string \<Rightarrow> string" where
  "foldName s = concat (map fold_rune (utf8_segs s))"

definition selects :: "string \<Rightarrow> string \<Rightarrow> bool" where
  "selects name field \<longleftrightarrow> name = field \<or> foldName name = foldName field"

end
