(* ===== verification/JsonText.thy ===== *)
theory JsonText
  imports JsonTree
begin

text \<open>
  What the encoder writes is JSON: the scanner accepts the text of a tree, whatever its strings
  hold, as long as its numbers are numerals and it is not nested deeper than the scanner's limit.
\<close>

section \<open>Quoted strings\<close>

lemma DecodeRune_seg:
  assumes "s \<noteq> []" "DecodeRune s = (r, n)"
  shows "(\<exists>c. take n s = [c] \<and> r = code c \<and> code c < 128) \<or> (128 \<le> r \<and> (\<forall>c \<in> set (take n s). 128 \<le> code c))"
proof (cases s)
  case (Cons c0 s1)
  show ?thesis
  proof (cases "code c0 < 128")
    case True
    with assms(2) Cons show ?thesis by (auto simp: DecodeRune_def)
  next
    case False
    with assms(2) Cons show ?thesis
      by (auto simp: DecodeRune_def Let_def is_cont_def RuneError_def split: list.splits if_splits)
  qed
qed (use assms in simp)

lemma utf8_segs_seg:
  "(r, seg) \<in> set (utf8_segs s) \<Longrightarrow>
     (\<exists>c. seg = [c] \<and> r = code c \<and> code c < 128) \<or> (128 \<le> r \<and> (\<forall>c \<in> set seg. 128 \<le> code c))"
proof (induction s rule: utf8_segs.induct)
  case (1 s)
  show ?case
  proof (cases "s = []")
    case False
    obtain r' n where d: "DecodeRune s = (r', n)" by (rule prod.exhaust)
    with 1(2) False have "(r, seg) = (r', take n s) \<or> (r, seg) \<in> set (utf8_segs (drop n s))"
      by (simp add: utf8_segs.simps [of s])
    with 1(1) [OF False d [symmetric] refl] DecodeRune_seg [OF False d] show ?thesis by auto
  qed (use 1 in simp)
qed

lemma is_hex_digit [simp]: "is_hex (hex_digit n)"
proof -
  have "m < 16 \<Longrightarrow> is_hex (digit_char m)" for m
    by (auto simp: is_hex_def digit_char_def is_digit_def)
  then show ?thesis by (simp add: hex_digit_def)
qed

lemma skip_unicode_escape [simp]: "skip_string (unicode_escape r @ t) = skip_string t"
  by (simp add: unicode_escape_def simple_escapes_def)

lemma skip_high: "\<forall>c \<in> set seg. 128 \<le> code c \<Longrightarrow> skip_string (seg @ t) = skip_string t"
  by (induction seg) auto

lemma skip_quote_rune:
  assumes "(r, seg) \<in> set (utf8_segs s)"
  shows "skip_string (quote_rune (r, seg) @ t) = skip_string t"
proof -
  consider c where "seg = [c]" "r = code c" "code c < 128" | "128 \<le> r" "\<forall>c \<in> set seg. 128 \<le> code c"
    using utf8_segs_seg [OF assms] by blast
  then show ?thesis
  proof cases
    case 1
    then have "c = CHR 0x5C" if "r = 92" using that of_char_eq_iff [of c "CHR 0x5C", where ?'a = nat] by simp
    moreover have "c = CHR 0x22" if "r = 34" using that 1 of_char_eq_iff [of c "CHR 0x22", where ?'a = nat] by simp
    moreover have "skip_string (c # t) = skip_string t" if "r \<noteq> 92" "r \<noteq> 34" "\<not> r < 32"
    proof -
      have "c \<noteq> CHR 0x5C" "c \<noteq> CHR 0x22" using that 1(2) by auto
      with that 1(2) show ?thesis by simp
    qed
    moreover have "r < 128" using 1 by simp
    moreover have "skip_string (CHR 0x5C # e # t) = skip_string t" if "e \<in> set simple_escapes" for e
      using that by simp
    ultimately show ?thesis unfolding 1(1) quote_rune_def
      by (simp only: prod.case if_True split: if_split) (simp add: simple_escapes_def)
  next
    case 2
    then show ?thesis by (auto simp: quote_rune_def skip_high)
  qed
qed

lemma skip_Marshal_string: "skip_string (tl (Marshal_string s) @ t) = Some t"
proof -
  have "set xs \<subseteq> set (utf8_segs s) \<Longrightarrow>
      skip_string (concat (map quote_rune xs) @ CHR 0x22 # t) = Some t" for xs
    by (induction xs) (auto simp: skip_quote_rune)
  then show ?thesis by (simp add: Marshal_string_def)
qed

lemma Marshal_string_Cons: "Marshal_string s = CHR 0x22 # tl (Marshal_string s)"
  by (simp add: Marshal_string_def)

section \<open>Numerals\<close>

definition delimits :: "string \<Rightarrow> bool" where
  "delimits t \<longleftrightarrow> t = [] \<or> \<not> is_digit (hd t) \<and> hd t \<notin> {CHR ''.'', CHR ''e'', CHR ''E''}"

definition numeral_text :: "string \<Rightarrow> bool" where
  "numeral_text n \<longleftrightarrow> n \<noteq> [] \<and> (is_digit (hd n) \<or> hd n = CHR ''-'') \<and> skip_number n = Some []"

lemma dropWhile_delimits: "delimits t \<Longrightarrow> dropWhile is_digit (s @ t) = dropWhile is_digit s @ t"
  by (induction s) (auto simp: delimits_def dropWhile_eq_self_iff)

lemma skip_digits_append: "delimits t \<Longrightarrow> skip_digits s = Some r \<Longrightarrow> skip_digits (s @ t) = Some (r @ t)"
  by (auto simp: skip_digits_def dropWhile_delimits split: if_splits)

lemma skip_int_append: "delimits t \<Longrightarrow> skip_int s = Some r \<Longrightarrow> skip_int (s @ t) = Some (r @ t)"
  using skip_digits_append [of t s r] by (cases s) (auto simp: skip_int_def split: if_splits)

lemma skip_frac_append: "delimits t \<Longrightarrow> skip_frac s = Some r \<Longrightarrow> skip_frac (s @ t) = Some (r @ t)"
  by (cases s; cases t) (auto simp: skip_frac_def delimits_def skip_digits_append split: if_splits)

lemma skip_exp_append: "delimits t \<Longrightarrow> skip_exp s = Some r \<Longrightarrow> skip_exp (s @ t) = Some (r @ t)"
  using skip_digits_append [of t "x # xs" r for x xs]
  by (cases s; cases t) (auto simp: skip_exp_def delimits_def skip_digits_append split: if_splits list.splits)

lemma skip_number_append:
  assumes "delimits t" "skip_number s = Some r"
  shows "skip_number (s @ t) = Some (r @ t)"
proof -
  let ?strip = "\<lambda>s. if s \<noteq> [] \<and> hd s = CHR ''-'' then tl s else s"
  obtain a b where steps: "skip_int (?strip s) = Some a" "skip_frac a = Some b" "skip_exp b = Some r"
    using assms(2) by (auto simp: skip_number_def Let_def split: option.splits)
  then have "s \<noteq> []" by (auto simp: skip_int_def)
  then have "?strip (s @ t) = ?strip s @ t" by simp
  with steps assms(1) show ?thesis
    by (simp add: skip_number_def Let_def skip_int_append skip_frac_append skip_exp_append)
qed


lemma show_nat_hd: "0 < n \<Longrightarrow> hd (show_nat n) \<noteq> CHR ''0''"
  unfolding show_nat_def
proof (induction "10 :: nat" n rule: show_nat_base.induct)
  case (1 n)
  show ?case
  proof (cases "n < 10")
    case True
    then have "(of_char (digit_char n) :: nat) = 48 + n" by (simp add: digit_char_def)
    then have "digit_char n \<noteq> CHR ''0''" using 1(2) by auto
    with True show ?thesis by (simp add: show_nat_base.simps [of 10 n])
  next
    case False
    with 1 have "hd (show_nat_base 10 (n div 10)) \<noteq> CHR ''0''" by simp
    moreover have "show_nat_base 10 (n div 10) \<noteq> []"
      using show_nat_nonempty [of "n div 10"] by (simp add: show_nat_def)
    ultimately show ?thesis using False by (simp add: show_nat_base.simps [of 10 n] hd_append)
  qed
qed

lemma leading_zero: "show_nat n = CHR ''0'' # s \<Longrightarrow> n = 0 \<and> s = []"
proof -
  assume n: "show_nat n = CHR ''0'' # s"
  then have "n = 0" using show_nat_hd [of n] by auto
  with n show ?thesis by (simp add: show_nat_def show_nat_base.simps [of 10 0])
qed

lemma show_int_numeral: "numeral_text (show_int i)"
proof -
  have digits: "skip_int (show_nat n) = Some []" for n
  proof (cases "show_nat n")
    case (Cons c s)
    have all: "\<forall>x \<in> set (c # s). is_digit x" using show_nat_digits [of _ n] Cons by simp
    show ?thesis
    proof (cases "c = CHR ''0''")
      case True
      have "n = 0 \<and> s = []" using leading_zero [of n s] Cons True by simp
      with Cons True show ?thesis by (simp add: skip_int_def)
    next
      case False
      with all Cons show ?thesis by (simp add: skip_int_def skip_digits_def)
    qed
  qed simp
  have hd: "is_digit (hd (show_nat n))" "hd (show_nat n) \<noteq> CHR ''-''" for n
    using show_nat_digits [of "hd (show_nat n)" n] by (auto simp: is_digit_def)
  show ?thesis
    by (simp add: numeral_text_def show_int_def skip_number_def digits skip_frac_def skip_exp_def hd)
qed

section \<open>Trees\<close>

text \<open>The trees that are written as JSON under a nesting limit.\<close>

fun encodable :: "nat \<Rightarrow> json \<Rightarrow> bool" where
  "encodable depth JNull \<longleftrightarrow> True"
| "encodable depth (JBool b) \<longleftrightarrow> True"
| "encodable depth (JNumber n) \<longleftrightarrow> numeral_text n"
| "encodable depth (JString s) \<longleftrightarrow> True"
| "encodable depth (JArray vs) \<longleftrightarrow> 0 < depth \<and> list_all (encodable (depth - 1)) vs"
| "encodable depth (JObject ms) \<longleftrightarrow> 0 < depth \<and> list_all (\<lambda>(k, v). encodable (depth - 1) v) ms"

lemma encodable_int [simp]: "encodable depth (int_json i)"
  by (simp add: int_json_def show_int_numeral)

lemma json_encode_hd:
  assumes "encodable depth v"
  obtains c s where "json_encode v = c # s" "\<not> is_ws c" "c \<noteq> CHR '']''" "c \<noteq> CHR ''}''"
proof (cases v)
  case (JNumber n)
  with assms obtain c s where "n = c # s" "is_digit c \<or> c = CHR ''-''"
    by (cases n) (auto simp: numeral_text_def)
  moreover from this have "c \<noteq> CHR '' ''" "c \<noteq> CHR 0x09" "c \<noteq> CHR 0x0A" "c \<noteq> CHR 0x0D" "c \<noteq> CHR '']''" "c \<noteq> CHR ''}''"
    by (auto simp: is_digit_def)
  ultimately show thesis using JNumber that by (simp add: is_ws_def)
next
  case (JBool b)
  with that show thesis by (cases b) (simp_all add: FormatBool_def is_ws_def)
qed (use that in \<open>auto simp: is_ws_def Marshal_string_def\<close>)

lemma skip_ws_encode:
  "encodable depth v \<Longrightarrow> skip_ws (json_encode v @ t) = json_encode v @ t"
  by (erule json_encode_hd) (simp add: skip_ws_def)

lemma join_with_Cons: "\<exists>u. join_with sep (x # xs) = x @ u"
  by (cases xs) auto

definition reads_back :: "json \<Rightarrow> bool" where
  "reads_back v \<longleftrightarrow> (\<forall>f depth t. encodable depth v \<longrightarrow> delimits t \<longrightarrow> 2 * length (json_encode v @ t) < f \<longrightarrow>
     skip_value f depth (json_encode v @ t) = Some t)"

lemma skip_elements_encode:
  assumes "vs \<noteq> []" "\<forall>v \<in> set vs. reads_back v \<and> encodable depth v"
    and "2 * length (join_with '','' (map json_encode vs) @ CHR '']'' # t) + 1 < f"
  shows "skip_elements f depth (join_with '','' (map json_encode vs) @ CHR '']'' # t) = Some t"
  using assms
proof (induction vs arbitrary: f)
  case (Cons v vs)
  from Cons.prems(3) obtain g where g: "f = Suc g" by (cases f) auto
  have v: "reads_back v" "encodable depth v" using Cons.prems(2) by simp_all
  show ?case
  proof (cases vs)
    case Nil
    have "skip_value g depth (json_encode v @ CHR '']'' # t) = Some (CHR '']'' # t)"
      using v Cons.prems(3) g Nil by (simp add: reads_back_def delimits_def is_digit_def)
    then show ?thesis by (simp add: g Nil skip_ws_def is_ws_def)
  next
    case (Cons v' vs')
    let ?rest = "join_with '','' (map json_encode vs) @ CHR '']'' # t"
    have "skip_value g depth (json_encode v @ CHR '','' # ?rest) = Some (CHR '','' # ?rest)"
      using v Cons.prems(3) g Cons by (simp add: reads_back_def delimits_def is_digit_def)
    moreover have "skip_ws ?rest = ?rest"
      using join_with_Cons [of "'',''" "json_encode v'" "map json_encode vs'"] Cons.prems(2) Cons
      by (auto simp: skip_ws_encode)
    moreover have "skip_elements g depth ?rest = Some t"
      using Cons.IH [of g] Cons.prems(2,3) Cons g by simp
    ultimately show ?thesis using Cons by (simp add: g skip_ws_def is_ws_def)
  qed
qed simp


definition member_text :: "string \<times> json \<Rightarrow> string" where
  "member_text m = Marshal_string (fst m) @ '':'' @ json_encode (snd m)"

lemma json_encode_members:
  "json_encode (JObject ms) = ''{'' @ join_with '','' (map member_text ms) @ ''}''"
proof -
  have "(\<lambda>(k, v). Marshal_string k @ '':'' @ json_encode v) = member_text" by (auto simp: member_text_def)
  then show ?thesis by (simp only: json_encode.simps)
qed

lemma member_text_length: "length (json_encode (snd m)) < length (member_text m)"
  by (simp add: member_text_def Marshal_string_def)

lemma reads_backD:
  "reads_back v \<Longrightarrow> encodable depth v \<Longrightarrow> delimits t \<Longrightarrow> 2 * (length (json_encode v) + length t) < f \<Longrightarrow>
     skip_value f depth (json_encode v @ t) = Some t"
  by (simp add: reads_back_def)

lemma delimits_closing: "delimits (CHR '','' # t)" "delimits (CHR ''}'' # t)" "delimits (CHR '']'' # t)"
  by (simp_all add: delimits_def is_digit_def)

lemma member_text_Cons: "member_text m = CHR 0x22 # tl (Marshal_string (fst m)) @ CHR '':'' # json_encode (snd m)"
  unfolding member_text_def by (subst Marshal_string_Cons) simp

lemma skip_ws_member: "skip_ws (member_text m @ t) = member_text m @ t"
  by (simp add: member_text_Cons skip_ws_def is_ws_def)

lemma skip_members_encode:
  assumes "ms \<noteq> []" "\<forall>m \<in> set ms. reads_back (snd m) \<and> encodable depth (snd m)"
    and "2 * length (join_with '','' (map member_text ms) @ CHR ''}'' # t) < f"
  shows "skip_members f depth (join_with '','' (map member_text ms) @ CHR ''}'' # t) = Some t"
  using assms
proof (induction ms arbitrary: f)
  case (Cons m ms)
  from Cons.prems(3) obtain g where g: "f = Suc g" by (cases f) auto
  have v: "reads_back (snd m)" "encodable depth (snd m)" using Cons.prems(2) by simp_all
  have start: "skip_members (Suc g) depth (member_text m @ u)
      = (case skip_value g depth (json_encode (snd m) @ u) of
           None \<Rightarrow> None
         | Some s3 \<Rightarrow> (case skip_ws s3 of
             d # s4 \<Rightarrow> if d = CHR ''}'' then Some s4
               else if d = CHR '','' then skip_members g depth (skip_ws s4) else None
           | [] \<Rightarrow> None))" for u
    using v(2) by (simp add: member_text_Cons skip_Marshal_string skip_ws_encode skip_ws_def [of "CHR '':'' # _"] is_ws_def)
  show ?case
  proof (cases ms)
    case Nil
    have "skip_value g depth (json_encode (snd m) @ CHR ''}'' # t) = Some (CHR ''}'' # t)"
      using v Cons.prems(3) g Nil member_text_length [of m] by (intro reads_backD) (simp_all add: delimits_closing)
    with start [of "CHR ''}'' # t"] Nil show ?thesis by (simp add: g skip_ws_def is_ws_def)
  next
    case (Cons m' ms')
    let ?rest = "join_with '','' (map member_text ms) @ CHR ''}'' # t"
    have "skip_value g depth (json_encode (snd m) @ CHR '','' # ?rest) = Some (CHR '','' # ?rest)"
      using v Cons.prems(3) g Cons member_text_length [of m] by (intro reads_backD) (simp_all add: delimits_closing)
    moreover have "skip_ws ?rest = ?rest"
      using join_with_Cons [of "'',''" "member_text m'" "map member_text ms'"] Cons
      by (auto simp: skip_ws_member)
    moreover have "skip_members g depth ?rest = Some t"
      using Cons.IH [of g] Cons.prems(2,3) Cons g by simp
    ultimately show ?thesis using start [of "CHR '','' # ?rest"] Cons by (simp add: g skip_ws_def [of "CHR '','' # _"] is_ws_def)
  qed
qed simp

text \<open>An array and an object are scanned when their parts are.\<close>

lemma skip_encoded_array:
  assumes "\<forall>v \<in> set vs. reads_back v" "encodable depth (JArray vs)" "2 * length (json_encode (JArray vs) @ t) < Suc g"
  shows "skip_value (Suc g) depth (json_encode (JArray vs) @ t) = Some t"
proof (cases vs)
  case Nil
  with assms show ?thesis by (simp add: skip_ws_def is_ws_def)
next
  case (Cons v vs')
  let ?rest = "join_with '','' (map json_encode vs) @ CHR '']'' # t"
  have all: "\<forall>v \<in> set vs. reads_back v \<and> encodable (depth - 1) v"
    using assms(1,2) by (simp add: list_all_iff)
  then obtain c u where rest: "?rest = c # u" "\<not> is_ws c" "c \<noteq> CHR '']''"
    using json_encode_hd [of "depth - 1" v] join_with_Cons [of "'',''" "json_encode v" "map json_encode vs'"] Cons
    by (metis append_Cons list.set_intros(1) list.simps(9))
  then have ws: "skip_ws ?rest = c # u" by (simp add: skip_ws_def)
  have "skip_elements g (depth - 1) ?rest = Some t"
    using assms(3) Cons all by (intro skip_elements_encode) simp_all
  with assms(2) ws rest show ?thesis by simp
qed

lemma skip_encoded_object:
  assumes "\<forall>(k, v) \<in> set ms. reads_back v" "encodable depth (JObject ms)" "2 * length (json_encode (JObject ms) @ t) < Suc g"
  shows "skip_value (Suc g) depth (json_encode (JObject ms) @ t) = Some t"
proof (cases ms)
  case Nil
  with assms show ?thesis by (simp add: skip_ws_def is_ws_def)
next
  case (Cons m ms')
  let ?rest = "join_with '','' (map member_text ms) @ CHR ''}'' # t"
  obtain u where "join_with '','' (map member_text ms) = member_text m @ u"
    using join_with_Cons [of "'',''" "member_text m" "map member_text ms'"] Cons by auto
  then obtain u where rest: "?rest = CHR 0x22 # u" by (simp add: member_text_Cons)
  have "skip_members g (depth - 1) ?rest = Some t"
  proof (intro skip_members_encode ballI conjI)
    fix m
    assume "m \<in> set ms"
    then show "reads_back (snd m)" "encodable (depth - 1) (snd m)"
      using assms(1,2) by (auto simp: list_all_iff)
  next
    show "2 * length ?rest < g" using assms(3) unfolding json_encode_members by simp
  qed (use Cons in simp)
  with assms(2) rest show ?thesis
    unfolding json_encode_members by (simp add: skip_ws_def is_ws_def)
qed

lemma skip_encoded:
  "encodable depth v \<Longrightarrow> delimits t \<Longrightarrow> 2 * length (json_encode v @ t) < f \<Longrightarrow>
     skip_value f depth (json_encode v @ t) = Some t"
proof (induction v arbitrary: f depth t)
  case (JString s)
  then obtain g where "f = Suc g" by (cases f) auto
  then show ?case
    by (subst json_encode.simps, subst Marshal_string_Cons) (simp add: skip_Marshal_string)
next
  case (JNumber n)
  then obtain g where g: "f = Suc g" by (cases f) auto
  from JNumber(1) obtain c s where n: "n = c # s" "is_digit c \<or> c = CHR ''-''" "skip_number n = Some []"
    by (cases n) (auto simp: numeral_text_def)
  then have "c \<notin> {CHR ''{'', CHR ''['', CHR 0x22, CHR ''t'', CHR ''f'', CHR ''n''}" by (auto simp: is_digit_def)
  with n g skip_number_append [OF JNumber(2) n(3)] show ?case by simp
next
  case (JArray vs)
  then obtain g where g: "f = Suc g" by (cases f) auto
  have "\<forall>v \<in> set vs. reads_back v" using JArray.IH by (simp add: reads_back_def)
  with JArray.prems show ?case unfolding g by (intro skip_encoded_array)
next
  case (JObject ms)
  then obtain g where g: "f = Suc g" by (cases f) auto
  have "\<forall>(k, v) \<in> set ms. reads_back v" using JObject.IH by (fastforce simp: reads_back_def)
  with JObject.prems show ?case unfolding g by (intro skip_encoded_object)
next
  case JNull
  then show ?case by (cases f) (simp_all add: skip_literal_def HasPrefix_def)
next
  case (JBool b)
  then show ?case by (cases f; cases b) (simp_all add: skip_literal_def HasPrefix_def FormatBool_def)
qed

text \<open>What is written is JSON, also with white space behind it.\<close>

lemma json_encode_skip: "encodable depth v \<Longrightarrow> delimits t \<Longrightarrow> json_skip depth (json_encode v @ t) = Some t"
  unfolding json_skip_def by (rule skip_encoded) simp_all

lemma json_encode_Valid:
  assumes "encodable maxNestingDepth v" "skip_ws t = []"
  shows "json_Valid (json_encode v @ t)"
proof -
  have "delimits t"
  proof (cases t)
    case (Cons c s)
    then have "is_ws c" using assms(2) by (simp add: skip_ws_def split: if_splits)
    then have "\<not> is_digit c" "c \<noteq> CHR ''.''" "c \<noteq> CHR ''e''" "c \<noteq> CHR ''E''" unfolding is_ws_def is_digit_def by auto
    with Cons show ?thesis by (simp add: delimits_def)
  qed (simp add: delimits_def)
  from json_encode_skip [OF assms(1) this] assms(2) skip_ws_encode [OF assms(1), of t] show ?thesis
    unfolding json_Valid_def by simp
qed

end
