(* ===== verification/JsonCompact.thy ===== *)
theory JsonCompact
  imports JsonText
begin

text \<open>
  Where the values in a text begin and end.  What the scanner takes for a value stands for itself, and
  so does what the encoder's compaction makes of it; an object that is put together from such texts
  is scanned, and split into the same members again.
\<close>

section \<open>Compaction\<close>

text \<open>
  The text of a value in front of what follows it, as it stands and compacted, are both values again:
  the scanner takes the same steps through either.
\<close>

lemma compact_plain:
  "\<not> html_char c \<Longrightarrow> c \<noteq> CHR 0xE2 \<Longrightarrow> \<not> is_ws c \<Longrightarrow> c \<noteq> CHR 0x22 \<Longrightarrow> compact False (c # s) = c # compact False s"
  by simp

lemma compact_skip_ws: "compact False (skip_ws s) = compact False s"
  by (induction s) (auto simp: skip_ws_def is_ws_def html_char_def)

lemma compact_quote: "compact False (CHR 0x22 # s) = CHR 0x22 # compact True s"
  by (simp add: html_char_def is_ws_def)

lemma compact_number_chars:
  "\<forall>c \<in> set x. is_digit c \<or> c \<in> {CHR ''-'', CHR ''+'', CHR ''.'', CHR ''e'', CHR ''E''} \<Longrightarrow>
     compact False (x @ r) = x @ compact False r"
proof (induction x)
  case (Cons c x)
  then have "\<not> html_char c" "c \<noteq> CHR 0xE2" "\<not> is_ws c" "c \<noteq> CHR 0x22"
    by (auto simp: html_char_def is_ws_def is_digit_def)
  with Cons show ?case by simp
qed simp

definition numeral_chars :: "string \<Rightarrow> bool" where
  "numeral_chars x \<longleftrightarrow> (\<forall>c \<in> set x. is_digit c \<or> c \<in> {CHR ''-'', CHR ''+'', CHR ''.'', CHR ''e'', CHR ''E''})"

lemma skip_digits_prefix:
  assumes "skip_digits s = Some r"
  obtains x where "s = x @ r" "skip_digits x = Some []" "numeral_chars x"
proof
  show "s = takeWhile is_digit s @ r" using assms by (auto simp: skip_digits_def split: if_splits)
  show "skip_digits (takeWhile is_digit s) = Some []"
    using assms by (cases s) (auto simp: skip_digits_def split: if_splits dest: set_takeWhileD)
  show "numeral_chars (takeWhile is_digit s)" by (auto simp: numeral_chars_def dest: set_takeWhileD)
qed

lemma skip_int_prefix:
  assumes "skip_int s = Some r"
  obtains x where "s = x @ r" "skip_int x = Some []" "numeral_chars x"
proof (cases "hd s = CHR ''0''")
  case True
  with assms have "s = [CHR ''0''] @ r" by (cases s) (auto simp: skip_int_def)
  then show thesis by (rule that) (simp_all add: skip_int_def numeral_chars_def is_digit_def)
next
  case False
  then have "skip_digits s = Some r" using assms by (cases s) (auto simp: skip_int_def)
  then obtain x where x: "s = x @ r" "skip_digits x = Some []" "numeral_chars x" by (rule skip_digits_prefix)
  then have "skip_int x = Some []" using False by (cases x) (auto simp: skip_int_def skip_digits_def)
  with x that show thesis by blast
qed

lemma skip_frac_prefix:
  assumes "skip_frac s = Some r"
  obtains x where "s = x @ r" "skip_frac x = Some []" "numeral_chars x"
proof (cases "s \<noteq> [] \<and> hd s = CHR ''.''")
  case True
  then obtain s1 where s: "s = CHR ''.'' # s1" "skip_digits s1 = Some r" using assms by (cases s) (auto simp: skip_frac_def)
  from s(2) obtain x where "s1 = x @ r" "skip_digits x = Some []" "numeral_chars x" by (rule skip_digits_prefix)
  with s that [of "CHR ''.'' # x"] show thesis by (simp add: skip_frac_def numeral_chars_def)
next
  case False
  then have "s = [] @ r" using assms by (cases s) (auto simp: skip_frac_def)
  then show thesis by (rule that) (simp_all add: skip_frac_def numeral_chars_def)
qed

lemma skip_exp_prefix:
  assumes "skip_exp s = Some r"
  obtains x where "s = x @ r" "skip_exp x = Some []" "numeral_chars x"
proof (cases "s \<noteq> [] \<and> hd s \<in> {CHR ''e'', CHR ''E''}")
  case True
  then obtain c d s2 where s: "s = c # d # s2" "c \<in> {CHR ''e'', CHR ''E''}"
    and r: "(if d = CHR ''+'' \<or> d = CHR ''-'' then skip_digits s2 else skip_digits (d # s2)) = Some r"
    using assms by (cases s) (auto simp: skip_exp_def split: list.splits)
  show thesis
  proof (cases "d = CHR ''+'' \<or> d = CHR ''-''")
    case True
    with r have "skip_digits s2 = Some r" by simp
    then obtain x where "s2 = x @ r" "skip_digits x = Some []" "numeral_chars x" by (rule skip_digits_prefix)
    with s True that [of "c # d # x"] show thesis by (auto simp: skip_exp_def numeral_chars_def)
  next
    case False
    with r have d: "skip_digits (d # s2) = Some r" by simp
    then obtain x where x: "d # s2 = x @ r" "skip_digits x = Some []" "numeral_chars x" by (rule skip_digits_prefix)
    then have "x \<noteq> []" by (auto simp: skip_digits_def)
    then obtain x' where "x = d # x'" using x(1) by (cases x) auto
    with s x False that [of "c # x"] show thesis by (auto simp: skip_exp_def numeral_chars_def)
  qed
next
  case False
  then have "s = [] @ r" using assms by (cases s) (auto simp: skip_exp_def)
  then show thesis by (rule that) (simp_all add: skip_exp_def numeral_chars_def)
qed


lemma skip_digits_stops: "t = [] \<or> \<not> is_digit (hd t) \<Longrightarrow> skip_digits s = Some r \<Longrightarrow> skip_digits (s @ t) = Some (r @ t)"
proof -
  assume t: "t = [] \<or> \<not> is_digit (hd t)"
  have "dropWhile is_digit (s @ t) = dropWhile is_digit s @ t" for s
    using t by (induction s) (auto simp: dropWhile_eq_self_iff)
  then show "skip_digits s = Some r \<Longrightarrow> skip_digits (s @ t) = Some (r @ t)"
    by (auto simp: skip_digits_def split: if_splits)
qed

lemma skip_number_prefix:
  assumes "skip_number s = Some r"
  obtains x where "s = x @ r" "skip_number x = Some []" "numeral_chars x"
proof -
  let ?strip = "\<lambda>s. if s \<noteq> [] \<and> hd s = CHR ''-'' then tl s else s"
  obtain a b where steps: "skip_int (?strip s) = Some a" "skip_frac a = Some b" "skip_exp b = Some r"
    using assms by (auto simp: skip_number_def Let_def split: option.splits)
  from steps(1) obtain x1 where x1: "?strip s = x1 @ a" "skip_int x1 = Some []" "numeral_chars x1" by (rule skip_int_prefix)
  from steps(2) obtain x2 where x2: "a = x2 @ b" "skip_frac x2 = Some []" "numeral_chars x2" by (rule skip_frac_prefix)
  from steps(3) obtain x3 where x3: "b = x3 @ r" "skip_exp x3 = Some []" "numeral_chars x3" by (rule skip_exp_prefix)
  have stop3: "x3 = [] \<or> hd x3 \<in> {CHR ''e'', CHR ''E''}" using x3(2) by (cases x3) (auto simp: skip_exp_def split: if_splits)
  have stop2: "x2 = [] \<or> hd x2 = CHR ''.''" using x2(2) by (cases x2) (auto simp: skip_frac_def split: if_splits)
  have nd3: "x3 = [] \<or> \<not> is_digit (hd x3)" using stop3 by (auto simp: is_digit_def)
  have nd2: "x2 @ x3 = [] \<or> \<not> is_digit (hd (x2 @ x3))" using stop2 nd3 by (cases x2) (auto simp: is_digit_def)
  have frac: "skip_frac (x2 @ x3) = Some x3"
  proof (cases x2)
    case Nil
    then show ?thesis using stop3 by (cases x3) (auto simp: skip_frac_def)
  next
    case (Cons c y)
    then have "c = CHR ''.''" "skip_digits y = Some []" using x2(2) stop2 by (auto simp: skip_frac_def split: if_splits)
    with Cons skip_digits_stops [OF nd3] show ?thesis by (auto simp: skip_frac_def)
  qed
  obtain c y where c: "x1 = c # y" using x1(2) by (cases x1) (auto simp: skip_int_def)
  have "c \<noteq> CHR ''-''" using x1(2) c by (auto simp: skip_int_def skip_digits_def is_digit_def split: if_splits)
  have int: "skip_int (x1 @ x2 @ x3) = Some (x2 @ x3)"
    using x1(2) c skip_digits_stops [OF nd2, of "c # y" "[]"] by (auto simp: skip_int_def split: if_splits)
  let ?x = "(if s \<noteq> [] \<and> hd s = CHR ''-'' then ''-'' else '''') @ x1 @ x2 @ x3"
  have "s = ?x @ r" using x1(1) x2(1) x3(1) by (cases s) (auto split: if_splits)
  moreover have "skip_number ?x = Some []"
    using int frac x3(2) c \<open>c \<noteq> CHR ''-''\<close> by (auto simp: skip_number_def)
  moreover have "numeral_chars ?x" using x1(3) x2(3) x3(3) by (auto simp: numeral_chars_def)
  ultimately show thesis by (rule that)
qed

text \<open>Inside a string: its text is taken part by part, each an escape or a character, and compacted likewise.\<close>

definition string_part :: "string \<Rightarrow> string \<Rightarrow> string \<Rightarrow> bool" where
  "string_part a b u \<longleftrightarrow> a \<noteq> [] \<and> compact True (a @ u) = b @ compact True u
     \<and> (\<forall>t. skip_string (a @ t) = skip_string t) \<and> (\<forall>t. skip_string (b @ t) = skip_string t)"

lemma hex_plain: "is_hex h \<Longrightarrow> compact True (h # v) = h # compact True v"
proof -
  assume h: "is_hex h"
  let ?bad = "[CHR ''<'', CHR ''>'', CHR ''&'', CHR 0xE2, CHR 0x22, CHR 0x5C]"
  have "list_all (\<lambda>c. \<not> is_hex c) ?bad" by (simp add: is_hex_def is_digit_def)
  with h have "h \<notin> set ?bad" by (auto simp only: list_all_iff)
  then show ?thesis by (simp add: html_char_def)
qed

lemma escape_part:
  assumes "skip_string (CHR 0x5C # s) = Some r"
  obtains a b u where "CHR 0x5C # s = a @ u" "string_part a b u" "skip_string u = Some r"
proof -
  obtain e s2 where e: "s = e # s2" using assms by (cases s) auto
  have copy: "compact True (CHR 0x5C # e # u) = CHR 0x5C # e # compact True u" for u by (simp add: html_char_def)
  show thesis
  proof (cases "e \<in> set simple_escapes")
    case True
    then show thesis
      using assms e copy by (intro that [of "[CHR 0x5C, e]" s2 "[CHR 0x5C, e]"]) (simp_all add: string_part_def del: compact.simps)
  next
    case False
    with assms e obtain h1 h2 h3 h4 u
      where u: "e = CHR ''u''" "s2 = h1 # h2 # h3 # h4 # u" "is_hex h1" "is_hex h2" "is_hex h3" "is_hex h4" "skip_string u = Some r"
      by (simp split: if_splits list.splits)
    let ?a = "CHR 0x5C # e # [h1, h2, h3, h4]"
    have "string_part ?a ?a u"
      unfolding string_part_def using u copy False by (simp add: hex_plain del: compact.simps)
    with u e show thesis by (intro that [of ?a u ?a]) simp_all
  qed
qed

lemma plain_part:
  assumes "c \<noteq> CHR 0x22" "c \<noteq> CHR 0x5C" "skip_string (c # s) = Some r"
  obtains a b u where "c # s = a @ u" "string_part a b u" "skip_string u = Some r"
proof -
  from assms have c: "\<not> code c < 32" "skip_string s = Some r" by (simp_all split: if_splits)
  let ?sep = "c = CHR 0xE2 \<and> 2 \<le> length s \<and> s ! 0 = CHR 0x80 \<and> (s ! 1 = CHR 0xA8 \<or> s ! 1 = CHR 0xA9)"
  consider (html) "html_char c" | (separator) "\<not> html_char c" ?sep | (other) "\<not> html_char c" "\<not> ?sep" by blast
  then show thesis
  proof cases
    case html
    then have "string_part [c] (unicode_escape (code c)) s" using assms(1,2) c by (simp add: string_part_def)
    with c that [of "[c]" s] show thesis by simp
  next
    case separator
    then obtain d u where s: "s = CHR 0x80 # d # u" by (cases s; cases "tl s") auto
    let ?a = "[c, CHR 0x80, d]" and ?b = "unicode_escape (8232 + (code d - 168))"
    have high: "\<forall>x \<in> set ?a. 128 \<le> code x" using separator s by auto
    have "compact True (?a @ u) = ?b @ compact True u" using separator s by simp
    then have "string_part ?a ?b u" using skip_high [OF high] by (simp add: string_part_def)
    moreover have "skip_string u = Some r" using c(2) skip_high [of "[CHR 0x80, d]" u] high s by simp
    ultimately show thesis using that [of ?a u] s by simp
  next
    case other
    then have "compact True (c # s) = c # compact True s" using assms(1,2) by auto
    then have "string_part [c] [c] s" using assms(1,2) c(1) by (simp add: string_part_def del: compact.simps)
    with c that [of "[c]" s] show thesis by simp
  qed
qed

lemma skip_string_parts:
  assumes "skip_string s = Some r"
  shows "\<exists>x y. s = x @ r \<and> compact True s = y @ compact False r
    \<and> (\<forall>t. skip_string (x @ t) = Some t \<and> skip_string (y @ t) = Some t)"
  using assms
proof (induction "length s" arbitrary: s rule: less_induct)
  case less
  from less.prems obtain c s1 where s: "s = c # s1" by (cases s) auto
  show ?case
  proof (cases "c = CHR 0x22")
    case True
    with less.prems s show ?thesis by (intro exI [of _ "[CHR 0x22]"]) (simp add: html_char_def)
  next
    case False
    have "skip_string (c # s1) = Some r" using less.prems s by simp
    then obtain a b u where p: "c # s1 = a @ u" "string_part a b u" "skip_string u = Some r"
      using False by (cases "c = CHR 0x5C") (auto elim: escape_part plain_part simp del: skip_string.simps)
    then have "length u < length s" using s by (cases a) (auto simp: string_part_def)
    from less.hyps [OF this p(3)] obtain x y where "u = x @ r" "compact True u = y @ compact False r"
      "\<forall>t. skip_string (x @ t) = Some t \<and> skip_string (y @ t) = Some t" by blast
    with p s show ?thesis
      by (intro exI [of _ "a @ x"] exI [of _ "b @ y"]) (simp add: string_part_def)
  qed
qed

text \<open>Values, elements and members.\<close>

definition parts :: "(string \<Rightarrow> string option) \<Rightarrow> string \<Rightarrow> string \<Rightarrow> bool" where
  "parts skip s r \<longleftrightarrow> (\<exists>x y. s = x @ r \<and> compact False s = y @ compact False r
     \<and> (\<forall>t. delimits t \<longrightarrow> skip (x @ t) = Some t) \<and> (\<forall>t. delimits t \<longrightarrow> skip (y @ t) = Some t)
     \<and> x \<noteq> [] \<and> y \<noteq> [] \<and> hd y = hd x \<and> \<not> is_ws (hd x) \<and> hd x \<notin> {CHR '']'', CHR ''}''})"

definition white :: "string \<Rightarrow> bool" where
  "white w \<longleftrightarrow> (\<forall>c \<in> set w. is_ws c)"

lemma skip_ws_split: obtains w where "white w" "s = w @ skip_ws s"
proof
  show "s = takeWhile is_ws s @ skip_ws s" by (simp add: skip_ws_def)
  show "white (takeWhile is_ws s)" by (auto simp: white_def dest: set_takeWhileD)
qed

lemma white_skip: "white w \<Longrightarrow> skip_ws (w @ t) = skip_ws t"
  by (induction w) (auto simp: white_def skip_ws_def)

lemma is_ws_delimits: "is_ws c \<Longrightarrow> delimits (c # t)"
  unfolding is_ws_def by (elim disjE) (simp_all add: delimits_def is_digit_def)

lemma white_delimits: "white w \<Longrightarrow> c \<in> {CHR '','', CHR '']'', CHR ''}''} \<Longrightarrow> delimits (w @ c # t)"
  by (cases w) (auto simp: white_def is_ws_delimits delimits_closing)

lemma compact_open: "c \<in> {CHR ''{'', CHR ''[''} \<Longrightarrow> compact False (c # s) = c # compact False s"
  by (auto simp: html_char_def is_ws_def)

lemma solid_skip: "x \<noteq> [] \<Longrightarrow> \<not> is_ws (hd x) \<Longrightarrow> skip_ws (x @ t) = x @ t"
  by (cases x) (simp_all add: skip_ws_def)

lemma structural_skip:
  "c \<in> {CHR '','', CHR '']'', CHR ''}'', CHR '':''} \<Longrightarrow> skip_ws (c # t) = c # t \<and> compact False (c # t) = c # compact False t"
  by (auto simp: skip_ws_def is_ws_def html_char_def)

lemma compact_structural:
  "skip_ws s = c # t \<Longrightarrow> c \<in> {CHR '','', CHR '']'', CHR ''}'', CHR '':''} \<Longrightarrow> compact False s = c # compact False t"
  using structural_skip [of c t] compact_skip_ws [of s] by simp

lemma partsE:
  assumes "parts skip s r"
  obtains x y where "s = x @ r" "compact False s = y @ compact False r"
    "\<forall>t. delimits t \<longrightarrow> skip (x @ t) = Some t" "\<forall>t. delimits t \<longrightarrow> skip (y @ t) = Some t"
    "x \<noteq> []" "y \<noteq> []" "hd y = hd x" "\<not> is_ws (hd x)" "hd x \<notin> {CHR '']'', CHR ''}''}"
  using assms unfolding parts_def by (elim exE conjE) (rule that)

lemma literal_parts:
  assumes "skip_literal lit s = Some r" "lit \<in> {''true'', ''false'', ''null''}"
  shows "s = lit @ r \<and> compact False s = lit @ compact False r \<and> (\<forall>t. skip_literal lit (lit @ t) = Some t)"
proof -
  have "s = lit @ r" using assms(1) by (auto simp: skip_literal_def HasPrefix_def split: if_splits) (metis append_take_drop_id)
  moreover have "compact False (lit @ r) = lit @ compact False r"
    using assms(2) by (auto simp: html_char_def is_ws_def)
  ultimately show ?thesis by (auto simp: skip_literal_def HasPrefix_def)
qed


lemma open_parts:
  assumes "skip_ws s1 = d # s2" "parts inner (d # s2) r" "c \<in> {CHR ''{'', CHR ''[''}"
    and skip: "\<And>w u. white w \<Longrightarrow> u \<noteq> [] \<Longrightarrow> \<not> is_ws (hd u) \<Longrightarrow> hd u \<notin> {CHR '']'', CHR ''}''} \<Longrightarrow> skip (c # w @ u) = inner u"
  shows "parts skip (c # s1) r"
proof -
  from assms(2) obtain x y where xy: "d # s2 = x @ r" "compact False (d # s2) = y @ compact False r"
    "\<forall>t. delimits t \<longrightarrow> inner (x @ t) = Some t" "\<forall>t. delimits t \<longrightarrow> inner (y @ t) = Some t"
    "x \<noteq> []" "y \<noteq> []" "hd y = hd x" "\<not> is_ws (hd x)" "hd x \<notin> {CHR '']'', CHR ''}''}" by (rule partsE)
  obtain w where w: "white w" "s1 = w @ skip_ws s1" by (rule skip_ws_split)
  have "c # s1 = (c # w @ x) @ r" using w(2) assms(1) xy(1) by simp
  moreover have "compact False (c # s1) = (c # y) @ compact False r"
    unfolding compact_open [OF assms(3)] using compact_skip_ws [of s1] assms(1) xy(2) by simp
  moreover have "skip ((c # w @ x) @ t) = Some t \<and> skip ((c # y) @ t) = Some t" if "delimits t" for t
    using xy(3-9) that skip [OF w(1), of "x @ t"] skip [of "[]" "y @ t"] by (simp add: white_def)
  ultimately show ?thesis
    unfolding parts_def using assms(3)
    by (intro exI [of _ "c # w @ x"] exI [of _ "c # y"]) (auto simp: is_ws_def)
qed

lemma close_parts:
  assumes "skip_ws s1 = e # s2" "e \<in> {CHR '']'', CHR ''}''}" "c \<in> {CHR ''{'', CHR ''[''}"
    and "\<And>w t. white w \<Longrightarrow> skip (c # w @ e # t) = Some t"
  shows "parts skip (c # s1) s2"
proof -
  obtain w where w: "white w" "s1 = w @ skip_ws s1" by (rule skip_ws_split)
  have "compact False (c # s1) = [c, e] @ compact False s2"
    unfolding compact_open [OF assms(3)] using assms(2) compact_structural [OF assms(1)] by auto
  moreover have "c # s1 = (c # w @ [e]) @ s2" using w(2) assms(1) by simp
  moreover have "skip ((c # w @ [e]) @ t) = Some t \<and> skip ([c, e] @ t) = Some t" for t
    using assms(4) [OF w(1), of t] assms(4) [of "[]" t] by (simp add: white_def)
  moreover have "\<not> is_ws c \<and> c \<notin> {CHR '']'', CHR ''}''}" using assms(3) by (auto simp: is_ws_def)
  ultimately show ?thesis
    unfolding parts_def by (intro exI [of _ "c # w @ [e]"] exI [of _ "[c, e]"]) simp
qed

text \<open>A first part, and what follows it up to the closing bracket.\<close>

lemma last_parts:
  assumes "parts first s s1" "skip_ws s1 = e # s2" "e \<in> {CHR '']'', CHR ''}''}"
    and "\<And>w u t. white w \<Longrightarrow> first (u @ w @ e # t) = Some (w @ e # t) \<Longrightarrow> skip (u @ w @ e # t) = Some t"
  shows "parts skip s s2"
proof -
  from assms(1) obtain x y where xy: "s = x @ s1" "compact False s = y @ compact False s1"
    "\<forall>t. delimits t \<longrightarrow> first (x @ t) = Some t" "\<forall>t. delimits t \<longrightarrow> first (y @ t) = Some t"
    "x \<noteq> []" "y \<noteq> []" "hd y = hd x" "\<not> is_ws (hd x)" "hd x \<notin> {CHR '']'', CHR ''}''}" by (rule partsE)
  obtain w where w: "white w" "s1 = w @ skip_ws s1" by (rule skip_ws_split)
  have d: "delimits (w @ e # t)" "delimits (e # t)" for t
    using white_delimits [OF w(1), of e t] white_delimits [of "[]" e t] assms(3) by (auto simp: white_def)
  have "s = (x @ w @ [e]) @ s2" using xy(1) w(2) assms(2) by simp
  moreover have "compact False s = (y @ [e]) @ compact False s2"
    using xy(2) compact_structural [OF assms(2)] assms(3) by auto
  moreover have "skip ((x @ w @ [e]) @ t) = Some t \<and> skip ((y @ [e]) @ t) = Some t" for t
    using assms(4) [OF w(1), of x t] assms(4) [of "[]" y t] xy(3,4) d by (simp add: white_def)
  ultimately show ?thesis
    unfolding parts_def using xy(5-9) by (intro exI [of _ "x @ w @ [e]"] exI [of _ "y @ [e]"]) auto
qed

lemma next_parts:
  assumes "parts first s s1" "skip_ws s1 = CHR '','' # s2" "parts skip' (skip_ws s2) r"
    and "\<And>w w2 u v t. white w \<Longrightarrow> white w2 \<Longrightarrow> v \<noteq> [] \<Longrightarrow> \<not> is_ws (hd v) \<Longrightarrow>
      first (u @ w @ CHR '','' # w2 @ v @ t) = Some (w @ CHR '','' # w2 @ v @ t) \<Longrightarrow>
      skip (u @ w @ CHR '','' # w2 @ v @ t) = skip' (v @ t)"
  shows "parts skip s r"
proof -
  from assms(1) obtain x y where xy: "s = x @ s1" "compact False s = y @ compact False s1"
    "\<forall>t. delimits t \<longrightarrow> first (x @ t) = Some t" "\<forall>t. delimits t \<longrightarrow> first (y @ t) = Some t"
    "x \<noteq> []" "y \<noteq> []" "hd y = hd x" "\<not> is_ws (hd x)" "hd x \<notin> {CHR '']'', CHR ''}''}" by (rule partsE)
  from assms(3) obtain x' y' where xy': "skip_ws s2 = x' @ r" "compact False (skip_ws s2) = y' @ compact False r"
    "\<forall>t. delimits t \<longrightarrow> skip' (x' @ t) = Some t" "\<forall>t. delimits t \<longrightarrow> skip' (y' @ t) = Some t"
    "x' \<noteq> []" "y' \<noteq> []" "hd y' = hd x'" "\<not> is_ws (hd x')" by (rule partsE)
  obtain w where w: "white w" "s1 = w @ skip_ws s1" by (rule skip_ws_split)
  obtain w2 where w2: "white w2" "s2 = w2 @ skip_ws s2" by (rule skip_ws_split)
  have d: "delimits (w @ CHR '','' # t)" "delimits (CHR '','' # t)" for t
    using white_delimits [OF w(1), of "CHR '',''" t] white_delimits [of "[]" "CHR '',''" t] by (auto simp: white_def)
  have "s1 = w @ CHR '','' # w2 @ x' @ r" using w(2) assms(2) w2(2) xy'(1) by simp
  then have "s = (x @ w @ CHR '','' # w2 @ x') @ r" using xy(1) by simp
  moreover have "compact False s = (y @ CHR '','' # y') @ compact False r"
    using xy(2) compact_structural [OF assms(2)] xy'(2) compact_skip_ws [of s2] by simp
  moreover have "skip ((x @ w @ CHR '','' # w2 @ x') @ t) = Some t \<and> skip ((y @ CHR '','' # y') @ t) = Some t"
    if "delimits t" for t
    using assms(4) [OF w(1) w2(1) xy'(5,8), of x t] assms(4) [of "[]" "[]" y' y t] xy(3,4) d xy'(3-8) that
    by (simp add: white_def)
  ultimately show ?thesis
    unfolding parts_def using xy(5-9)
    by (intro exI [of _ "x @ w @ CHR '','' # w2 @ x'"] exI [of _ "y @ CHR '','' # y'"]) auto
qed


definition skip_member :: "nat \<Rightarrow> nat \<Rightarrow> string \<Rightarrow> string option" where
  "skip_member fuel depth s =
     (case s of
        [] \<Rightarrow> None
      | q # s0 \<Rightarrow>
          if q \<noteq> CHR 0x22 then None
          else (case skip_string s0 of
            None \<Rightarrow> None
          | Some s1 \<Rightarrow>
              (case skip_ws s1 of
                 colon # s2 \<Rightarrow> if colon \<noteq> CHR '':'' then None else skip_value fuel depth (skip_ws s2)
               | [] \<Rightarrow> None)))"

lemma skip_members_member:
  "skip_members (Suc fuel) depth s =
     (case skip_member fuel depth s of
        None \<Rightarrow> None
      | Some s3 \<Rightarrow>
          (case skip_ws s3 of
             d # s4 \<Rightarrow>
               if d = CHR ''}'' then Some s4
               else if d = CHR '','' then skip_members fuel depth (skip_ws s4)
               else None
           | [] \<Rightarrow> None))"
  by (auto simp: skip_member_def split: list.split option.split)

lemma member_parts:
  assumes "skip_member f depth s = Some r" "\<And>u. skip_value f depth u = Some r \<Longrightarrow> parts (skip_value f depth) u r"
  shows "parts (skip_member f depth) s r"
proof -
  from assms(1) obtain s0 s1 s2 where s: "s = CHR 0x22 # s0" "skip_string s0 = Some s1" "skip_ws s1 = CHR '':'' # s2"
    and "skip_value f depth (skip_ws s2) = Some r"
    by (auto simp: skip_member_def split: list.splits option.splits if_splits)
  from assms(2) [OF this(4)] obtain x y where xy: "skip_ws s2 = x @ r" "compact False (skip_ws s2) = y @ compact False r"
    "\<forall>t. delimits t \<longrightarrow> skip_value f depth (x @ t) = Some t" "\<forall>t. delimits t \<longrightarrow> skip_value f depth (y @ t) = Some t"
    "x \<noteq> []" "y \<noteq> []" "hd y = hd x" "\<not> is_ws (hd x)" by (rule partsE)
  from skip_string_parts [OF s(2)] obtain k l where kl: "s0 = k @ s1" "compact True s0 = l @ compact False s1"
    "\<forall>t. skip_string (k @ t) = Some t \<and> skip_string (l @ t) = Some t" by blast
  obtain w where w: "white w" "s1 = w @ skip_ws s1" by (rule skip_ws_split)
  obtain w2 where w2: "white w2" "s2 = w2 @ skip_ws s2" by (rule skip_ws_split)
  let ?x = "CHR 0x22 # k @ w @ CHR '':'' # w2 @ x" and ?y = "CHR 0x22 # l @ CHR '':'' # y"
  have "s1 = w @ CHR '':'' # w2 @ x @ r" using w(2) s(3) w2(2) xy(1) by simp
  then have "s = ?x @ r" using s(1) kl(1) by simp
  moreover have "compact False s = ?y @ compact False r"
    unfolding s(1) compact_quote
    using kl(2) compact_structural [OF s(3)] xy(2) compact_skip_ws [of s2] by simp
  moreover have run: "skip_member f depth (CHR 0x22 # q @ v @ CHR '':'' # v2 @ u @ t) = Some t"
    if "\<forall>t. skip_string (q @ t) = Some t" "white v" "white v2" "u \<noteq> []" "\<not> is_ws (hd u)"
      "skip_value f depth (u @ t) = Some t" for q v v2 u t
    using that white_skip [OF that(2), of "CHR '':'' # v2 @ u @ t"] white_skip [OF that(3), of "u @ t"]
      structural_skip [of "CHR '':''" "v2 @ u @ t"] solid_skip [OF that(4,5), of t]
    by (simp add: skip_member_def)
  have "skip_member f depth (?x @ t) = Some t" "skip_member f depth (?y @ t) = Some t" if "delimits t" for t
    using run [of k w w2 x t] run [of l "[]" "[]" y t] kl(3) w(1) w2(1) xy(3-8) that by (simp_all add: white_def)
  ultimately show ?thesis
    unfolding parts_def by (intro exI [of _ ?x] exI [of _ ?y]) (simp add: is_ws_def)
qed

lemma numeral_char:
  assumes "is_digit c \<or> c \<in> {CHR ''-'', CHR ''+'', CHR ''.'', CHR ''e'', CHR ''E''}"
  shows "c \<notin> {CHR ''{'', CHR ''['', CHR 0x22, CHR ''t'', CHR ''f'', CHR ''n'', CHR '']'', CHR ''}''} \<and> \<not> is_ws c"
proof -
  let ?bad = "[CHR ''{'', CHR ''['', CHR 0x22, CHR ''t'', CHR ''f'', CHR ''n'', CHR '']'', CHR ''}'', CHR '' '', CHR 0x09, CHR 0x0A, CHR 0x0D]"
  have "list_all (\<lambda>d. \<not> is_digit d \<and> d \<notin> {CHR ''-'', CHR ''+'', CHR ''.'', CHR ''e'', CHR ''E''}) ?bad"
    by (simp add: is_digit_def)
  with assms have "c \<notin> set ?bad" unfolding list_all_iff by blast
  then show ?thesis by (simp add: is_ws_def)
qed

lemma scalar_parts:
  assumes "skip_value (Suc f) depth (c # s1) = Some r" "c \<noteq> CHR ''{''" "c \<noteq> CHR ''[''"
  shows "parts (skip_value (Suc f) depth) (c # s1) r"
proof -
  consider (str) "c = CHR 0x22" "skip_string s1 = Some r"
    | (lit) lit where "lit \<in> {''true'', ''false'', ''null''}" "hd lit = c" "skip_literal lit (c # s1) = Some r"
    | (num) "skip_number (c # s1) = Some r"
  proof -
    consider "c = CHR 0x22" | "c = CHR ''t''" | "c = CHR ''f''" | "c = CHR ''n''"
      | "c \<notin> {CHR 0x22, CHR ''t'', CHR ''f'', CHR ''n''}" by blast
    then show thesis
    proof cases
      case 1
      with assms show ?thesis by (intro str) simp_all
    next
      case 2
      with assms show ?thesis by (intro lit [of "''true''"]) simp_all
    next
      case 3
      with assms show ?thesis by (intro lit [of "''false''"]) simp_all
    next
      case 4
      with assms show ?thesis by (intro lit [of "''null''"]) simp_all
    next
      case 5
      with assms show ?thesis by (intro num) simp
    qed
  qed
  then show ?thesis
  proof cases
    case str
    from skip_string_parts [OF str(2)] obtain k l where kl: "s1 = k @ r" "compact True s1 = l @ compact False r"
      "\<forall>t. skip_string (k @ t) = Some t \<and> skip_string (l @ t) = Some t" by blast
    then show ?thesis
      unfolding parts_def str(1) compact_quote
      by (intro exI [of _ "CHR 0x22 # k"] exI [of _ "CHR 0x22 # l"]) (simp add: is_ws_def)
  next
    case lit
    note p = literal_parts [OF lit(3,1)]
    have "skip_value (Suc f) depth (lit @ t) = skip_literal lit (lit @ t)" for t using lit(1) by auto
    with p lit(1) show ?thesis unfolding parts_def by (intro exI [of _ lit]) (auto simp: is_ws_def)
  next
    case num
    from num obtain x where x: "c # s1 = x @ r" "skip_number x = Some []" "numeral_chars x" by (rule skip_number_prefix)
    have "x \<noteq> []" using x(2) by (auto simp: skip_number_def skip_int_def)
    then obtain x' where x': "x = c # x'" using x(1) by (cases x) auto
    then have "is_digit c \<or> c \<in> {CHR ''-'', CHR ''+'', CHR ''.'', CHR ''e'', CHR ''E''}" using x(3) by (simp add: numeral_chars_def)
    then have c: "c \<notin> {CHR ''{'', CHR ''['', CHR 0x22, CHR ''t'', CHR ''f'', CHR ''n''}" "\<not> is_ws c"
      "c \<notin> {CHR '']'', CHR ''}''}" using numeral_char [of c] by simp_all
    have "skip_value (Suc f) depth (x @ t) = Some t" if "delimits t" for t
      using skip_number_append [OF that x(2)] c(1) x' by simp
    moreover have "compact False (c # s1) = x @ compact False r"
      unfolding x(1) using x(3) by (intro compact_number_chars) (simp add: numeral_chars_def)
    ultimately show ?thesis unfolding parts_def using x(1) x' c(2,3) by (intro exI [of _ x]) simp
  qed
qed


lemma value_parts:
  assumes "skip_value (Suc f) depth s = Some r"
    and "\<And>d s2. depth \<noteq> 0 \<Longrightarrow> skip_members f (depth - 1) (d # s2) = Some r \<Longrightarrow> parts (skip_members f (depth - 1)) (d # s2) r"
    and "\<And>d s2. depth \<noteq> 0 \<Longrightarrow> skip_elements f (depth - 1) (d # s2) = Some r \<Longrightarrow> parts (skip_elements f (depth - 1)) (d # s2) r"
  shows "parts (skip_value (Suc f) depth) s r"
proof -
  from assms(1) obtain c s1 where s: "s = c # s1" by (cases s) auto
  show ?thesis
  proof (cases "c = CHR ''{'' \<or> c = CHR ''[''")
    case False
    with assms(1) scalar_parts s show ?thesis by simp
  next
    case True
    let ?e = "if c = CHR ''{'' then CHR ''}'' else CHR '']''"
    let ?inner = "if c = CHR ''{'' then skip_members f (depth - 1) else skip_elements f (depth - 1)"
    have depth: "depth \<noteq> 0" using assms(1) s True by (cases depth) auto
    obtain d s2 where d: "skip_ws s1 = d # s2" using assms(1) s True by (auto split: list.splits if_splits)
    have val: "skip_value (Suc f) depth (c # u) = (case skip_ws u of
        d # s2 \<Rightarrow> if d = ?e then Some s2 else ?inner (d # s2) | [] \<Rightarrow> None)" for u
      using True depth by auto
    show ?thesis
    proof (cases "d = ?e")
      case True
      then have "r = s2" using assms(1) s d val [of s1] by simp
      moreover have "skip_value (Suc f) depth (c # w @ ?e # t) = Some t" if "white w" for w t
        unfolding val white_skip [OF that] using structural_skip [of ?e t] by simp
      ultimately show ?thesis
        unfolding s using close_parts [OF _ _ _, of s1 ?e s2 c "skip_value (Suc f) depth"] d True \<open>c = _ \<or> c = _\<close> by auto
    next
      case False
      then have "?inner (d # s2) = Some r" using assms(1) s d val [of s1] by simp
      then have "parts ?inner (d # s2) r" using assms(2,3) [OF depth] by (simp split: if_splits)
      moreover have "skip_value (Suc f) depth (c # w @ u) = ?inner u"
        if "white w" "u \<noteq> []" "\<not> is_ws (hd u)" "hd u \<notin> {CHR '']'', CHR ''}''}" for w u
        unfolding val white_skip [OF that(1)] using solid_skip [OF that(2,3), of "[]"] that(2,4) by (cases u) auto
      ultimately show ?thesis
        unfolding s using open_parts [OF d, of ?inner r c "skip_value (Suc f) depth"] \<open>c = _ \<or> c = _\<close> by blast
    qed
  qed
qed

lemma skip_parts:
  "skip_value f depth s = Some r \<Longrightarrow> parts (skip_value f depth) s r"
  "skip_elements f depth s = Some r \<Longrightarrow> parts (skip_elements f depth) s r"
  "skip_members f depth s = Some r \<Longrightarrow> parts (skip_members f depth) s r"
proof (induction f arbitrary: depth s r)
  case (Suc f)
  case 1
  then show ?case by (rule value_parts) (use Suc.IH in blast)+
next
  case (Suc f)
  case 2
  then obtain s1 d s2 where v: "skip_value f depth s = Some s1" "skip_ws s1 = d # s2"
    and d: "d = CHR '']'' \<and> r = s2 \<or> d = CHR '','' \<and> skip_elements f depth (skip_ws s2) = Some r"
    by (auto split: option.splits list.splits if_splits)
  note first = Suc.IH(1) [OF v(1)]
  from d show ?case
  proof
    assume d: "d = CHR '']'' \<and> r = s2"
    have "skip_elements (Suc f) depth (u @ w @ CHR '']'' # t) = Some t"
      if "white w" "skip_value f depth (u @ w @ CHR '']'' # t) = Some (w @ CHR '']'' # t)" for w u t
      using that(2) white_skip [OF that(1), of "CHR '']'' # t"] structural_skip [of "CHR '']''" t] by simp
    with last_parts [OF first v(2), of "skip_elements (Suc f) depth"] d show ?thesis by blast
  next
    assume d: "d = CHR '','' \<and> skip_elements f depth (skip_ws s2) = Some r"
    have "skip_elements (Suc f) depth (u @ w @ CHR '','' # w2 @ v @ t) = skip_elements f depth (v @ t)"
      if "white w" "white w2" "v \<noteq> []" "\<not> is_ws (hd v)"
        "skip_value f depth (u @ w @ CHR '','' # w2 @ v @ t) = Some (w @ CHR '','' # w2 @ v @ t)" for w w2 u v t
      using that(5) white_skip [OF that(1), of "CHR '','' # w2 @ v @ t"] structural_skip [of "CHR '',''" "w2 @ v @ t"]
        white_skip [OF that(2), of "v @ t"] solid_skip [OF that(3,4), of t] by simp
    with next_parts [OF first _ Suc.IH(2), of s2 depth r "skip_elements (Suc f) depth"] d v(2) show ?thesis by blast
  qed
next
  case (Suc f)
  case 3
  then obtain s1 d s2 where v: "skip_member f depth s = Some s1" "skip_ws s1 = d # s2"
    and d: "d = CHR ''}'' \<and> r = s2 \<or> d = CHR '','' \<and> skip_members f depth (skip_ws s2) = Some r"
    unfolding skip_members_member by (auto split: option.splits list.splits if_splits)
  note first = member_parts [OF v(1) Suc.IH(1)]
  from d show ?case
  proof
    assume d: "d = CHR ''}'' \<and> r = s2"
    have "skip_members (Suc f) depth (u @ w @ CHR ''}'' # t) = Some t"
      if "white w" "skip_member f depth (u @ w @ CHR ''}'' # t) = Some (w @ CHR ''}'' # t)" for w u t
      unfolding skip_members_member
      using that(2) white_skip [OF that(1), of "CHR ''}'' # t"] structural_skip [of "CHR ''}''" t] by simp
    with last_parts [OF first v(2), of "skip_members (Suc f) depth"] d show ?thesis by blast
  next
    assume d: "d = CHR '','' \<and> skip_members f depth (skip_ws s2) = Some r"
    have "skip_members (Suc f) depth (u @ w @ CHR '','' # w2 @ v @ t) = skip_members f depth (v @ t)"
      if "white w" "white w2" "v \<noteq> []" "\<not> is_ws (hd v)"
        "skip_member f depth (u @ w @ CHR '','' # w2 @ v @ t) = Some (w @ CHR '','' # w2 @ v @ t)" for w w2 u v t
      unfolding skip_members_member
      using that(5) white_skip [OF that(1), of "CHR '','' # w2 @ v @ t"] structural_skip [of "CHR '',''" "w2 @ v @ t"]
        white_skip [OF that(2), of "v @ t"] solid_skip [OF that(3,4), of t] by simp
    with next_parts [OF first _ Suc.IH(3), of s2 depth r "skip_members (Suc f) depth"] d v(2) show ?thesis by blast
  qed
qed simp_all


section \<open>Values in a text\<close>

lemma skip_step_mono:
  "skip_value f depth s = Some r \<Longrightarrow> skip_value (Suc f) depth s = Some r"
  "skip_elements f depth s = Some r \<Longrightarrow> skip_elements (Suc f) depth s = Some r"
  "skip_members f depth s = Some r \<Longrightarrow> skip_members (Suc f) depth s = Some r"
proof (induction f arbitrary: depth s r)
  case (Suc f)
  case 1
  then show ?case
    using Suc.IH(2,3) by (cases s) (auto split: list.splits if_splits simp del: skip_elements.simps skip_members.simps)
next
  case (Suc f)
  case 2
  then obtain s1 where "skip_value f depth s = Some s1" by (auto split: option.splits)
  with 2 Suc.IH(1) [OF this] Suc.IH(2) show ?case by (auto split: list.splits if_splits simp del: skip_value.simps)
next
  case (Suc f)
  case 3
  have member: "skip_member f depth s = Some u \<Longrightarrow> skip_member (Suc f) depth s = Some u" for u
    using Suc.IH(1) by (auto simp: skip_member_def split: list.splits option.splits if_splits simp del: skip_value.simps)
  from 3 obtain s1 where "skip_member f depth s = Some s1" unfolding skip_members_member by (auto split: option.splits)
  with 3 member [OF this] Suc.IH(3) show ?case
    unfolding skip_members_member by (auto split: list.splits if_splits)
qed simp_all

lemma skip_mono: "f \<le> f' \<Longrightarrow> skip_value f depth s = Some r \<Longrightarrow> skip_value f' depth s = Some r"
  by (induction rule: dec_induct) (auto intro: skip_step_mono(1) simp del: skip_value.simps)

lemma skip_value_json_skip:
  assumes "skip_value f depth s = Some r"
  shows "json_skip depth s = Some r"
proof -
  have "skip_value (max f (Suc (2 * length s))) depth s = Some r" by (rule skip_mono [OF _ assms]) simp
  moreover have "skip_value (max f (Suc (2 * length s))) depth s = json_skip depth s"
    by (rule json_skip_fuel) simp
  ultimately show ?thesis by simp
qed

lemma json_skip_parts:
  assumes "json_skip depth s = Some r"
  shows "parts (json_skip depth) s r"
proof -
  have "parts (skip_value (Suc (2 * length s)) depth) s r"
    using assms unfolding json_skip_def by (rule skip_parts(1))
  then show ?thesis
    by (rule partsE) (use skip_value_json_skip in \<open>unfold parts_def, blast\<close>)
qed

lemma before_append [simp]: "before (x @ r) r = x"
  by (simp add: before_def)

text \<open>The raw text of a value stands for itself, and so does what compaction makes of it.\<close>

lemma raw_value:
  assumes "json_skip depth s = Some r"
  shows "json_skip depth (before s r) = Some []"
  using json_skip_parts [OF assms] by (rule partsE) (auto simp: delimits_def)

lemma compact_value:
  assumes "json_skip depth m = Some []" "delimits t"
  shows "json_skip depth (compact False m @ t) = Some t \<and> skip_ws (compact False m @ t) = compact False m @ t
    \<and> compact False m \<noteq> []"
proof -
  from json_skip_parts [OF assms(1)] obtain x y where "compact False m = y @ compact False []"
    "\<forall>t. delimits t \<longrightarrow> json_skip depth (y @ t) = Some t" "y \<noteq> []" "hd y = hd x" "\<not> is_ws (hd x)"
    by (rule partsE)
  with assms(2) solid_skip [of y t] show ?thesis by simp
qed

lemma skip_depth_step:
  "skip_value f depth s = Some r \<Longrightarrow> skip_value f (Suc depth) s = Some r"
  "skip_elements f depth s = Some r \<Longrightarrow> skip_elements f (Suc depth) s = Some r"
  "skip_members f depth s = Some r \<Longrightarrow> skip_members f (Suc depth) s = Some r"
proof (induction f arbitrary: depth s r)
  case (Suc f)
  case 1
  then obtain c s1 where s: "s = c # s1" by (cases s) auto
  show ?case
  proof (cases "c = CHR ''{'' \<or> c = CHR ''[''")
    case True
    with 1 s obtain n where "depth = Suc n" by (cases depth) auto
    with 1 s True Suc.IH(2,3) show ?thesis
      by (auto split: list.splits if_splits simp del: skip_elements.simps skip_members.simps)
  next
    case False
    with 1 s show ?thesis by simp
  qed
next
  case (Suc f)
  case 2
  then obtain s1 where "skip_value f depth s = Some s1" by (auto split: option.splits)
  with 2 Suc.IH(1) [OF this] Suc.IH(2) show ?case by (auto split: list.splits if_splits simp del: skip_value.simps)
next
  case (Suc f)
  case 3
  have member: "skip_member f depth s = Some u \<Longrightarrow> skip_member f (Suc depth) s = Some u" for u
    using Suc.IH(1) by (auto simp: skip_member_def split: list.splits option.splits if_splits simp del: skip_value.simps)
  from 3 obtain s1 where "skip_member f depth s = Some s1" unfolding skip_members_member by (auto split: option.splits)
  with 3 member [OF this] Suc.IH(3) show ?case
    unfolding skip_members_member by (auto split: list.splits if_splits)
qed simp_all

lemma json_skip_depth: "json_skip depth s = Some r \<Longrightarrow> json_skip (Suc depth) s = Some r"
  unfolding json_skip_def by (rule skip_depth_step(1))


section \<open>Objects written by hand\<close>

definition raw_ok :: "nat \<Rightarrow> string \<Rightarrow> bool" where
  "raw_ok depth raw \<longleftrightarrow> raw \<noteq> [] \<and> \<not> is_ws (hd raw) \<and> (\<forall>t. delimits t \<longrightarrow> json_skip depth (raw @ t) = Some t)"

lemma raw_ok_compact: "json_skip depth m = Some [] \<Longrightarrow> raw_ok depth (compact False m)"
  unfolding raw_ok_def using json_skip_parts [of depth m "[]"] by (auto elim!: partsE)

lemma raw_ok_encode: "encodable depth v \<Longrightarrow> raw_ok depth (json_encode v)"
  unfolding raw_ok_def using json_encode_skip [of depth v] by (auto elim: json_encode_hd)

definition plain_name :: "string \<Rightarrow> bool" where
  "plain_name k \<longleftrightarrow> (\<forall>c \<in> set k. 32 \<le> code c \<and> code c < 128 \<and> c \<noteq> CHR 0x22 \<and> c \<noteq> CHR 0x5C)"

lemma plain_name_skip: "plain_name k \<Longrightarrow> skip_string (k @ CHR 0x22 # t) = Some t"
  by (induction k) (auto simp: plain_name_def)

text \<open>What can stand between the quotes of a name.\<close>

definition quotable :: "string \<Rightarrow> bool" where
  "quotable k \<longleftrightarrow> (\<forall>t. skip_string (k @ CHR 0x22 # t) = Some t)"

lemma plain_name_unquote: "plain_name k \<Longrightarrow> unquote k = k"
proof -
  have "plain_name k \<Longrightarrow> length k \<le> f \<Longrightarrow> unquote_fuel f k = k" for f
  proof (induction k arbitrary: f)
    case Nil
    show ?case by (cases f) simp_all
  next
    case (Cons c k)
    then obtain g where "f = Suc g" by (cases f) auto
    with Cons show ?case by (simp add: plain_name_def)
  qed
  then show "plain_name k \<Longrightarrow> unquote k = k" by (simp add: unquote_def)
qed

lemma plain_names:
  assumes "\<forall>m \<in> set ms. plain_name (fst m) \<and> P m"
  shows "\<forall>m \<in> set ms. quotable (fst m) \<and> P m" "map (apfst unquote) ms = ms"
  using assms by (auto simp: quotable_def plain_name_skip plain_name_unquote intro!: map_idI prod_eqI)

definition raw_member :: "string \<times> string \<Rightarrow> string" where
  "raw_member m = CHR 0x22 # fst m @ CHR 0x22 # CHR '':'' # snd m"

definition raw_object :: "(string \<times> string) list \<Rightarrow> string" where
  "raw_object ms = CHR ''{'' # join_with '','' (map raw_member ms) @ ''}''"

lemma raw_member_head:
  assumes "quotable (fst m)" "raw_ok depth (snd m)" "delimits t"
  shows "skip_string (tl (raw_member m @ t)) = Some (CHR '':'' # snd m @ t)"
    and "skip_ws (CHR '':'' # snd m @ t) = CHR '':'' # snd m @ t" "skip_ws (snd m @ t) = snd m @ t"
    and "json_skip depth (snd m @ t) = Some t" "before (tl (raw_member m @ t)) (CHR '':'' # snd m @ t) = fst m @ [CHR 0x22]"
proof -
  show "skip_string (tl (raw_member m @ t)) = Some (CHR '':'' # snd m @ t)"
    using assms(1) by (simp add: raw_member_def quotable_def)
  show "skip_ws (CHR '':'' # snd m @ t) = CHR '':'' # snd m @ t" by (simp add: structural_skip)
  show "skip_ws (snd m @ t) = snd m @ t" "json_skip depth (snd m @ t) = Some t"
    using assms(2,3) solid_skip by (simp_all add: raw_ok_def)
  show "before (tl (raw_member m @ t)) (CHR '':'' # snd m @ t) = fst m @ [CHR 0x22]"
    using before_append [of "fst m @ [CHR 0x22]" "CHR '':'' # snd m @ t"] by (simp add: raw_member_def)
qed

lemma skip_ws_raw_member: "skip_ws (raw_member m @ t) = raw_member m @ t"
  by (simp add: raw_member_def skip_ws_def is_ws_def)

text \<open>What follows a member is scanned and split alike.\<close>

lemma raw_members:
  assumes "ms \<noteq> []" "\<forall>m \<in> set ms. quotable (fst m) \<and> raw_ok depth (snd m)"
  shows "(\<forall>f > 2 * length (join_with '','' (map raw_member ms) @ CHR ''}'' # t).
      skip_members f depth (join_with '','' (map raw_member ms) @ CHR ''}'' # t) = Some t)
    \<and> (\<forall>g \<ge> length ms. members g depth (join_with '','' (map raw_member ms) @ CHR ''}'' # t) = map (apfst unquote) ms)"
  using assms
proof (induction ms)
  case (Cons m ms)
  have m: "quotable (fst m)" "raw_ok depth (snd m)" using Cons.prems(2) by simp_all
  let ?more = "join_with '','' (map raw_member ms) @ CHR ''}'' # t"
  let ?t = "if ms = [] then CHR ''}'' # t else CHR '','' # ?more"
  have rest: "skip_ws ?more = ?more" if "ms \<noteq> []"
    using that join_with_Cons [of "'',''" "raw_member (hd ms)" "map raw_member (tl ms)"]
    by (cases ms) (auto simp: skip_ws_raw_member)
  have d: "delimits ?t" by (simp add: delimits_closing)
  note head = raw_member_head [OF m d]
  have shape: "join_with '','' (map raw_member (m # ms)) @ CHR ''}'' # t = raw_member m @ ?t" by (cases ms) simp_all
  have quote: "raw_member m @ ?t = CHR 0x22 # tl (raw_member m @ ?t)" by (simp add: raw_member_def)
  have IH: "ms \<noteq> [] \<Longrightarrow> 2 * length ?more < f \<Longrightarrow> skip_members f depth ?more = Some t"
    "ms \<noteq> [] \<Longrightarrow> length ms \<le> g \<Longrightarrow> members g depth ?more = map (apfst unquote) ms" for f g
    using Cons.IH Cons.prems(2) by simp_all
  have "skip_members f depth (raw_member m @ ?t) = Some t" if "2 * length (raw_member m @ ?t) < f" for f
  proof -
    from that obtain f' where f: "f = Suc f'" by (cases f) auto
    have "2 * length (snd m @ ?t) < f'" using that f by (simp add: raw_member_def)
    then have "skip_value f' depth (snd m @ ?t) = Some ?t" using head(4) json_skip_fuel by metis
    then have "skip_member f' depth (raw_member m @ ?t) = Some ?t"
      using head(1-3) by (subst quote) (simp add: skip_member_def)
    then show ?thesis
      using IH(1) [of f'] that f rest unfolding f skip_members_member by (auto simp: structural_skip raw_member_def)
  qed
  moreover have "members g depth (raw_member m @ ?t) = map (apfst unquote) (m # ms)" if "length (m # ms) \<le> g" for g
  proof -
    from that obtain g' where g: "g = Suc g'" by (cases g) auto
    show ?thesis
      using IH(2) [of g'] that rest head unfolding g
      by (auto simp: structural_skip butlast_append apfst_def map_prod_def split: prod.splits)
  qed
  ultimately show ?case unfolding shape by blast
qed simp

lemma raw_object_skip:
  assumes "ms \<noteq> []" "\<forall>m \<in> set ms. quotable (fst m) \<and> raw_ok depth (snd m)"
  shows "json_skip (Suc depth) (raw_object ms @ t) = Some t"
    and "members (length (tl (raw_object ms))) depth (tl (raw_object ms)) = map (apfst unquote) ms"
proof -
  let ?more = "join_with '','' (map raw_member ms)"
  obtain u where u: "?more = CHR 0x22 # u"
    using assms(1) join_with_Cons [of "'',''" "raw_member (hd ms)" "map raw_member (tl ms)"]
    by (cases ms) (auto simp: raw_member_def)
  note both = raw_members [OF assms]
  have "skip_members (2 * length (raw_object ms @ t)) depth (?more @ CHR ''}'' # t) = Some t"
    using both [of t] by (simp add: raw_object_def del: skip_members.simps)
  then show "json_skip (Suc depth) (raw_object ms @ t) = Some t"
    unfolding json_skip_def by (simp add: raw_object_def u skip_ws_def is_ws_def del: skip_members.simps)
  have "length ms \<le> length ?more" by (induction ms rule: induct_list012) (auto simp: raw_member_def)
  then show "members (length (tl (raw_object ms))) depth (tl (raw_object ms)) = map (apfst unquote) ms"
    using both [of "[]"] by (simp add: raw_object_def del: members.simps)
qed

lemma raw_object_Unmarshal:
  assumes "ms \<noteq> []" "\<forall>m \<in> set ms. plain_name (fst m) \<and> raw_ok (maxNestingDepth - 1) (snd m)"
  shows "json_Valid (raw_object ms)" "Unmarshal_raw_map (raw_object ms) = Some ms"
proof -
  have depth: "Suc (maxNestingDepth - 1) = maxNestingDepth" by (simp add: maxNestingDepth_def)
  have ws: "skip_ws (raw_object ms) = raw_object ms" by (simp add: raw_object_def skip_ws_def is_ws_def)
  obtain u where u: "tl (raw_object ms) = CHR 0x22 # u"
    using assms(1) join_with_Cons [of "'',''" "raw_member (hd ms)" "map raw_member (tl ms)"]
    by (cases ms) (auto simp: raw_member_def raw_object_def)
  show valid: "json_Valid (raw_object ms)"
    using raw_object_skip(1) [OF assms(1) plain_names(1) [OF assms(2)], of "[]"]
    unfolding json_Valid_def ws depth by (simp add: skip_ws_def)
  have "skip_ws (tl (raw_object ms)) = tl (raw_object ms)" by (simp add: u skip_ws_def is_ws_def)
  moreover have "hd (raw_object ms) = CHR ''{''" by (simp add: raw_object_def)
  ultimately show "Unmarshal_raw_map (raw_object ms) = Some ms"
    using valid raw_object_skip(2) [OF assms(1) plain_names(1) [OF assms(2)]] plain_names(2) [OF assms(2)] ws u
    by (simp add: Unmarshal_raw_map_def Let_def)
qed

lemma members_raw: "(k, raw) \<in> set (members fuel depth s) \<Longrightarrow> json_skip depth raw = Some []"
proof (induction fuel depth s rule: members.induct)
  case (2 fuel depth s)
  obtain s1 where s1: "skip_string (tl s) = Some s1"
    using 2(2) by (cases "skip_string (tl s)") simp_all
  obtain s3 where s3: "json_skip depth (skip_ws (tl (skip_ws s1))) = Some s3"
    using 2(2) by (cases "json_skip depth (skip_ws (tl (skip_ws s1)))") (simp_all add: s1 Let_def)
  note s = s1 s3 and IH = 2(1)
  with 2(2) consider "raw = before (skip_ws (tl (skip_ws s1))) s3"
    | s4 where "skip_ws s3 = CHR '','' # s4" "(k, raw) \<in> set (members fuel depth (skip_ws s4))"
    by (cases "skip_ws s3") (auto simp: Let_def split: if_splits)
  then show ?case
  proof cases
    case 1
    with raw_value [OF s(2)] show ?thesis by simp
  next
    case 2
    with IH [OF s(1) refl refl s(2) _ refl] show ?thesis by simp
  qed
qed simp

lemma Unmarshal_raw:
  "Unmarshal_raw_map j = Some ms \<Longrightarrow> raw_map_get ms k = Some raw \<Longrightarrow> json_skip (maxNestingDepth - 1) raw = Some []"
  by (auto simp: Unmarshal_raw_map_def raw_map_get_def Let_def split: if_splits dest!: map_of_SomeD members_raw)

end
