(* ===== verification/Status.thy ===== *)
theory Status
  imports Handshake JsonCompact
begin

unbundle bit_operations_syntax

text \<open>
  \<^verbatim>\<open>internal/mcproto/status.go\<close> and \<^verbatim>\<open>login.go\<close>: the packets of the status
  exchange, the message of the day in a status document and the document built around a
  remembered message, and the login start and disconnect packets.  A
  \<^verbatim>\<open>json.RawMessage\<close> is the text of a JSON value.
\<close>

section \<open>Status packets\<close>

definition StatusRequestPacketID :: int32 where "StatusRequestPacketID = 0"
definition StatusResponsePacketID :: int32 where "StatusResponsePacketID = 0"
definition StatusPingPacketID :: int32 where "StatusPingPacketID = 1"
definition StatusPongPacketID :: int32 where "StatusPongPacketID = 1"

definition BuildStatusResponse :: "string \<Rightarrow> Packet" where
  "BuildStatusResponse json = NewPacket StatusResponsePacketID (EncodeString json)"

definition BuildPong :: "byte list \<Rightarrow> go_error + Packet" where
  "BuildPong payload =
     (if length payload \<noteq> 8
      then Inl (Errorf (''ping payload must be 8 bytes, got '' @ show_int (int (length payload))))
      else Inr (NewPacket StatusPongPacketID payload))"

definition BigEndian_PutUint64 :: "64 word \<Rightarrow> byte list" where
  "BigEndian_PutUint64 v = map (\<lambda>i. ucast (drop_bit (8 * i) v)) [7, 6, 5, 4, 3, 2, 1, 0]"

definition BuildPing :: "64 word \<Rightarrow> Packet" where
  "BuildPing val = NewPacket StatusPingPacketID (BigEndian_PutUint64 val)"

definition ParseStatusJSON :: "Packet \<Rightarrow> go_error + string" where
  "ParseStatusJSON p =
     (if ID p \<noteq> StatusResponsePacketID
      then Inl (Errorf (''expected status response packet id 0x00, got 0x'' @ show_hex (sint (ID p))))
      else fst (ReadString (bytes_NewReader (Data p)) 32767))"

section \<open>The message of the day\<close>

definition ExtractMOTD :: "string \<Rightarrow> string option" where
  "ExtractMOTD statusJSON =
     (case Unmarshal_raw_map statusJSON of
        None \<Rightarrow> None
      | Some root \<Rightarrow>
          (case raw_map_get root ''description'' of
             None \<Rightarrow> None
           | Some description \<Rightarrow> if length description = 0 then None else Some description))"

record FallbackStatusOptions =
  VersionName :: string
  PlayersMax :: int

definition quoted :: "string \<Rightarrow> string" where
  "quoted s = [CHR 0x22] @ s @ [CHR 0x22]"

definition default_motd :: string where
  "default_motd = ''{'' @ quoted ''text'' @ '':'' @ quoted ''Server status temporarily unavailable'' @ ''}''"

text \<open>
  The document is a \<^verbatim>\<open>map[string]any\<close>, which the encoder writes with its keys in
  order.  \<open>None\<close> is the encoder's refusal of a message that is not JSON; its text is not looked
  at by any caller.
\<close>

definition Marshal_status :: "string \<Rightarrow> int \<Rightarrow> int \<Rightarrow> string \<Rightarrow> string" where
  "Marshal_status name protocol playersMax description =
     ''{'' @ quoted ''description'' @ '':'' @ description
     @ '','' @ quoted ''players'' @ '':{'' @ quoted ''max'' @ '':'' @ show_int playersMax
     @ '','' @ quoted ''online'' @ '':'' @ show_int 0 @ ''}''
     @ '','' @ quoted ''version'' @ '':{'' @ quoted ''name'' @ '':'' @ Marshal_string name
     @ '','' @ quoted ''protocol'' @ '':'' @ show_int protocol @ ''}}''"

definition BuildFallbackStatusWithOptions :: "int32 \<Rightarrow> string \<Rightarrow> FallbackStatusOptions \<Rightarrow> Packet option" where
  "BuildFallbackStatusWithOptions protocolVersion motd options =
     (let name = (if VersionName options = '''' then ''ciallo fallback'' else VersionName options);
          playersMax = (if PlayersMax options < 0 then 0 else PlayersMax options);
          motd = (if length motd = 0 then default_motd else motd)
      in case Marshal_raw motd of
           None \<Rightarrow> None
         | Some description \<Rightarrow>
             Some (BuildStatusResponse (Marshal_status name (sint protocolVersion) playersMax description)))"

definition BuildFallbackStatus :: "int32 \<Rightarrow> string \<Rightarrow> Packet option" where
  "BuildFallbackStatus protocolVersion motd =
     BuildFallbackStatusWithOptions protocolVersion motd \<lparr>VersionName = '''', PlayersMax = 0\<rparr>"

section \<open>Login packets\<close>

definition LoginStartPacketID :: int32 where "LoginStartPacketID = 0"
definition LoginDisconnectPacketID :: int32 where "LoginDisconnectPacketID = 0"

record LoginStart =
  Username :: string

definition ParseLoginStart :: "Packet \<Rightarrow> int32 \<Rightarrow> go_error + LoginStart" where
  "ParseLoginStart p protocolVersion =
     (if ID p \<noteq> LoginStartPacketID
      then Inl (Errorf (''expected login start packet id 0x00, got 0x'' @ show_hex (sint (ID p))))
      else (case ReadString (bytes_NewReader (Data p)) 16 of
              (Inl err, _) \<Rightarrow> Inl err
            | (Inr username, _) \<Rightarrow> Inr \<lparr>Username = username\<rparr>))"

definition BuildLoginStart :: "string \<Rightarrow> byte list \<Rightarrow> Packet" where
  "BuildLoginStart username trailing = NewPacket LoginStartPacketID (EncodeString username @ trailing)"

definition BuildLoginDisconnect :: "string \<Rightarrow> Packet" where
  "BuildLoginDisconnect reasonJSON = NewPacket LoginDisconnectPacketID (EncodeString reasonJSON)"

section \<open>Lemmas\<close>

lemmas packet_ids [go_simps] =
  StatusRequestPacketID_def StatusResponsePacketID_def StatusPingPacketID_def StatusPongPacketID_def
  LoginStartPacketID_def LoginDisconnectPacketID_def HandshakePacketID_def

lemma ReadString_bytes:
  assumes "wire_string maxChars s" "s \<noteq> [] \<or> rest \<noteq> []"
  shows "ReadString (bytes_NewReader (EncodeString s @ rest)) maxChars = (Inr s, \<lparr>pending = rest, at_end = EOF\<rparr>)"
  unfolding bytes_NewReader_def using assms by (rule ReadString_EncodeString)

lemma ParseStatusJSON_Build:
  assumes "wire_string 32767 json" "json \<noteq> []"
  shows "ParseStatusJSON (BuildStatusResponse json) = Inr json"
  using ReadString_bytes [OF assms(1), of "[]"] assms(2)
  by (simp add: ParseStatusJSON_def BuildStatusResponse_def)

lemma ParseLoginStart_Build:
  assumes "wire_string 16 username" "username \<noteq> [] \<or> trailing \<noteq> []"
  shows "ParseLoginStart (BuildLoginStart username trailing) v = Inr \<lparr>Username = username\<rparr>"
  using ReadString_bytes [OF assms]
  by (simp add: ParseLoginStart_def BuildLoginStart_def)

lemma ParseLoginStart_Inr:
  assumes "ParseLoginStart p v = Inr l"
  shows "ID p = LoginStartPacketID \<and> utf8_Valid (bytes_of_string (Username l)) \<and> utf16CodeUnits (Username l) \<le> 16"
proof -
  obtain s r where s: "ReadString (bytes_NewReader (Data p)) 16 = (Inr s, r)" "Username l = s" "ID p = LoginStartPacketID"
    using assms by (auto simp: ParseLoginStart_def split: if_splits prod.splits sum.splits)
  from ReadString_Inr [OF s(1)] s(2,3) show ?thesis by simp
qed

lemma BuildPong_Inr: "BuildPong d = Inr p \<longleftrightarrow> length d = 8 \<and> p = NewPacket StatusPongPacketID d"
  by (auto simp: BuildPong_def)

lemma length_PutUint64 [simp]: "length (BigEndian_PutUint64 v) = 8"
  by (simp add: BigEndian_PutUint64_def)

lemma fallback_is_response:
  "BuildFallbackStatusWithOptions v motd options = Some p \<Longrightarrow> \<exists>json. json \<noteq> [] \<and> p = BuildStatusResponse json"
  by (auto simp: BuildFallbackStatusWithOptions_def Let_def Marshal_status_def split: option.splits)

lemma fallback_defined:
  "json_Valid motd \<Longrightarrow> motd \<noteq> [] \<Longrightarrow> BuildFallbackStatusWithOptions v motd options \<noteq> None"
  by (simp add: BuildFallbackStatusWithOptions_def Let_def Marshal_raw_def)

section \<open>Properties\<close>

section \<open>The fallback document\<close>

lemma quoted_names:
  "plain_name ''description'' \<and> plain_name ''players'' \<and> plain_name ''version''"
  by (simp add: plain_name_def)

lemma quoted_Marshal:
  "Marshal_string ''max'' = quoted ''max''" "Marshal_string ''online'' = quoted ''online''"
  "Marshal_string ''name'' = quoted ''name''" "Marshal_string ''protocol'' = quoted ''protocol''"
  by (simp_all add: Marshal_string_def quoted_def utf8_segs_ascii quote_rune_def ascii_def)

definition fallback_members :: "string \<Rightarrow> int \<Rightarrow> int \<Rightarrow> string \<Rightarrow> (string \<times> string) list" where
  "fallback_members name protocol playersMax description =
     [(''description'', description),
      (''players'', json_encode (JObject [(''max'', int_json playersMax), (''online'', int_json 0)])),
      (''version'', json_encode (JObject [(''name'', JString name), (''protocol'', int_json protocol)]))]"

lemma Marshal_status_members:
  "Marshal_status name protocol playersMax description = raw_object (fallback_members name protocol playersMax description)"
  by (simp add: Marshal_status_def fallback_members_def raw_object_def raw_member_def quoted_Marshal int_json_def)
    (simp add: quoted_def)

lemma fallback_members_ok:
  assumes "raw_ok (maxNestingDepth - 1) description"
  shows "\<forall>m \<in> set (fallback_members name protocol playersMax description).
    plain_name (fst m) \<and> raw_ok (maxNestingDepth - 1) (snd m)"
proof -
  have "encodable (maxNestingDepth - 1) (JObject [(k, v), (k', int_json i)])" if "encodable (maxNestingDepth - 2) v" for k v k' i
    using that by (simp add: maxNestingDepth_def)
  from this [of "int_json _"] this [of "JString _"] show ?thesis
    using assms quoted_names by (simp add: fallback_members_def raw_ok_encode del: json_encode.simps)
qed

lemma ExtractMOTD_raw: "ExtractMOTD j = Some motd \<Longrightarrow> json_skip (maxNestingDepth - 1) motd = Some [] \<and> motd \<noteq> []"
  using Unmarshal_raw [of j _ "''description''" motd] by (auto simp: ExtractMOTD_def split: option.splits if_splits)

text \<open>
  C28: The document that stands in for an unreachable backend is sound whatever that backend once sent: for every
  message that was found in a status document, building the fallback succeeds, its text is a JSON
  document, and a reader finds in it the same message, compacted, and the asking client's protocol version.
\<close>

theorem fallback_document_is_sound:
  assumes "ExtractMOTD statusJSON = Some motd"
  shows "\<exists>doc ms. BuildFallbackStatusWithOptions v motd options = Some (BuildStatusResponse doc)
    \<and> json_Valid doc \<and> Unmarshal_raw_map doc = Some ms \<and> ExtractMOTD doc = Some (compact False motd)
    \<and> raw_map_get ms ''version'' = Some (json_encode (JObject
        [(''name'', JString (if VersionName options = '''' then ''ciallo fallback'' else VersionName options)),
         (''protocol'', int_json (sint v))]))"
proof -
  note motd = ExtractMOTD_raw [OF assms]
  have "json_skip maxNestingDepth motd = Some []"
    using json_skip_depth [OF motd [THEN conjunct1]] by (simp add: maxNestingDepth_def)
  then have valid: "json_Valid motd"
    using json_skip_parts [of maxNestingDepth motd "[]"] solid_skip [of motd "[]"]
    by (auto elim!: partsE simp: json_Valid_def skip_ws_def)
  let ?name = "if VersionName options = '''' then ''ciallo fallback'' else VersionName options"
  let ?max = "if PlayersMax options < 0 then 0 else PlayersMax options"
  let ?ms = "fallback_members ?name (sint v) ?max (compact False motd)"
  let ?doc = "Marshal_status ?name (sint v) ?max (compact False motd)"
  have build: "BuildFallbackStatusWithOptions v motd options = Some (BuildStatusResponse ?doc)"
    using valid motd by (simp add: BuildFallbackStatusWithOptions_def Marshal_raw_def Let_def)
  have "?ms \<noteq> []" by (simp add: fallback_members_def)
  from raw_object_Unmarshal [OF this fallback_members_ok [OF raw_ok_compact [OF motd [THEN conjunct1]]]]
  have doc: "json_Valid ?doc" "Unmarshal_raw_map ?doc = Some ?ms" by (simp_all only: Marshal_status_members)
  have "compact False motd \<noteq> []" using raw_ok_compact [OF motd [THEN conjunct1]] by (simp add: raw_ok_def)
  then have "ExtractMOTD ?doc = Some (compact False motd)"
    unfolding ExtractMOTD_def doc(2) by (simp add: fallback_members_def raw_map_get_def del: json_encode.simps)
  moreover have "raw_map_get ?ms ''version'' = Some (json_encode (JObject [(''name'', JString ?name), (''protocol'', int_json (sint v))]))"
    by (simp add: fallback_members_def raw_map_get_def del: json_encode.simps)
  ultimately show ?thesis using build doc by blast
qed

theorem fallback_document_is_sound_witness:
  "\<exists>doc. BuildFallbackStatusWithOptions 767 (quoted ''<b>'') \<lparr>VersionName = '''', PlayersMax = 20\<rparr> = Some (BuildStatusResponse doc)
     \<and> json_Valid doc"
proof -
  have "ExtractMOTD (''{'' @ quoted ''description'' @ '': '' @ quoted ''<b>'' @ ''}'') = Some (quoted ''<b>'')"
    unfolding quoted_def by code_simp
  from fallback_document_is_sound [OF this] show ?thesis by blast
qed

end
