(* ===== verification/GoMap.thy ===== *)
theory GoMap
  imports Prelude "HOL-Library.AList"
begin

text \<open>
  Go maps as association lists without repeated keys.  Go leaves the order of
  \<^verbatim>\<open>range\<close> over a map unspecified; the model iterates in list order, and the
  statements about iterations are about sets, multisets or sorted results.
\<close>

type_synonym ('k, 'v) gomap = "('k \<times> 'v) list"

definition map_get :: "('k, 'v) gomap \<Rightarrow> 'k \<Rightarrow> 'v option" where
  "map_get m k = map_of m k"

definition map_set :: "('k, 'v) gomap \<Rightarrow> 'k \<Rightarrow> 'v \<Rightarrow> ('k, 'v) gomap" where
  "map_set m k v = AList.update k v m"

definition map_delete :: "('k, 'v) gomap \<Rightarrow> 'k \<Rightarrow> ('k, 'v) gomap" where
  "map_delete m k = AList.delete k m"

definition map_values :: "('k, 'v) gomap \<Rightarrow> 'v list" where
  "map_values m = map snd m"

definition map_ok :: "('k, 'v) gomap \<Rightarrow> bool" where
  "map_ok m \<longleftrightarrow> distinct (map fst m)"

lemma map_get_Nil [simp]: "map_get [] k = None"
  by (simp add: map_get_def)

lemma map_get_set: "map_get (map_set m k v) k' = (if k' = k then Some v else map_get m k')"
  by (simp add: map_get_def map_set_def update_conv')

lemma map_get_delete: "map_get (map_delete m k) k' = (if k' = k then None else map_get m k')"
  by (simp add: map_get_def map_delete_def delete_conv')

lemma map_get_set_same [simp]: "map_get (map_set m k v) k = Some v"
  by (simp add: map_get_set)

lemma map_get_set_other [simp]: "k' \<noteq> k \<Longrightarrow> map_get (map_set m k v) k' = map_get m k'"
  by (simp add: map_get_set)

lemma map_get_delete_same [simp]: "map_get (map_delete m k) k = None"
  by (simp add: map_get_delete)

lemma map_get_delete_other [simp]: "k' \<noteq> k \<Longrightarrow> map_get (map_delete m k) k' = map_get m k'"
  by (simp add: map_get_delete)

lemma map_ok_Nil [simp, intro]: "map_ok []"
  by (simp add: map_ok_def)

lemma map_ok_set [simp, intro]: "map_ok m \<Longrightarrow> map_ok (map_set m k v)"
  by (simp add: map_ok_def map_set_def distinct_update)

lemma map_ok_delete [simp, intro]: "map_ok m \<Longrightarrow> map_ok (map_delete m k)"
  by (simp add: map_ok_def map_delete_def distinct_delete)

lemma map_get_iff: "map_ok m \<Longrightarrow> map_get m k = Some v \<longleftrightarrow> (k, v) \<in> set m"
  by (simp add: map_ok_def map_get_def)

lemma map_get_in: "map_get m k = Some v \<Longrightarrow> (k, v) \<in> set m"
  by (simp add: map_get_def map_of_SomeD)

lemma map_get_None_iff: "map_get m k = None \<longleftrightarrow> k \<notin> fst ` set m"
  by (simp add: map_get_def map_of_eq_None_iff)

lemma map_set_not_Nil [simp]: "map_set m k v \<noteq> []"
  by (cases m) (auto simp: map_set_def)

text \<open>An invariant of the entries of a map is kept by storing an entry that has it.\<close>

definition map_all :: "('k \<Rightarrow> 'v \<Rightarrow> bool) \<Rightarrow> ('k, 'v) gomap \<Rightarrow> bool" where
  "map_all P m \<longleftrightarrow> (\<forall>k v. map_get m k = Some v \<longrightarrow> P k v)"

lemma map_all_Nil [simp]: "map_all P []"
  by (simp add: map_all_def)

lemma map_all_set: "map_all P m \<Longrightarrow> P k v \<Longrightarrow> map_all P (map_set m k v)"
  by (simp add: map_all_def map_get_set)

lemma map_all_delete: "map_all P m \<Longrightarrow> map_all P (map_delete m k)"
  by (simp add: map_all_def map_get_delete)

lemma map_allD: "map_all P m \<Longrightarrow> map_get m k = Some v \<Longrightarrow> P k v"
  by (simp add: map_all_def)

end
