(* ===== verification/Machines.thy ===== *)
theory Machines
  imports Main
begin

text \<open>
  Two interfaces that several components share.  An \<open>invariant_machine\<close> is a component
  whose operations, on admissible arguments, all keep an invariant.  A \<open>keyed_machine\<close> is a component whose state is
  a family of entries, one for each key, where an operation reads and writes the entry of its
  own key only; what a key's entry becomes then depends on the operations on that key alone,
  however they are interleaved with the operations of other connections.
\<close>

definition run :: "('op \<Rightarrow> 's \<Rightarrow> 's) \<Rightarrow> 'op list \<Rightarrow> 's \<Rightarrow> 's" where
  "run step ops s = fold step ops s"

lemma run_Nil [simp]: "run step [] s = s"
  by (simp add: run_def)

lemma run_Cons [simp]: "run step (x # ops) s = run step ops (step x s)"
  by (simp add: run_def)

lemma run_append [simp]: "run step (ops @ ops') s = run step ops' (run step ops s)"
  by (simp add: run_def)

locale invariant_machine =
  fixes step :: "'op \<Rightarrow> 's \<Rightarrow> 's"
    and ok_op :: "'op \<Rightarrow> bool"
    and inv :: "'s \<Rightarrow> bool"
  assumes inv_step: "inv s \<Longrightarrow> ok_op x \<Longrightarrow> inv (step x s)"
begin

lemma inv_run: "inv s \<Longrightarrow> list_all ok_op ops \<Longrightarrow> inv (run step ops s)"
  by (induction ops arbitrary: s) (auto intro: inv_step)

lemma inv_every_prefix: "inv s \<Longrightarrow> list_all ok_op ops \<Longrightarrow> inv (run step (take n ops) s)"
  by (rule inv_run) (auto simp: list_all_iff dest: in_set_takeD)

end

locale keyed_machine =
  fixes step :: "'op \<Rightarrow> 's \<Rightarrow> 's"
    and key_of :: "'op \<Rightarrow> 'k"
    and view :: "'s \<Rightarrow> 'k \<Rightarrow> 'v"
  assumes other_key: "key_of x \<noteq> k \<Longrightarrow> view (step x s) k = view s k"
    and same_key: "view s (key_of x) = view s' (key_of x) \<Longrightarrow>
      view (step x s) (key_of x) = view (step x s') (key_of x)"
begin

lemma view_step_cong: "view s k = view s' k \<Longrightarrow> view (step x s) k = view (step x s') k"
  by (cases "key_of x = k") (auto simp: other_key dest: same_key)

lemma view_run_cong: "view s k = view s' k \<Longrightarrow> view (run step ops s) k = view (run step ops s') k"
proof (induction ops arbitrary: s s')
  case (Cons x ops)
  from Cons.prems have "view (step x s) k = view (step x s') k" by (rule view_step_cong)
  then show ?case unfolding run_Cons by (rule Cons.IH)
qed simp

lemma view_run_projection:
  "view (run step ops s) k = view (run step (filter (\<lambda>x. key_of x = k) ops) s) k"
proof (induction ops arbitrary: s)
  case (Cons x ops)
  show ?case
  proof (cases "key_of x = k")
    case True
    then show ?thesis using Cons.IH by simp
  next
    case False
    then have "view (run step ops (step x s)) k = view (run step ops s) k"
      by (intro view_run_cong) (rule other_key)
    with False Cons.IH show ?thesis by simp
  qed
qed simp

lemma view_run_other: "\<forall>x \<in> set ops. key_of x \<noteq> k \<Longrightarrow> view (run step ops s) k = view s k"
  by (subst view_run_projection) (simp add: filter_empty_conv [THEN iffD2])

lemma view_run_interleaving:
  "filter (\<lambda>x. key_of x = k) ops = filter (\<lambda>x. key_of x = k) ops' \<Longrightarrow>
     view (run step ops s) k = view (run step ops' s) k"
  by (metis view_run_projection)

end

end
