(* ===== verification/Cache.thy ===== *)
theory Cache
  imports Status GoMap Machines
begin

text \<open>
  \<^verbatim>\<open>internal/cache/status_cache.go\<close>: status responses that are served again while
  fresh, and whose message of the day is kept longer for fallback documents.  The clock
  readings of an operation are arguments; \<open>GetFresh\<close> reads the clock twice.
\<close>

section \<open>Definitions\<close>

record cache_entry =
  ce_data :: "byte list"
  ce_motd :: string
  freshUntil :: Time
  staleUntil :: Time

record StatusCache =
  cache_entries :: "(string, cache_entry) gomap"

definition NewStatusCache :: StatusCache where
  "NewStatusCache = \<lparr>cache_entries = []\<rparr>"

definition extractMOTD :: "byte list \<Rightarrow> string" where
  "extractMOTD d =
     (case ReadPacket (bytes_NewReader d) MaxPacketLength of
        (Inl _, _) \<Rightarrow> []
      | (Inr packet, _) \<Rightarrow>
          (case ParseStatusJSON packet of
             Inl _ \<Rightarrow> []
           | Inr statusJSON \<Rightarrow> (case ExtractMOTD statusJSON of None \<Rightarrow> [] | Some motd \<Rightarrow> motd)))"

definition GetFresh :: "StatusCache \<Rightarrow> string \<Rightarrow> Time \<Rightarrow> Time \<Rightarrow> byte list option \<times> StatusCache" where
  "GetFresh c key now now2 =
     (case map_get (cache_entries c) key of
        None \<Rightarrow> (None, c)
      | Some item \<Rightarrow>
          if \<not> Before now (freshUntil item)
          then (None, if After now2 (staleUntil item)
                      then c\<lparr>cache_entries := map_delete (cache_entries c) key\<rparr> else c)
          else (Some (ce_data item), c))"

definition cache_Get :: "StatusCache \<Rightarrow> string \<Rightarrow> Time \<Rightarrow> Time \<Rightarrow> byte list option \<times> StatusCache" where
  "cache_Get c key now now2 = GetFresh c key now now2"

definition SetWithFallback ::
  "StatusCache \<Rightarrow> string \<Rightarrow> byte list \<Rightarrow> Duration \<Rightarrow> Duration \<Rightarrow> Time \<Rightarrow> StatusCache" where
  "SetWithFallback c key d ttl fallbackTTL now =
     (if ttl \<le> 0 then c
      else (let motd = extractMOTD d;
                stale = Add now ttl;
                stale = (if fallbackTTL > 0 then Add stale fallbackTTL else stale)
            in c\<lparr>cache_entries := map_set (cache_entries c) key
                   \<lparr>ce_data = d, ce_motd = motd, freshUntil = Add now ttl, staleUntil = stale\<rparr>\<rparr>))"

definition cache_Set :: "StatusCache \<Rightarrow> string \<Rightarrow> byte list \<Rightarrow> Duration \<Rightarrow> Time \<Rightarrow> StatusCache" where
  "cache_Set c key d ttl now = SetWithFallback c key d ttl 0 now"

definition GetFallbackWithOptions ::
  "StatusCache \<Rightarrow> string \<Rightarrow> int32 \<Rightarrow> FallbackStatusOptions \<Rightarrow> Time \<Rightarrow> byte list option \<times> StatusCache" where
  "GetFallbackWithOptions c key protocolVersion options now =
     (case map_get (cache_entries c) key of
        None \<Rightarrow> (None, c)
      | Some item \<Rightarrow>
          if After now (staleUntil item) \<or> length (ce_motd item) = 0
          then (None, c\<lparr>cache_entries := map_delete (cache_entries c) key\<rparr>)
          else (case BuildFallbackStatusWithOptions protocolVersion (ce_motd item) options of
                  None \<Rightarrow> (None, c)
                | Some p \<Rightarrow> (Some (Raw p), c)))"

definition GetFallback :: "StatusCache \<Rightarrow> string \<Rightarrow> int32 \<Rightarrow> Time \<Rightarrow> byte list option \<times> StatusCache" where
  "GetFallback c key protocolVersion now =
     GetFallbackWithOptions c key protocolVersion \<lparr>VersionName = '''', PlayersMax = 0\<rparr> now"

section \<open>The operations as a machine over keys\<close>

datatype cache_op =
    Op_Get string Time Time
  | Op_GetFallback string int32 FallbackStatusOptions Time
  | Op_Set string "byte list" Duration Duration Time

primrec cache_step :: "cache_op \<Rightarrow> StatusCache \<Rightarrow> StatusCache" where
  "cache_step (Op_Get key now now2) c = snd (cache_Get c key now now2)"
| "cache_step (Op_GetFallback key v options now) c = snd (GetFallbackWithOptions c key v options now)"
| "cache_step (Op_Set key d ttl fallbackTTL now) c = SetWithFallback c key d ttl fallbackTTL now"

primrec cache_op_key :: "cache_op \<Rightarrow> string" where
  "cache_op_key (Op_Get key now now2) = key"
| "cache_op_key (Op_GetFallback key v options now) = key"
| "cache_op_key (Op_Set key d ttl fallbackTTL now) = key"

definition cache_view :: "StatusCache \<Rightarrow> string \<Rightarrow> cache_entry option" where
  "cache_view c key = map_get (cache_entries c) key"

lemmas cache_defs = cache_Get_def GetFresh_def GetFallbackWithOptions_def SetWithFallback_def Let_def

interpretation cache: keyed_machine cache_step cache_op_key cache_view
proof unfold_locales
  fix x c k
  assume "cache_op_key x \<noteq> k"
  then show "cache_view (cache_step x c) k = cache_view c k"
    by (cases x) (auto simp: cache_view_def cache_defs split: option.splits)
next
  fix x c c'
  assume "cache_view c (cache_op_key x) = cache_view c' (cache_op_key x)"
  then show "cache_view (cache_step x c) (cache_op_key x) = cache_view (cache_step x c') (cache_op_key x)"
    by (cases x) (auto simp: cache_view_def cache_defs split: option.splits)
qed

section \<open>Invariant\<close>

text \<open>
  An entry is fresh no longer than it can serve as fallback, and its message is the one in
  its data.
\<close>

definition cache_entry_ok :: "string \<Rightarrow> cache_entry \<Rightarrow> bool" where
  "cache_entry_ok key e \<longleftrightarrow> freshUntil e \<le> staleUntil e \<and> ce_motd e = extractMOTD (ce_data e)"

definition cache_inv :: "StatusCache \<Rightarrow> bool" where
  "cache_inv c \<longleftrightarrow> map_ok (cache_entries c) \<and> map_all cache_entry_ok (cache_entries c)"

lemma cache_inv_New [simp]: "cache_inv NewStatusCache"
  by (simp add: cache_inv_def NewStatusCache_def)

interpretation cache_machine: invariant_machine cache_step "\<lambda>_. True" cache_inv
proof unfold_locales
  fix c x
  assume "cache_inv c"
  then show "cache_inv (cache_step x c)"
    by (cases x)
      (auto simp: cache_inv_def cache_defs cache_entry_ok_def time_defs
        intro!: map_all_set map_all_delete split: option.splits)
qed

section \<open>Serving\<close>

lemma cache_Get_hit:
  "fst (cache_Get c key now now2) = Some d \<longleftrightarrow>
     (\<exists>e. cache_view c key = Some e \<and> now < freshUntil e \<and> ce_data e = d)"
  by (auto simp: cache_view_def cache_defs time_defs split: option.splits)

lemma cache_Get_unchanged:
  "fst (cache_Get c key now now2) = Some d \<Longrightarrow> snd (cache_Get c key now now2) = c"
  by (auto simp: cache_defs split: option.splits if_splits)

lemma cache_view_Set:
  "0 < ttl \<Longrightarrow> cache_view (SetWithFallback c key d ttl fallbackTTL now) key =
     Some \<lparr>ce_data = d, ce_motd = extractMOTD d, freshUntil = now + ttl,
           staleUntil = now + ttl + max 0 fallbackTTL\<rparr>"
  by (auto simp: cache_view_def SetWithFallback_def Let_def time_defs)

lemma GetFallback_hit:
  "fst (GetFallbackWithOptions c key v options now) = Some d \<longleftrightarrow>
     (\<exists>e p. cache_view c key = Some e \<and> now \<le> staleUntil e \<and> ce_motd e \<noteq> []
        \<and> BuildFallbackStatusWithOptions v (ce_motd e) options = Some p \<and> d = Raw p)"
  by (auto simp: cache_view_def GetFallbackWithOptions_def time_defs split: option.splits)

text \<open>A lookup drops an entry only when neither a fresh hit nor a fallback is possible any more.\<close>

lemma cache_Get_drops:
  assumes "cache_view c key = Some e" "cache_view (snd (cache_Get c key now now2)) key = None"
  shows "freshUntil e \<le> now \<and> staleUntil e < now2"
  using assms by (auto simp: cache_view_def cache_defs time_defs split: option.splits if_splits)

section \<open>Between looking and removing\<close>

text \<open>
  A lookup that finds a stale entry looks at it in one critical section and removes the key in another.
  \<open>found\<close> is what the first has seen, the cache is the one of the second; without an operation of another
  connection between the two they are \<open>GetFresh\<close> and \<open>GetFallbackWithOptions\<close>.
\<close>

definition GetFresh_finish :: "cache_entry option \<Rightarrow> StatusCache \<Rightarrow> string \<Rightarrow> Time \<Rightarrow> Time \<Rightarrow> byte list option \<times> StatusCache" where
  "GetFresh_finish found c key now now2 =
     (case found of
        None \<Rightarrow> (None, c)
      | Some item \<Rightarrow>
          if \<not> Before now (freshUntil item)
          then (None, if After now2 (staleUntil item)
                      then c\<lparr>cache_entries := map_delete (cache_entries c) key\<rparr> else c)
          else (Some (ce_data item), c))"

definition GetFallback_finish ::
  "cache_entry option \<Rightarrow> StatusCache \<Rightarrow> string \<Rightarrow> int32 \<Rightarrow> FallbackStatusOptions \<Rightarrow> Time \<Rightarrow> byte list option \<times> StatusCache" where
  "GetFallback_finish found c key protocolVersion options now =
     (case found of
        None \<Rightarrow> (None, c)
      | Some item \<Rightarrow>
          if After now (staleUntil item) \<or> length (ce_motd item) = 0
          then (None, c\<lparr>cache_entries := map_delete (cache_entries c) key\<rparr>)
          else (case BuildFallbackStatusWithOptions protocolVersion (ce_motd item) options of
                  None \<Rightarrow> (None, c)
                | Some p \<Rightarrow> (Some (Raw p), c)))"

lemmas finish_defs = GetFresh_finish_def GetFallback_finish_def

lemma lookup_sections:
  "GetFresh c key now now2 = GetFresh_finish (map_get (cache_entries c) key) c key now now2"
  "GetFallbackWithOptions c key v options now = GetFallback_finish (map_get (cache_entries c) key) c key v options now"
  by (simp_all add: GetFresh_def GetFallbackWithOptions_def finish_defs)

text \<open>Whatever happened between the two sections, the invariant holds and other keys are left alone.\<close>

lemma finish_sound:
  assumes "cache_inv c"
  shows "cache_inv (snd (GetFresh_finish found c key now now2))" "cache_inv (snd (GetFallback_finish found c key v options now))"
    and "k \<noteq> key \<Longrightarrow> cache_view (snd (GetFresh_finish found c key now now2)) k = cache_view c k"
    and "k \<noteq> key \<Longrightarrow> cache_view (snd (GetFallback_finish found c key v options now)) k = cache_view c k"
  using assms by (auto simp: finish_defs cache_inv_def cache_view_def intro!: map_all_delete split: option.splits)

text \<open>The removal takes what is there: an entry that another connection has stored in between is lost, fresh as it is.\<close>

lemma stored_between_is_lost:
  assumes "0 < ttl" "\<not> Before now (freshUntil item)" "After now2 (staleUntil item)"
  shows "cache_view (SetWithFallback c key d ttl fallbackTTL t) key \<noteq> None"
    and "cache_view (snd (GetFresh_finish (Some item) (SetWithFallback c key d ttl fallbackTTL t) key now now2)) key = None"
    and "cache_view (snd (GetFallback_finish (Some item) (SetWithFallback c key d ttl fallbackTTL t) key v options now2)) key = None"
  using assms by (simp_all add: finish_defs cache_view_def SetWithFallback_def Let_def)

section \<open>Properties\<close>

text \<open>
  C29: What a key is answered is decided by the last response stored for it and by its age, whatever went
  on before and whatever other connections do with other keys: while it is fresh it is served, byte for byte;
  after that its message of the day alone is served, in a document for the asking client's protocol version, exactly
  until the end of the fallback time; and the invariant of the cache holds.
\<close>

theorem cache_serves_by_age:
  assumes "0 < ttl" "\<forall>x \<in> set others. cache_op_key x \<noteq> key"
    and "c = run cache_step (earlier @ Op_Set key d ttl fallbackTTL now # others) NewStatusCache"
  shows "fst (cache_Get c key t t') = (if t < now + ttl then Some d else None)
    \<and> fst (GetFallbackWithOptions c key v options t) =
        (if t \<le> now + ttl + max 0 fallbackTTL \<and> extractMOTD d \<noteq> []
         then map_option Raw (BuildFallbackStatusWithOptions v (extractMOTD d) options) else None)
    \<and> cache_inv c"
proof -
  have "cache_inv c" unfolding assms(3) by (rule cache_machine.inv_run) (simp_all add: list_all_iff)
  moreover have "cache_view c key =
      Some \<lparr>ce_data = d, ce_motd = extractMOTD d, freshUntil = now + ttl, staleUntil = now + ttl + max 0 fallbackTTL\<rparr>"
    unfolding assms(3) run_append run_Cons cache.view_run_other [OF assms(2)] by (simp add: cache_view_Set [OF assms(1)])
  ultimately show ?thesis
    by (auto simp: cache_view_def cache_Get_def GetFresh_def GetFallbackWithOptions_def time_defs split: option.splits)
qed

theorem cache_serves_by_age_witness:
  "fst (cache_Get (run cache_step [Op_Set ''k'' [9] 5 0 90, Op_Set ''k'' [1, 2, 3] 10 0 100, Op_Get ''j'' 102 103] NewStatusCache)
     ''k'' 105 106) = Some [1, 2, 3]"
  using cache_serves_by_age [of 10 "[Op_Get ''j'' 102 103]" "''k''" _ "[Op_Set ''k'' [9] 5 0 90]" "[1, 2, 3]" 0 100 105 106]
  by simp

end
