(* ===== verification/Guard.thy ===== *)
theory Guard
  imports GoText GoMap Machines
begin

text \<open>
  \<^verbatim>\<open>internal/fail2ban/guard.go\<close>: failures are counted for a key of route, kind
  (\<^verbatim>\<open>ip\<close> or \<^verbatim>\<open>player\<close>) and value; enough of them within a window ban the key
  for a while.  The clock reading each operation takes is an argument.  The abstract
  specification keeps, for a key, the instants of the failures that count and the end of the
  ban, if any; the counters and the zero instants of the code refine it.
\<close>

section \<open>Definitions\<close>

record GuardOptions =
  fb_Enabled :: bool
  MaxFailures :: int
  Window :: Duration
  BanDuration :: Duration
  EarlyDisconnect :: Duration

record guard_key =
  key_route :: string
  key_kind :: string
  key_value :: string

record guard_entry =
  failures :: int
  windowStart :: Time
  bannedUntil :: Time

record Guard =
  guard_options :: GuardOptions
  guard_entries :: "(guard_key, guard_entry) gomap"

definition zero_guard_entry :: guard_entry where
  "zero_guard_entry = \<lparr>failures = 0, windowStart = zero_time, bannedUntil = zero_time\<rparr>"

definition normalize :: "string \<Rightarrow> string" where
  "normalize v = ToLower (TrimSpace v)"

definition NewGuard :: "GuardOptions \<Rightarrow> Guard" where
  "NewGuard opts =
     (let opts = (if MaxFailures opts \<le> 0 then opts\<lparr>MaxFailures := 5\<rparr> else opts);
          opts = (if Window opts \<le> 0 then opts\<lparr>Window := Minute\<rparr> else opts);
          opts = (if BanDuration opts \<le> 0 then opts\<lparr>BanDuration := 10 * Minute\<rparr> else opts);
          opts = (if EarlyDisconnect opts \<le> 0 then opts\<lparr>EarlyDisconnect := 5 * Second\<rparr> else opts)
      in \<lparr>guard_options = opts, guard_entries = []\<rparr>)"

definition Enabled :: "Guard \<Rightarrow> bool" where
  "Enabled g = fb_Enabled (guard_options g)"

definition guard_EarlyDisconnect :: "Guard \<Rightarrow> Duration" where
  "guard_EarlyDisconnect g = EarlyDisconnect (guard_options g)"

definition guard_key_of :: "string \<Rightarrow> string \<Rightarrow> string \<Rightarrow> guard_key" where
  "guard_key_of route kind v = \<lparr>key_route = route, key_kind = kind, key_value = normalize v\<rparr>"

definition IsBanned :: "Guard \<Rightarrow> Time \<Rightarrow> string \<Rightarrow> string \<Rightarrow> string \<Rightarrow> bool \<times> Guard" where
  "IsBanned g now route kind v =
     (if \<not> Enabled g \<or> normalize v = '''' then (False, g)
      else (let k = guard_key_of route kind v in
        case map_get (guard_entries g) k of
          None \<Rightarrow> (False, g)
        | Some item \<Rightarrow>
            if Before now (bannedUntil item) then (True, g)
            else if \<not> IsZero (bannedUntil item)
            then (False, g\<lparr>guard_entries := map_delete (guard_entries g) k\<rparr>)
            else (False, g)))"

definition RecordFailure :: "Guard \<Rightarrow> Time \<Rightarrow> string \<Rightarrow> string \<Rightarrow> string \<Rightarrow> bool \<times> Guard" where
  "RecordFailure g now route kind v =
     (if \<not> Enabled g \<or> normalize v = '''' then (False, g)
      else (let k = guard_key_of route kind v;
                item = (case map_get (guard_entries g) k of Some item \<Rightarrow> item | None \<Rightarrow> zero_guard_entry);
                item = (if IsZero (windowStart item) \<or> Sub now (windowStart item) > Window (guard_options g)
                        then item\<lparr>windowStart := now, failures := 0\<rparr> else item);
                item = item\<lparr>failures := failures item + 1\<rparr>;
                item = (if failures item \<ge> MaxFailures (guard_options g)
                        then item\<lparr>bannedUntil := Add now (BanDuration (guard_options g))\<rparr> else item)
            in (\<not> IsZero (bannedUntil item) \<and> Before now (bannedUntil item),
                g\<lparr>guard_entries := map_set (guard_entries g) k item\<rparr>)))"

definition RecordSuccess :: "Guard \<Rightarrow> string \<Rightarrow> string \<Rightarrow> string \<Rightarrow> Guard" where
  "RecordSuccess g route kind v =
     (if \<not> Enabled g \<or> normalize v = '''' then g
      else g\<lparr>guard_entries := map_delete (guard_entries g) (guard_key_of route kind v)\<rparr>)"

definition Unban :: "Guard \<Rightarrow> string \<Rightarrow> string \<Rightarrow> string \<Rightarrow> bool \<times> Guard" where
  "Unban g route kind v =
     (if normalize v = '''' then (False, g)
      else (let k = guard_key_of route kind v in
            (map_get (guard_entries g) k \<noteq> None,
             g\<lparr>guard_entries := map_delete (guard_entries g) k\<rparr>)))"

record Ban =
  ban_Route :: string
  ban_Kind :: string
  ban_Value :: string
  ban_Failures :: int
  ban_BannedUntil :: Time

definition guard_Snapshot :: "Guard \<Rightarrow> Time \<Rightarrow> Ban list" where
  "guard_Snapshot g now =
     map (\<lambda>(k, item). \<lparr>ban_Route = key_route k, ban_Kind = key_kind k, ban_Value = key_value k,
                        ban_Failures = failures item, ban_BannedUntil = bannedUntil item\<rparr>)
       (filter (\<lambda>(k, item). \<not> (IsZero (bannedUntil item) \<or> \<not> Before now (bannedUntil item)))
          (guard_entries g))"

section \<open>The operations as a machine over keys\<close>

datatype guard_op =
    Op_IsBanned Time string string string
  | Op_RecordFailure Time string string string
  | Op_RecordSuccess string string string
  | Op_Unban string string string

primrec guard_step :: "guard_op \<Rightarrow> Guard \<Rightarrow> Guard" where
  "guard_step (Op_IsBanned now route kind v) g = snd (IsBanned g now route kind v)"
| "guard_step (Op_RecordFailure now route kind v) g = snd (RecordFailure g now route kind v)"
| "guard_step (Op_RecordSuccess route kind v) g = RecordSuccess g route kind v"
| "guard_step (Op_Unban route kind v) g = snd (Unban g route kind v)"

primrec guard_op_key :: "guard_op \<Rightarrow> guard_key" where
  "guard_op_key (Op_IsBanned now route kind v) = guard_key_of route kind v"
| "guard_op_key (Op_RecordFailure now route kind v) = guard_key_of route kind v"
| "guard_op_key (Op_RecordSuccess route kind v) = guard_key_of route kind v"
| "guard_op_key (Op_Unban route kind v) = guard_key_of route kind v"

primrec guard_op_ok :: "guard_op \<Rightarrow> bool" where
  "guard_op_ok (Op_IsBanned now route kind v) \<longleftrightarrow> 0 < now"
| "guard_op_ok (Op_RecordFailure now route kind v) \<longleftrightarrow> 0 < now"
| "guard_op_ok (Op_RecordSuccess route kind v) \<longleftrightarrow> True"
| "guard_op_ok (Op_Unban route kind v) \<longleftrightarrow> True"

definition guard_view :: "Guard \<Rightarrow> guard_key \<Rightarrow> GuardOptions \<times> guard_entry option" where
  "guard_view g k = (guard_options g, map_get (guard_entries g) k)"

lemmas guard_defs = IsBanned_def RecordFailure_def RecordSuccess_def Unban_def Let_def

lemma guard_step_options [frame, simp]: "guard_options (guard_step x g) = guard_options g"
  by (cases x) (auto simp: guard_defs split: option.splits)

lemma guard_ops_options [frame, simp]:
  "guard_options (snd (IsBanned g now route kind v)) = guard_options g"
  "guard_options (snd (RecordFailure g now route kind v)) = guard_options g"
  "guard_options (RecordSuccess g route kind v) = guard_options g"
  "guard_options (snd (Unban g route kind v)) = guard_options g"
  by (auto simp: guard_defs split: option.splits)

lemma Enabled_guard_ops [simp]:
  "Enabled (snd (IsBanned g now route kind v)) = Enabled g"
  "Enabled (snd (RecordFailure g now route kind v)) = Enabled g"
  "Enabled (RecordSuccess g route kind v) = Enabled g"
  "Enabled (snd (Unban g route kind v)) = Enabled g"
  by (simp_all add: Enabled_def)

interpretation guard: keyed_machine guard_step guard_op_key guard_view
proof unfold_locales
  fix x g k
  assume "guard_op_key x \<noteq> k"
  then show "guard_view (guard_step x g) k = guard_view g k"
    by (cases x) (auto simp: guard_view_def guard_defs split: option.splits)
next
  fix x g g'
  assume "guard_view g (guard_op_key x) = guard_view g' (guard_op_key x)"
  then show "guard_view (guard_step x g) (guard_op_key x) = guard_view (guard_step x g') (guard_op_key x)"
    by (cases x) (auto simp: guard_view_def guard_defs Enabled_def split: option.splits)
qed

section \<open>Invariant\<close>

definition guard_entry_ok :: "GuardOptions \<Rightarrow> guard_key \<Rightarrow> guard_entry \<Rightarrow> bool" where
  "guard_entry_ok opts k e \<longleftrightarrow> key_value k \<noteq> '''' \<and> 1 \<le> failures e \<and> 0 < windowStart e
     \<and> 0 \<le> bannedUntil e \<and> (MaxFailures opts \<le> failures e \<longrightarrow> 0 < bannedUntil e)"

definition guard_inv :: "Guard \<Rightarrow> bool" where
  "guard_inv g \<longleftrightarrow> map_ok (guard_entries g)
     \<and> 0 < MaxFailures (guard_options g) \<and> 0 < Window (guard_options g)
     \<and> 0 < BanDuration (guard_options g) \<and> 0 < EarlyDisconnect (guard_options g)
     \<and> map_all (guard_entry_ok (guard_options g)) (guard_entries g)"

lemma guard_inv_New: "guard_inv (NewGuard opts)"
  by (simp add: guard_inv_def NewGuard_def Let_def Minute_def Second_def Millisecond_def)

lemma guard_inv_delete: "guard_inv g \<Longrightarrow> guard_inv (g\<lparr>guard_entries := map_delete (guard_entries g) k\<rparr>)"
  by (simp add: guard_inv_def map_all_delete)

lemma guard_inv_RecordFailure: "guard_inv g \<Longrightarrow> 0 < now \<Longrightarrow> guard_inv (snd (RecordFailure g now route kind v))"
  by (cases "map_get (guard_entries g) (guard_key_of route kind v)")
    (auto simp: guard_inv_def RecordFailure_def Let_def guard_key_of_def zero_guard_entry_def time_defs
      guard_entry_ok_def intro!: map_all_set dest: map_allD)

interpretation guard_machine: invariant_machine guard_step guard_op_ok guard_inv
proof unfold_locales
  fix g x
  assume "guard_inv g" "guard_op_ok x"
  then show "guard_inv (guard_step x g)"
    by (cases x) (auto simp: IsBanned_def RecordSuccess_def Unban_def Let_def
        intro: guard_inv_RecordFailure guard_inv_delete split: option.splits)
qed

section \<open>Counting failures\<close>

text \<open>A run of failures of one key, none of them outside the window that the first one opens.\<close>

definition fail_run :: "Guard \<Rightarrow> string \<Rightarrow> string \<Rightarrow> string \<Rightarrow> Time list \<Rightarrow> Guard" where
  "fail_run g route kind v ts = fold (\<lambda>t g. snd (RecordFailure g t route kind v)) ts g"

lemma fail_run_entry:
  assumes "Enabled g" "normalize v \<noteq> ''''" "map_get (guard_entries g) (guard_key_of route kind v) = None"
    and "ts \<noteq> []" "\<forall>t \<in> set ts. 0 < t \<and> Sub t (hd ts) \<le> Window (guard_options g)"
  shows "guard_options (fail_run g route kind v ts) = guard_options g
    \<and> map_get (guard_entries (fail_run g route kind v ts)) (guard_key_of route kind v)
      = Some \<lparr>failures = int (length ts), windowStart = hd ts,
              bannedUntil = (if MaxFailures (guard_options g) \<le> int (length ts)
                             then last ts + BanDuration (guard_options g) else 0)\<rparr>"
  using assms(4,5)
proof (induction ts rule: rev_induct)
  case (snoc t ts)
  show ?case
  proof (cases "ts = []")
    case True
    with snoc.prems assms(1-3) show ?thesis
      by (simp add: fail_run_def RecordFailure_def Let_def zero_guard_entry_def time_defs)
  next
    case False
    let ?g = "fail_run g route kind v ts"
    have run: "fail_run g route kind v (ts @ [t]) = snd (RecordFailure ?g t route kind v)"
      by (simp add: fail_run_def)
    have IH: "guard_options ?g = guard_options g"
      "map_get (guard_entries ?g) (guard_key_of route kind v)
      = Some \<lparr>failures = int (length ts), windowStart = hd ts,
              bannedUntil = (if MaxFailures (guard_options g) \<le> int (length ts)
                             then last ts + BanDuration (guard_options g) else 0)\<rparr>"
      using snoc False by simp_all
    have "0 < hd ts" "Sub t (hd ts) \<le> Window (guard_options g)"
      using snoc.prems False by simp_all
    with IH False assms(1,2) show ?thesis
      by (simp add: run RecordFailure_def Let_def Enabled_def time_defs)
  qed
qed simp

section \<open>Refinement\<close>

text \<open>
  The specification of one key: the instants of the failures counted since the window opened,
  oldest first, and until when the key is banned.
\<close>

record ban_record =
  recent :: "Time list"
  until :: "Time option"

definition spec_failure :: "GuardOptions \<Rightarrow> Time \<Rightarrow> ban_record option \<Rightarrow> ban_record" where
  "spec_failure opts now r =
     (let old = (case r of Some b \<Rightarrow> if Sub now (hd (recent b)) > Window opts then [] else recent b | None \<Rightarrow> []);
          counted = old @ [now]
      in \<lparr>recent = counted,
          until = (if int (length counted) \<ge> MaxFailures opts then Some (now + BanDuration opts)
                   else case r of Some b \<Rightarrow> until b | None \<Rightarrow> None)\<rparr>)"

definition spec_banned :: "Time \<Rightarrow> ban_record option \<Rightarrow> bool" where
  "spec_banned now r \<longleftrightarrow> (\<exists>b t. r = Some b \<and> until b = Some t \<and> now < t)"

definition spec_query :: "Time \<Rightarrow> ban_record option \<Rightarrow> ban_record option" where
  "spec_query now r = (case r of
     Some b \<Rightarrow> (case until b of Some t \<Rightarrow> if now < t then r else None | None \<Rightarrow> r)
   | None \<Rightarrow> None)"

definition refines_entry :: "guard_entry \<Rightarrow> ban_record \<Rightarrow> bool" where
  "refines_entry e b \<longleftrightarrow> recent b \<noteq> [] \<and> failures e = int (length (recent b)) \<and> windowStart e = hd (recent b)
     \<and> 0 < hd (recent b) \<and> (case until b of None \<Rightarrow> bannedUntil e = 0 | Some t \<Rightarrow> 0 < t \<and> bannedUntil e = t)"

definition refines_key :: "guard_entry option \<Rightarrow> ban_record option \<Rightarrow> bool" where
  "refines_key = rel_option refines_entry"

lemma refines_keyE:
  assumes "refines_key e b"
  obtains "e = None" "b = None" | e' b' where "e = Some e'" "b = Some b'" "refines_entry e' b'"
  using assms by (cases e; cases b) (auto simp: refines_key_def)

lemma RecordFailure_refines:
  assumes "Enabled g" "normalize v \<noteq> ''''" "0 < now" "0 < BanDuration (guard_options g)"
    and "refines_key (map_get (guard_entries g) (guard_key_of route kind v)) b"
  shows "refines_key (map_get (guard_entries (snd (RecordFailure g now route kind v))) (guard_key_of route kind v))
      (Some (spec_failure (guard_options g) now b))
    \<and> fst (RecordFailure g now route kind v)
      = spec_banned now (Some (spec_failure (guard_options g) now b))"
  using assms(5)
proof (cases rule: refines_keyE)
  case 1
  with assms(1-4) show ?thesis
    by (simp add: RecordFailure_def Let_def spec_failure_def zero_guard_entry_def time_defs
        refines_key_def refines_entry_def spec_banned_def)
next
  case (2 e b')
  with assms(1-4) show ?thesis
    by (cases "until b'")
      (auto simp: RecordFailure_def Let_def spec_failure_def time_defs
        refines_key_def refines_entry_def spec_banned_def)
qed

lemma IsBanned_refines:
  assumes "Enabled g" "normalize v \<noteq> ''''" "0 < now"
    and "refines_key (map_get (guard_entries g) (guard_key_of route kind v)) b"
  shows "refines_key (map_get (guard_entries (snd (IsBanned g now route kind v))) (guard_key_of route kind v))
      (spec_query now b)
    \<and> fst (IsBanned g now route kind v) = spec_banned now b"
  using assms(4)
proof (cases rule: refines_keyE)
  case 1
  with assms(1-3) show ?thesis
    by (simp add: IsBanned_def Let_def spec_query_def spec_banned_def refines_key_def)
next
  case (2 e b')
  with assms(1-3) show ?thesis
    by (cases "until b'")
      (auto simp: IsBanned_def Let_def spec_query_def spec_banned_def refines_key_def refines_entry_def time_defs)
qed

section \<open>Snapshots\<close>

lemma guard_Snapshot_iff:
  assumes "guard_inv g" "0 < now"
  shows "(\<exists>b \<in> set (guard_Snapshot g now). ban_Route b = key_route k \<and> ban_Kind b = key_kind k \<and> ban_Value b = key_value k)
    \<longleftrightarrow> (\<exists>item. map_get (guard_entries g) k = Some item \<and> now < bannedUntil item)"
proof -
  have get: "map_get (guard_entries g) k = Some item \<longleftrightarrow> (k, item) \<in> set (guard_entries g)" for k item
    using assms(1) by (intro map_get_iff) (simp add: guard_inv_def)
  have eq: "key_route k' = key_route k \<and> key_kind k' = key_kind k \<and> key_value k' = key_value k \<longleftrightarrow> k' = k" for k'
    by (cases k, cases k') auto
  have "(\<exists>b \<in> set (guard_Snapshot g now). ban_Route b = key_route k \<and> ban_Kind b = key_kind k \<and> ban_Value b = key_value k)
    \<longleftrightarrow> (\<exists>k' item. (k', item) \<in> set (guard_entries g) \<and> now < bannedUntil item
          \<and> key_route k' = key_route k \<and> key_kind k' = key_kind k \<and> key_value k' = key_value k)"
    using assms(2) by (force simp: guard_Snapshot_def time_defs)
  then show ?thesis by (auto simp: eq get)
qed

lemma IsBanned_iff:
  "fst (IsBanned g now route kind v) \<longleftrightarrow> Enabled g \<and> normalize v \<noteq> '''' \<and>
     (\<exists>item. map_get (guard_entries g) (guard_key_of route kind v) = Some item \<and> now < bannedUntil item)"
  by (auto simp: IsBanned_def Let_def time_defs split: option.splits)

lemma IsBanned_view:
  "guard_view g (guard_key_of route kind v) = guard_view g' (guard_key_of route kind v) \<Longrightarrow>
     fst (IsBanned g now route kind v) = fst (IsBanned g' now route kind v)"
  by (simp add: IsBanned_iff guard_view_def Enabled_def)

section \<open>Properties\<close>

text \<open>
  C13: A key is banned exactly from its threshold-th failure on: after any number of failures within
  one window the key counts them all, it is banned from then on if and only if they are as many as
  the threshold, and the ban ends its duration after the last of them.
\<close>

theorem ban_at_threshold:
  assumes "Enabled g" "normalize v \<noteq> ''''" "map_get (guard_entries g) (guard_key_of route kind v) = None"
    and "ts \<noteq> []" "\<forall>t \<in> set ts. 0 < t \<and> Sub t (hd ts) \<le> Window (guard_options g)" "0 < now"
  shows "fst (IsBanned (fail_run g route kind v ts) now route kind v) \<longleftrightarrow>
    MaxFailures (guard_options g) \<le> int (length ts) \<and> now < last ts + BanDuration (guard_options g)"
  using fail_run_entry [OF assms(1-5)] assms(1,2,6) by (auto simp: IsBanned_iff Enabled_def)

theorem ban_at_threshold_witness:
  "fst (IsBanned (fail_run (NewGuard \<lparr>fb_Enabled = True, MaxFailures = 3, Window = 0, BanDuration = 0, EarlyDisconnect = 0\<rparr>)
     ''lobby'' ''ip'' ''10.1.2.3'' [1, 2, 3]) 4 ''lobby'' ''ip'' ''10.1.2.3'')"
proof -
  let ?opts = "\<lparr>fb_Enabled = True, MaxFailures = 3, Window = 0, BanDuration = 0, EarlyDisconnect = 0\<rparr>"
  have "normalize ''10.1.2.3'' = ''10.1.2.3''"
    by (simp add: normalize_def TrimSpace_none_ascii IsSpace_def ToLower_ascii lower_char_def ascii_lower_def char_of_eq_iff)
  then show ?thesis
    using ban_at_threshold [of "NewGuard ?opts" "''10.1.2.3''" "''lobby''" "''ip''" "[1, 2, 3]" 4]
    by (simp add: NewGuard_def Let_def Enabled_def Minute_def Second_def Millisecond_def Sub_def)
qed



text \<open>
  C14: Bans are isolated: whether an address or a player is banned on a route depends only on the
  operations on that route, kind and normalised value, not on how the operations of other
  connections interleave with them.
\<close>

theorem bans_are_isolated:
  assumes "filter (\<lambda>x. guard_op_key x = guard_key_of route kind v) ops
         = filter (\<lambda>x. guard_op_key x = guard_key_of route kind v) ops'"
  shows "fst (IsBanned (run guard_step ops g) now route kind v) = fst (IsBanned (run guard_step ops' g) now route kind v)"
  using guard.view_run_interleaving [OF assms] by (rule IsBanned_view)

theorem bans_are_isolated_witness:
  "let g = NewGuard \<lparr>fb_Enabled = True, MaxFailures = 1, Window = 0, BanDuration = 0, EarlyDisconnect = 0\<rparr> in
     fst (IsBanned (run guard_step [Op_RecordFailure 1 ''a'' ''ip'' ''x'', Op_RecordFailure 2 ''b'' ''ip'' ''x''] g) 3 ''a'' ''ip'' ''x'')
   = fst (IsBanned (run guard_step [Op_RecordFailure 1 ''a'' ''ip'' ''x''] g) 3 ''a'' ''ip'' ''x'')"
  unfolding Let_def
  by (rule bans_are_isolated) (simp add: guard_key_of_def)

text \<open>
  C15: The list of bans shown to the operator is the truth: after any operations at positive
  instants, a value is listed for a route and kind if and only if the guard would turn it
  away at that moment, and lifting the ban of a listed value succeeds.
\<close>

theorem snapshot_lists_the_banned:
  assumes "list_all guard_op_ok ops" "0 < now" "g = run guard_step ops (NewGuard opts)" "Enabled g" "normalize v \<noteq> []"
  shows "((\<exists>b \<in> set (guard_Snapshot g now). ban_Route b = route \<and> ban_Kind b = kind \<and> ban_Value b = normalize v)
      \<longleftrightarrow> fst (IsBanned g now route kind v))
    \<and> (fst (IsBanned g now route kind v) \<longrightarrow>
      fst (Unban g route kind v) \<and> \<not> fst (IsBanned (snd (Unban g route kind v)) now' route kind v))"
proof
  have "guard_inv g" using guard_machine.inv_run [OF guard_inv_New assms(1)] assms(3) by simp
  from guard_Snapshot_iff [OF this assms(2), of "guard_key_of route kind v"]
  show "(\<exists>b \<in> set (guard_Snapshot g now). ban_Route b = route \<and> ban_Kind b = kind \<and> ban_Value b = normalize v)
      \<longleftrightarrow> fst (IsBanned g now route kind v)"
    using assms(4,5) by (simp add: IsBanned_iff guard_key_of_def)
  show "fst (IsBanned g now route kind v) \<longrightarrow>
      fst (Unban g route kind v) \<and> \<not> fst (IsBanned (snd (Unban g route kind v)) now' route kind v)"
    using assms(5) by (auto simp: IsBanned_iff Unban_def Let_def)
qed

theorem snapshot_lists_the_banned_witness:
  "let g = run guard_step [Op_RecordFailure 5 ''r'' ''ip'' ''X'']
       (NewGuard \<lparr>fb_Enabled = True, MaxFailures = 1, Window = 0, BanDuration = 0, EarlyDisconnect = 0\<rparr>)
   in (\<exists>b \<in> set (guard_Snapshot g 6). ban_Route b = ''r'' \<and> ban_Kind b = ''ip'' \<and> ban_Value b = normalize ''X'')
      \<longleftrightarrow> fst (IsBanned g 6 ''r'' ''ip'' ''X'')"
proof -
  let ?opts = "\<lparr>fb_Enabled = True, MaxFailures = 1, Window = 0, BanDuration = 0, EarlyDisconnect = 0\<rparr>"
  have "normalize ''X'' \<noteq> []"
    by (simp add: normalize_def TrimSpace_none_ascii IsSpace_def ToLower_ascii)
  moreover have "Enabled (run guard_step [Op_RecordFailure 5 ''r'' ''ip'' ''X''] (NewGuard ?opts))"
    by (simp add: NewGuard_def Let_def Enabled_def)
  ultimately show ?thesis
    unfolding Let_def
    using snapshot_lists_the_banned [of "[Op_RecordFailure 5 ''r'' ''ip'' ''X'']" 6
        "run guard_step [Op_RecordFailure 5 ''r'' ''ip'' ''X''] (NewGuard ?opts)" ?opts "''X''" "''r''" "''ip''" 7]
    by simp
qed

text \<open>
  The window is opened by the first failure and does not move with the later ones: three
  failures within three seconds stay below a threshold of three when an older one had opened a
  window that ends between them.
\<close>

lemma window_does_not_roll:
  "fst (IsBanned (fail_run (NewGuard \<lparr>fb_Enabled = True, MaxFailures = 3, Window = 60 * Second, BanDuration = 0, EarlyDisconnect = 0\<rparr>)
     r k ''x'' [1 * Second, 60 * Second, 62 * Second, 63 * Second]) (64 * Second) r k ''x'') = False"
proof -
  have "normalize ''x'' = ''x''"
    by (simp add: normalize_def TrimSpace_none_ascii IsSpace_def ToLower_ascii lower_char_def ascii_lower_def char_of_eq_iff)
  then show ?thesis
    by (simp add: fail_run_def RecordFailure_def IsBanned_def NewGuard_def Let_def Enabled_def zero_guard_entry_def
        time_defs Sub_def Second_def Millisecond_def)
qed

end
