(* ===== verification/Metrics.thy ===== *)
theory Metrics
  imports GoText GoMap Machines "HOL-Library.Multiset"
begin

text \<open>
  \<^verbatim>\<open>internal/metrics/metrics.go\<close>: the counters of the proxy and their exposition in the
  Prometheus text format.  A counter is an \<open>int\<close>: the 2^63 increments that would make Go's
  \<^verbatim>\<open>int64\<close> wrap are out of reach.  The recorder's health source is another component; what
  it answers when the snapshot is taken is an argument of \<open>recorder_snapshot\<close>.
\<close>

section \<open>Definitions\<close>

record statusKey =
  sk_Route :: string
  sk_Backend :: string
  sk_CacheResult :: string
  sk_FallbackUsed :: string

record loginKey =
  lk_Route :: string
  lk_Backend :: string
  lk_Fail2BanAction :: string

record backendKey =
  bk_Route :: string
  bk_Backend :: string

record fail2banKey =
  fk_Route :: string
  fk_Kind :: string

record HealthBackend =
  hb_Backend :: string
  hb_Healthy :: bool
  hb_CircuitOpen :: bool
  hb_CheckSuccesses :: int
  hb_CheckFailures :: int
  hb_CircuitTrips :: int

record HealthSnapshot =
  hs_Enabled :: bool
  hs_Total :: int
  hs_Healthy :: int
  hs_Unhealthy :: int
  hs_Backends :: "HealthBackend list"

record Recorder =
  activeConnections :: int
  statusTotal :: "(statusKey, int) gomap"
  loginTotal :: "(loginKey, int) gomap"
  backendDialErrors :: "(backendKey, int) gomap"
  fail2banBlocks :: "(fail2banKey, int) gomap"
  statusBreakers :: "(string, int) gomap"
  has_health :: bool

definition NewRecorder :: Recorder where
  "NewRecorder = \<lparr>activeConnections = 0, statusTotal = [], loginTotal = [], backendDialErrors = [],
     fail2banBlocks = [], statusBreakers = [], has_health = False\<rparr>"

definition valueOrUnknown :: "string \<Rightarrow> string" where
  "valueOrUnknown v = (if TrimSpace v = '''' then ''unknown'' else v)"

text \<open>\<^verbatim>\<open>m[key]++\<close>: a missing key counts from zero.\<close>

definition counter :: "('k, int) gomap \<Rightarrow> 'k \<Rightarrow> int" where
  "counter m k = (case map_get m k of Some n \<Rightarrow> n | None \<Rightarrow> 0)"

definition map_inc :: "('k, int) gomap \<Rightarrow> 'k \<Rightarrow> ('k, int) gomap" where
  "map_inc m k = map_set m k (counter m k + 1)"

definition SetHealthSource :: "bool \<Rightarrow> Recorder \<Rightarrow> Recorder" where
  "SetHealthSource present r = r\<lparr>has_health := present\<rparr>"

definition IncActiveConnections :: "Recorder \<Rightarrow> Recorder" where
  "IncActiveConnections r = r\<lparr>activeConnections := activeConnections r + 1\<rparr>"

definition DecActiveConnections :: "Recorder \<Rightarrow> Recorder" where
  "DecActiveConnections r =
     (if activeConnections r > 0 then r\<lparr>activeConnections := activeConnections r - 1\<rparr> else r)"

definition RecordStatus :: "string \<Rightarrow> string \<Rightarrow> string \<Rightarrow> bool \<Rightarrow> Recorder \<Rightarrow> Recorder" where
  "RecordStatus route backend cacheResult fallbackUsed r =
     r\<lparr>statusTotal := map_inc (statusTotal r)
        \<lparr>sk_Route = route, sk_Backend = backend, sk_CacheResult = valueOrUnknown cacheResult,
         sk_FallbackUsed = FormatBool fallbackUsed\<rparr>\<rparr>"

definition RecordLogin :: "string \<Rightarrow> string \<Rightarrow> string \<Rightarrow> Recorder \<Rightarrow> Recorder" where
  "RecordLogin route backend action r =
     r\<lparr>loginTotal := map_inc (loginTotal r)
        \<lparr>lk_Route = route, lk_Backend = backend, lk_Fail2BanAction = valueOrUnknown action\<rparr>\<rparr>"

definition RecordBackendDialError :: "string \<Rightarrow> string \<Rightarrow> Recorder \<Rightarrow> Recorder" where
  "RecordBackendDialError route backend r =
     r\<lparr>backendDialErrors := map_inc (backendDialErrors r) \<lparr>bk_Route = route, bk_Backend = backend\<rparr>\<rparr>"

definition RecordFail2BanBlock :: "string \<Rightarrow> string \<Rightarrow> Recorder \<Rightarrow> Recorder" where
  "RecordFail2BanBlock route kind r =
     r\<lparr>fail2banBlocks := map_inc (fail2banBlocks r) \<lparr>fk_Route = route, fk_Kind = valueOrUnknown kind\<rparr>\<rparr>"

definition RecordStatusCircuitBreaker :: "string \<Rightarrow> Recorder \<Rightarrow> Recorder" where
  "RecordStatusCircuitBreaker backend r =
     r\<lparr>statusBreakers := map_inc (statusBreakers r) (valueOrUnknown backend)\<rparr>"

subsection \<open>Snapshots\<close>


record MetricsSnapshot =
  ms_ActiveConnections :: int
  ms_Status :: "(statusKey \<times> int) list"
  ms_Login :: "(loginKey \<times> int) list"
  ms_BackendDialErrors :: "(backendKey \<times> int) list"
  ms_Fail2BanBlocks :: "(fail2banKey \<times> int) list"
  ms_StatusBreakers :: "(string \<times> int) list"
  ms_Health :: HealthSnapshot

text \<open>A sample is the key of the counter and its value; the samples are sorted by the concatenated key.\<close>

definition sk_concat :: "statusKey \<Rightarrow> string" where
  "sk_concat k = sk_Route k @ sk_Backend k @ sk_CacheResult k @ sk_FallbackUsed k"

definition lk_concat :: "loginKey \<Rightarrow> string" where
  "lk_concat k = lk_Route k @ lk_Backend k @ lk_Fail2BanAction k"

definition bk_concat :: "backendKey \<Rightarrow> string" where
  "bk_concat k = bk_Route k @ bk_Backend k"

definition fk_concat :: "fail2banKey \<Rightarrow> string" where
  "fk_concat k = fk_Route k @ fk_Kind k"

definition zero_health :: HealthSnapshot where
  "zero_health = \<lparr>hs_Enabled = False, hs_Total = 0, hs_Healthy = 0, hs_Unhealthy = 0, hs_Backends = []\<rparr>"

definition recorder_snapshot :: "HealthSnapshot \<Rightarrow> Recorder \<Rightarrow> MetricsSnapshot" where
  "recorder_snapshot answer r =
     \<lparr>ms_ActiveConnections = activeConnections r,
      ms_Status = sort_key (sk_concat \<circ> fst) (statusTotal r),
      ms_Login = sort_key (lk_concat \<circ> fst) (loginTotal r),
      ms_BackendDialErrors = sort_key (bk_concat \<circ> fst) (backendDialErrors r),
      ms_Fail2BanBlocks = sort_key (fk_concat \<circ> fst) (fail2banBlocks r),
      ms_StatusBreakers = sort_key fst (statusBreakers r),
      ms_Health = (if has_health r then answer else zero_health)\<rparr>"

subsection \<open>Label values\<close>

text \<open>
  The regular expression matches runs of runes outside a set of ASCII characters.  Every byte
  of a multi-byte rune, and every byte that is not UTF-8, is outside it, so that a run of runes
  is a run of bytes.
\<close>

definition label_char :: "char \<Rightarrow> bool" where
  "label_char c \<longleftrightarrow>
     (CHR ''A'' \<le> c \<and> c \<le> CHR ''Z'') \<or> (CHR ''a'' \<le> c \<and> c \<le> CHR ''z'') \<or> (CHR ''0'' \<le> c \<and> c \<le> CHR ''9'')
     \<or> c \<in> set ''_.:/@-''"

function labelCleaner :: "string \<Rightarrow> string" where
  "labelCleaner [] = []"
| "labelCleaner (c # cs) =
     (if label_char c then c # labelCleaner cs
      else CHR ''_'' # labelCleaner (dropWhile (\<lambda>c. \<not> label_char c) cs))"
  by pat_completeness auto
termination
  by (relation "measure length") (auto simp: less_Suc_eq_le length_dropWhile_le)

definition sanitizeLabelValue :: "string \<Rightarrow> string" where
  "sanitizeLabelValue v =
     (let v = TrimSpace v in
      if v = '''' then ''unknown''
      else (let v = labelCleaner v in if length v > 160 then take 160 v else v))"

definition label :: "string \<Rightarrow> string \<Rightarrow> string" where
  "label name v = name @ ''='' @ strconv_Quote (sanitizeLabelValue v)"

subsection \<open>Exposition\<close>

definition sample_line :: "string \<Rightarrow> string list \<Rightarrow> int \<Rightarrow> string" where
  "sample_line name labels v = name @ ''{'' @ join_with '','' labels @ ''} '' @ show_int v"

definition status_line :: "statusKey \<times> int \<Rightarrow> string" where
  "status_line = (\<lambda>(k, v). sample_line ''ciallo_status_requests_total''
     [label ''route'' (sk_Route k), label ''backend'' (sk_Backend k),
      label ''cache_result'' (sk_CacheResult k), label ''fallback_used'' (sk_FallbackUsed k)] v)"

definition login_line :: "loginKey \<times> int \<Rightarrow> string" where
  "login_line = (\<lambda>(k, v). sample_line ''ciallo_login_requests_total''
     [label ''route'' (lk_Route k), label ''backend'' (lk_Backend k),
      label ''fail2ban_action'' (lk_Fail2BanAction k)] v)"

definition dial_error_line :: "backendKey \<times> int \<Rightarrow> string" where
  "dial_error_line = (\<lambda>(k, v). sample_line ''ciallo_backend_dial_errors_total''
     [label ''route'' (bk_Route k), label ''backend'' (bk_Backend k)] v)"

definition block_line :: "fail2banKey \<times> int \<Rightarrow> string" where
  "block_line = (\<lambda>(k, v). sample_line ''ciallo_fail2ban_blocks_total''
     [label ''route'' (fk_Route k), label ''kind'' (fk_Kind k)] v)"

definition breaker_line :: "string \<times> int \<Rightarrow> string" where
  "breaker_line = (\<lambda>(b, v). sample_line ''ciallo_status_circuit_breaker_total'' [label ''backend'' b] v)"

definition health_line :: "HealthBackend \<Rightarrow> string" where
  "health_line b =
     (let state = (if \<not> hb_Healthy b \<or> hb_CircuitOpen b then ''unhealthy'' else ''healthy'')
      in ''ciallo_backend_health{'' @ label ''backend'' (hb_Backend b) @ '',state='' @ strconv_Quote state @ ''} 1'')"

definition check_lines :: "HealthBackend \<Rightarrow> string list" where
  "check_lines b =
     [''ciallo_backend_health_checks_total{'' @ label ''backend'' (hb_Backend b) @ '',result='' @
        strconv_Quote ''success'' @ ''} '' @ show_int (hb_CheckSuccesses b),
      ''ciallo_backend_health_checks_total{'' @ label ''backend'' (hb_Backend b) @ '',result='' @
        strconv_Quote ''failure'' @ ''} '' @ show_int (hb_CheckFailures b)]"

definition prometheus_lines :: "MetricsSnapshot \<Rightarrow> string list" where
  "prometheus_lines s =
     [''# HELP ciallo_active_connections Current active client connections.'',
      ''# TYPE ciallo_active_connections gauge'',
      ''ciallo_active_connections '' @ show_int (ms_ActiveConnections s),
      ''# HELP ciallo_status_requests_total Total status requests handled by the proxy.'',
      ''# TYPE ciallo_status_requests_total counter'']
     @ map status_line (ms_Status s)
     @ [''# HELP ciallo_login_requests_total Total login connections handled by the proxy.'',
        ''# TYPE ciallo_login_requests_total counter'']
     @ map login_line (ms_Login s)
     @ [''# HELP ciallo_backend_dial_errors_total Total backend dial failures.'',
        ''# TYPE ciallo_backend_dial_errors_total counter'']
     @ map dial_error_line (ms_BackendDialErrors s)
     @ [''# HELP ciallo_fail2ban_blocks_total Total fail2ban blocks.'',
        ''# TYPE ciallo_fail2ban_blocks_total counter'']
     @ map block_line (ms_Fail2BanBlocks s)
     @ [''# HELP ciallo_status_circuit_breaker_total Total status requests short-circuited because a backend is unhealthy.'',
        ''# TYPE ciallo_status_circuit_breaker_total counter'']
     @ map breaker_line (ms_StatusBreakers s)
     @ [''# HELP ciallo_backend_health Backend health state, 1 for current state.'',
        ''# TYPE ciallo_backend_health gauge'']
     @ map health_line (hs_Backends (ms_Health s))
     @ [''# HELP ciallo_backend_health_checks_total Total backend health checks.'',
        ''# TYPE ciallo_backend_health_checks_total counter'']
     @ concat (map check_lines (hs_Backends (ms_Health s)))"

definition WritePrometheus :: "HealthSnapshot \<Rightarrow> Recorder option \<Rightarrow> string" where
  "WritePrometheus answer r =
     (let r = (case r of Some r \<Rightarrow> r | None \<Rightarrow> NewRecorder)
      in join_with newline (prometheus_lines (recorder_snapshot answer r)) @ newline)"

section \<open>Label values\<close>

lemma label_char_underscore [simp]: "label_char (CHR ''_'')"
  by (simp add: label_char_def)

lemma labelCleaner_chars: "c \<in> set (labelCleaner s) \<Longrightarrow> label_char c"
  by (induction s rule: labelCleaner.induct) (auto split: if_splits)

lemma labelCleaner_id: "\<forall>c \<in> set s. label_char c \<Longrightarrow> labelCleaner s = s"
  by (induction s) simp_all

lemma labelCleaner_Nil [simp]: "labelCleaner s = [] \<longleftrightarrow> s = []"
  by (cases s) simp_all

lemma length_labelCleaner: "length (labelCleaner s) \<le> length s"
proof (induction s rule: labelCleaner.induct)
  case (2 c cs)
  then show ?case
    using length_dropWhile_le [of "\<lambda>c. \<not> label_char c" cs] by auto
qed simp

lemma label_char_code: "label_char c \<Longrightarrow> 45 \<le> (of_char c :: nat) \<and> (of_char c :: nat) < 123"
  by (auto simp: label_char_def less_eq_char_def)

lemma label_chars_ascii: "\<forall>c \<in> set s. label_char c \<Longrightarrow> ascii s"
  unfolding ascii_def list_all_iff using label_char_code by fastforce

lemma label_char_not_space: "label_char c \<Longrightarrow> \<not> IsSpace (of_char c)"
  by (auto simp: IsSpace_def dest: label_char_code)

section \<open>Histories of the counters\<close>

lemma counter_Nil [simp]: "counter [] k = 0"
  by (simp add: counter_def)

lemma counter_map_inc: "counter (map_inc m k) k' = counter m k' + (if k' = k then 1 else 0)"
  by (simp add: counter_def map_inc_def map_get_set)

lemma map_ok_map_inc [simp, intro]: "map_ok m \<Longrightarrow> map_ok (map_inc m k)"
  by (simp add: map_inc_def)

datatype metrics_op =
    OpInc
  | OpDec
  | OpStatus string string string bool
  | OpLogin string string string
  | OpDialError string string
  | OpBlock string string
  | OpBreaker string

primrec metrics_step :: "metrics_op \<Rightarrow> Recorder \<Rightarrow> Recorder" where
  "metrics_step OpInc r = IncActiveConnections r"
| "metrics_step OpDec r = DecActiveConnections r"
| "metrics_step (OpStatus route backend result fallback) r = RecordStatus route backend result fallback r"
| "metrics_step (OpLogin route backend action) r = RecordLogin route backend action r"
| "metrics_step (OpDialError route backend) r = RecordBackendDialError route backend r"
| "metrics_step (OpBlock route kind) r = RecordFail2BanBlock route kind r"
| "metrics_step (OpBreaker backend) r = RecordStatusCircuitBreaker backend r"

lemmas metrics_defs = IncActiveConnections_def DecActiveConnections_def RecordStatus_def RecordLogin_def
  RecordBackendDialError_def RecordFail2BanBlock_def RecordStatusCircuitBreaker_def SetHealthSource_def

text \<open>The keys a history has counted, family by family.\<close>

fun status_keys :: "metrics_op \<Rightarrow> statusKey list" where
  "status_keys (OpStatus route backend result fallback) =
     [\<lparr>sk_Route = route, sk_Backend = backend, sk_CacheResult = valueOrUnknown result,
       sk_FallbackUsed = FormatBool fallback\<rparr>]"
| "status_keys x = []"

fun login_keys :: "metrics_op \<Rightarrow> loginKey list" where
  "login_keys (OpLogin route backend action) =
     [\<lparr>lk_Route = route, lk_Backend = backend, lk_Fail2BanAction = valueOrUnknown action\<rparr>]"
| "login_keys x = []"

definition recorder_inv :: "Recorder \<Rightarrow> bool" where
  "recorder_inv r \<longleftrightarrow>
     0 \<le> activeConnections r \<and> map_ok (statusTotal r) \<and> map_ok (loginTotal r) \<and>
     map_ok (backendDialErrors r) \<and> map_ok (fail2banBlocks r) \<and> map_ok (statusBreakers r)"

interpretation recorder_machine: invariant_machine metrics_step "\<lambda>_. True" recorder_inv
proof unfold_locales
  fix r x
  assume "recorder_inv r"
  then show "recorder_inv (metrics_step x r)"
    by (cases x) (auto simp: recorder_inv_def metrics_defs)
qed

lemma recorder_inv_new: "recorder_inv NewRecorder"
  by (simp add: recorder_inv_def NewRecorder_def)

lemma recorder_inv_run: "recorder_inv (run metrics_step ops NewRecorder)"
  by (rule recorder_machine.inv_run) (simp_all add: recorder_inv_new list_all_iff)

lemma counter_status_step:
  "counter (statusTotal (metrics_step x r)) k = counter (statusTotal r) k + int (count_list (status_keys x) k)"
  by (cases x) (auto simp: metrics_defs counter_map_inc)

lemma counter_login_step:
  "counter (loginTotal (metrics_step x r)) k = counter (loginTotal r) k + int (count_list (login_keys x) k)"
  by (cases x) (auto simp: metrics_defs counter_map_inc)

lemma counter_status_run:
  "counter (statusTotal (run metrics_step ops r)) k
     = counter (statusTotal r) k + int (count_list (concat (map status_keys ops)) k)"
  by (induction ops arbitrary: r) (simp_all add: counter_status_step)

lemma counter_login_run:
  "counter (loginTotal (run metrics_step ops r)) k
     = counter (loginTotal r) k + int (count_list (concat (map login_keys ops)) k)"
  by (induction ops arbitrary: r) (simp_all add: counter_login_step)

text \<open>
  The gauge.  \<open>balance n ops\<close> is the number of connections open after a history in which no
  decrement comes without an increment before it.
\<close>

fun balance :: "nat \<Rightarrow> metrics_op list \<Rightarrow> nat option" where
  "balance n [] = Some n"
| "balance n (OpInc # ops) = balance (Suc n) ops"
| "balance n (OpDec # ops) = (case n of 0 \<Rightarrow> None | Suc m \<Rightarrow> balance m ops)"
| "balance n (_ # ops) = balance n ops"

lemma balance_active:
  "balance n ops = Some m \<Longrightarrow> activeConnections r = int n \<Longrightarrow> activeConnections (run metrics_step ops r) = int m"
  by (induction n ops arbitrary: r rule: balance.induct) (auto simp: metrics_defs split: nat.splits)

section \<open>The exposition\<close>

text \<open>No label and no line contains a line feed, so that the text splits back into its lines.\<close>

definition one_line :: "string \<Rightarrow> bool" where
  "one_line s \<longleftrightarrow> CHR 0x0A \<notin> set s"

lemma one_line_append [simp]: "one_line (s @ t) \<longleftrightarrow> one_line s \<and> one_line t"
  by (auto simp: one_line_def)

lemma one_line_Cons [simp]: "one_line (c # t) \<longleftrightarrow> c \<noteq> CHR 0x0A \<and> one_line t"
  by (auto simp: one_line_def)

lemma one_line_Nil [simp]: "one_line []"
  by (simp add: one_line_def)

lemma digit_char_not_newline: "n < 16 \<Longrightarrow> digit_char n \<noteq> CHR 0x0A"
proof
  assume "n < 16" "digit_char n = CHR 0x0A"
  then have "of_char (digit_char n) = (10 :: nat)" by simp
  with \<open>n < 16\<close> show False by (auto simp: digit_char_def split: if_splits)
qed

lemma one_line_quote [simp]: "one_line (strconv_Quote s)"
proof -
  have div_16: "of_char c div (16 :: nat) < 16" for c
    using of_char_less_256 [of c] by (simp add: less_mult_imp_div_less)
  have "one_line (quote_char c)" for c
    using digit_char_not_newline [of "of_char c div 16"] digit_char_not_newline [of "of_char c mod 16"] div_16 [of c]
    by (simp add: quote_char_def)
  then show ?thesis
    by (auto simp: strconv_Quote_def one_line_def)
qed

lemma one_line_show_int [simp]: "one_line (show_int i)"
  by (auto simp: one_line_def is_digit_def dest!: show_int_chars)

lemma one_line_join: "one_line sep \<Longrightarrow> \<forall>x \<in> set xs. one_line x \<Longrightarrow> one_line (join_with sep xs)"
  by (induction sep xs rule: join_with.induct) simp_all

lemma one_line_label [simp]: "one_line (name @ ''='' @ strconv_Quote s) \<longleftrightarrow> one_line name"
  by simp

lemma one_line_sample: "one_line name \<Longrightarrow> \<forall>l \<in> set labels. one_line l \<Longrightarrow> one_line (sample_line name labels v)"
  by (simp add: sample_line_def one_line_join)

lemma one_line_labels [simp]: "one_line (label name v) \<longleftrightarrow> one_line name"
  by (simp add: label_def)

lemma one_line_samples:
  "one_line (status_line s)" "one_line (login_line l)" "one_line (dial_error_line d)" "one_line (block_line b)"
  "one_line (breaker_line k)"
  by (simp_all add: status_line_def login_line_def dial_error_line_def block_line_def breaker_line_def
      split_beta one_line_sample)

lemma one_line_health: "one_line (health_line h)"
  by (simp add: health_line_def)

lemma one_line_checks: "list_all one_line (check_lines h)"
  by (simp add: check_lines_def)

lemma one_line_prometheus: "list_all one_line (prometheus_lines s)"
proof -
  have samples: "list_all one_line (map status_line ss)" "list_all one_line (map login_line ls)"
    "list_all one_line (map dial_error_line ds)" "list_all one_line (map block_line bs)"
    "list_all one_line (map breaker_line ks)" for ss ls ds bs ks
    by (simp_all add: list_all_iff one_line_samples)
  have health: "list_all one_line (map health_line hs)" for hs
    by (simp add: list_all_iff one_line_health)
  have checks: "list_all one_line (concat (map check_lines hs))" for hs
    using one_line_checks by (induction hs) simp_all
  show ?thesis
    unfolding prometheus_lines_def list_all_append list.pred_inject
    by (intro conjI TrueI samples health checks) (simp_all only: one_line_append one_line_show_int, simp_all add: one_line_def)
qed

primrec split_lines :: "string \<Rightarrow> string list" where
  "split_lines [] = [[]]"
| "split_lines (c # cs) =
     (if c = CHR 0x0A then [] # split_lines cs
      else (c # hd (split_lines cs)) # tl (split_lines cs))"

lemma split_lines_newline: "one_line x \<Longrightarrow> split_lines (x @ CHR 0x0A # s) = x # split_lines s"
  by (induction x) simp_all

lemma split_lines_join:
  "xs \<noteq> [] \<Longrightarrow> \<forall>x \<in> set xs. one_line x \<Longrightarrow> split_lines (join_with newline xs @ newline) = xs @ [[]]"
  by (induction newline xs rule: join_with.induct) (simp_all add: newline_def split_lines_newline)

text \<open>Every label value is made of harmless characters, so that quoting only adds the quotes.\<close>

lemma quote_label_char: "label_char c \<Longrightarrow> quote_char c = [c]"
proof -
  assume c: "label_char c"
  have "\<not> label_char (CHR 0x5C)" by (simp add: label_char_def less_eq_char_def)
  with c have "c \<noteq> CHR 0x5C" by blast
  moreover have "32 \<le> (of_char c :: nat)" "(of_char c :: nat) < 127" "(of_char c :: nat) \<noteq> 34"
    using label_char_code [OF c] by simp_all
  moreover from this have "c \<noteq> CHR 0x22" "c \<noteq> CHR 0x0A" "c \<noteq> CHR 0x0D" "c \<noteq> CHR 0x09" "c \<noteq> CHR 0x07"
      "c \<noteq> CHR 0x08" "c \<noteq> CHR 0x0C" "c \<noteq> CHR 0x0B"
    by auto
  ultimately show ?thesis by (simp add: quote_char_def)
qed

lemma quote_label_chars: "\<forall>c \<in> set s. label_char c \<Longrightarrow> strconv_Quote s = CHR 0x22 # s @ [CHR 0x22]"
  by (induction s) (simp_all add: strconv_Quote_def quote_label_char)

lemma unknown_chars: "\<forall>c \<in> set ''unknown''. label_char c"
  by (simp add: label_char_def less_eq_char_def)

lemma sanitize_chars: "c \<in> set (sanitizeLabelValue v) \<Longrightarrow> label_char c"
  using unknown_chars
  by (auto simp only: sanitizeLabelValue_def Let_def dest: in_set_takeD labelCleaner_chars split: if_splits)

lemma sanitize_bounds: "sanitizeLabelValue v \<noteq> [] \<and> length (sanitizeLabelValue v) \<le> 160"
  by (auto simp: sanitizeLabelValue_def Let_def)

text \<open>Distinct values may be shown as the same label.\<close>

lemma sanitize_merges: "sanitizeLabelValue ''a b'' = sanitizeLabelValue ''a_b''"
  by (simp add: sanitizeLabelValue_def TrimSpace_none_ascii IsSpace_def label_char_def)

lemma sanitize_id:
  assumes "\<forall>c \<in> set s. label_char c" "s \<noteq> []" "length s \<le> 160"
  shows "sanitizeLabelValue s = s"
proof -
  have "\<not> IsSpace (of_char (hd s))" "\<not> IsSpace (of_char (last s))"
    using assms by (simp_all add: label_char_not_space)
  then have "TrimSpace s = s"
    using TrimSpace_none_ascii [of s] label_chars_ascii [OF assms(1)] assms(2) by simp
  with assms show ?thesis by (simp add: sanitizeLabelValue_def labelCleaner_id)
qed

text \<open>A snapshot lists each counter once, in the order of the concatenated keys.\<close>

lemma snapshot_samples:
  "mset (ms_Status (recorder_snapshot answer r)) = mset (statusTotal r)"
  "mset (ms_Login (recorder_snapshot answer r)) = mset (loginTotal r)"
  "sorted (map (sk_concat \<circ> fst) (ms_Status (recorder_snapshot answer r)))"
  "sorted (map (lk_concat \<circ> fst) (ms_Login (recorder_snapshot answer r)))"
  by (simp_all only: recorder_snapshot_def MetricsSnapshot.simps mset_sort sorted_sort_key)

section \<open>Properties\<close>

text \<open>
  The counters are exact: after any history each status counter is the number of status requests
  recorded under its key and each login counter the number of logins, whatever else was
  recorded between, and the gauge of a balanced history is the number of connections still open.
\<close>

lemma counters_are_exact:
  "counter (statusTotal (run metrics_step ops NewRecorder)) k = int (count_list (concat (map status_keys ops)) k)
   \<and> counter (loginTotal (run metrics_step ops NewRecorder)) l = int (count_list (concat (map login_keys ops)) l)
   \<and> (case balance 0 ops of
        Some n \<Rightarrow> activeConnections (run metrics_step ops NewRecorder) = int n
      | None \<Rightarrow> 0 \<le> activeConnections (run metrics_step ops NewRecorder))"
proof -
  have "0 \<le> activeConnections (run metrics_step ops NewRecorder)"
    using recorder_inv_run [of ops] by (simp add: recorder_inv_def)
  then show ?thesis
    using balance_active [of 0 ops _ NewRecorder]
    by (auto simp: counter_status_run counter_login_run NewRecorder_def split: option.splits)
qed

text \<open>
  C31: A client cannot forge lines of the exposition: for every state of the recorder the text splits
  at its line feeds into exactly the intended lines, and every label value is at most 160
  characters of the harmless set, so that quoting leaves it as it is.
\<close>

theorem exposition_is_well_formed:
  "split_lines (WritePrometheus answer r) =
     prometheus_lines (recorder_snapshot answer (case r of Some r' \<Rightarrow> r' | None \<Rightarrow> NewRecorder)) @ [[]]
   \<and> (\<forall>c \<in> set (sanitizeLabelValue v). label_char c)
   \<and> length (sanitizeLabelValue v) \<le> 160
   \<and> label name v = name @ ''='' @ [CHR 0x22] @ sanitizeLabelValue v @ [CHR 0x22]
   \<and> sanitizeLabelValue (sanitizeLabelValue v) = sanitizeLabelValue v"
proof -
  have "prometheus_lines s \<noteq> []" for s by (simp add: prometheus_lines_def)
  then have "split_lines (join_with newline (prometheus_lines s) @ newline) = prometheus_lines s @ [[]]" for s
    using one_line_prometheus by (intro split_lines_join) (simp_all add: list_all_iff)
  moreover have chars: "\<forall>c \<in> set (sanitizeLabelValue v). label_char c" using sanitize_chars by blast
  ultimately show ?thesis
    using sanitize_bounds [of v] sanitize_id [OF chars] quote_label_chars [OF chars]
    by (simp add: WritePrometheus_def Let_def label_def)
qed

theorem exposition_is_well_formed_witness:
  "label ''host'' ''a b'' = ''host='' @ [CHR 0x22] @ sanitizeLabelValue ''a b'' @ [CHR 0x22]
   \<and> length (sanitizeLabelValue ''a b'') \<le> 160"
  using exposition_is_well_formed [of zero_health None "''a b''" "''host''"] by simp

end
