(* ===== verification/Health.thy ===== *)
theory Health
  imports Router GoMap Machines Metrics
begin

text \<open>
  \<^verbatim>\<open>internal/health/checker.go\<close>: consecutive results of the periodic probes decide whether a
  backend counts as healthy.  The probe itself is an argument (\<open>check\<close>), as in the code;
  every reading of the clock is an argument too.  A \<^verbatim>\<open>*Checker\<close> that is nil is \<open>None\<close>
  in the operations of the interface.
\<close>

section \<open>Definitions\<close>

record HealthOptions =
  hc_Enabled :: bool
  Interval :: Duration
  Timeout :: Duration
  FailureThreshold :: int
  SuccessThreshold :: int
  ProbeProtocol :: int32
  opt_ProbeHost :: string
  CircuitBreakerTTL :: Duration

record BackendTarget =
  tgt_Backend :: Backend
  tgt_ProbeHost :: string

record entry =
  Target :: BackendTarget
  Healthy :: bool
  ConsecutiveFails :: int
  ConsecutiveOKs :: int
  CircuitOpenUntil :: Time
  LastChecked :: Time
  LastError :: string
  CheckSuccesses :: int
  CheckFailures :: int
  CircuitTrips :: int

record Checker =
  health_options :: HealthOptions
  entries :: "(string, entry) gomap"

record BackendStatus =
  bs_Backend :: string
  bs_ProbeHost :: string
  bs_Healthy :: bool
  bs_CircuitOpen :: bool
  bs_CircuitOpenUntil :: Time
  bs_LastChecked :: Time
  bs_LastError :: string
  bs_ConsecutiveFails :: int
  bs_ConsecutiveOKs :: int
  bs_CheckSuccesses :: int
  bs_CheckFailures :: int
  bs_CircuitTrips :: int

record HealthCheckerSnapshot =
  snap_Enabled :: bool
  snap_Total :: int
  snap_Healthy :: int
  snap_Unhealthy :: int
  snap_Backends :: "BackendStatus list"

record HealthStatus =
  st_Healthy :: bool
  st_CircuitOpen :: bool

definition DefaultProtocolVersion :: int32 where
  "DefaultProtocolVersion = 772"

definition fallbackProbeHost :: "string \<Rightarrow> string \<Rightarrow> string" where
  "fallbackProbeHost configured backendAddr =
     (if configured \<noteq> '''' then configured
      else case SplitHostPort backendAddr of
        Inl e \<Rightarrow> backendAddr
      | Inr (host, port) \<Rightarrow> if host = '''' then backendAddr else host)"

definition errString :: "go_error option \<Rightarrow> string" where
  "errString err = (case err of None \<Rightarrow> '''' | Some e \<Rightarrow> Error e)"

definition new_entry :: "BackendTarget \<Rightarrow> entry" where
  "new_entry target =
     \<lparr>Target = target, Healthy = True, ConsecutiveFails = 0, ConsecutiveOKs = 0,
      CircuitOpenUntil = zero_time, LastChecked = zero_time, LastError = '''',
      CheckSuccesses = 0, CheckFailures = 0, CircuitTrips = 0\<rparr>"

definition health_defaults :: "HealthOptions \<Rightarrow> HealthOptions" where
  "health_defaults opts =
     (let opts = (if Interval opts = 0 then opts\<lparr>Interval := 10 * Second\<rparr> else opts);
          opts = (if Timeout opts = 0 then opts\<lparr>Timeout := 3 * Second\<rparr> else opts);
          opts = (if FailureThreshold opts = 0 then opts\<lparr>FailureThreshold := 2\<rparr> else opts);
          opts = (if SuccessThreshold opts = 0 then opts\<lparr>SuccessThreshold := 1\<rparr> else opts);
          opts = (if ProbeProtocol opts = 0 then opts\<lparr>ProbeProtocol := DefaultProtocolVersion\<rparr> else opts)
      in if CircuitBreakerTTL opts = 0 then opts\<lparr>CircuitBreakerTTL := 30 * Second\<rparr> else opts)"

definition add_target :: "string \<Rightarrow> (string, entry) gomap \<Rightarrow> BackendTarget \<Rightarrow> (string, entry) gomap" where
  "add_target probeHost m target =
     (let addr = Addr (tgt_Backend target) in
      if addr = '''' then m
      else (let target = (if tgt_ProbeHost target = ''''
                          then target\<lparr>tgt_ProbeHost := fallbackProbeHost probeHost addr\<rparr> else target)
            in if map_get m addr \<noteq> None then m else map_set m addr (new_entry target)))"

definition NewChecker :: "HealthOptions \<Rightarrow> BackendTarget list \<Rightarrow> Checker" where
  "NewChecker opts tgts =
     (let opts = health_defaults opts
      in \<lparr>health_options = opts, entries = foldl (add_target (opt_ProbeHost opts)) [] tgts\<rparr>)"

text \<open>\<^verbatim>\<open>BuildTargets\<close>: the targets so far and the index of each address in them.\<close>

definition build_add ::
  "string \<Rightarrow> BackendTarget list \<times> (string, nat) gomap \<Rightarrow> Backend \<Rightarrow> string \<Rightarrow> BackendTarget list \<times> (string, nat) gomap" where
  "build_add probeHost acc backend host =
     (let (tgts, seen) = acc in
      if Addr backend = '''' then acc
      else case map_get seen (Addr backend) of
        Some idx \<Rightarrow>
          if tgt_ProbeHost (tgts ! idx) = '''' \<and> host \<noteq> ''''
          then (tgts[idx := (tgts ! idx)\<lparr>tgt_ProbeHost := host\<rparr>], seen)
          else acc
      | None \<Rightarrow>
          (let host = (if host = '''' then probeHost else host)
           in (tgts @ [\<lparr>tgt_Backend = backend, tgt_ProbeHost = host\<rparr>],
               map_set seen (Addr backend) (length tgts))))"

definition route_host :: "Route \<Rightarrow> string" where
  "route_host route = (if length (Hosts route) > 0 then NormalizeHost (Hosts route ! 0) else '''')"

definition BuildTargets :: "Route list \<Rightarrow> Backend option \<Rightarrow> string \<Rightarrow> BackendTarget list" where
  "BuildTargets rs def probeHost =
     (let acc = foldl (\<lambda>acc route. build_add probeHost acc (RouteBackend route) (route_host route)) ([], []) rs;
          acc = (case def of None \<Rightarrow> acc | Some d \<Rightarrow> build_add probeHost acc d probeHost)
      in fst acc)"

subsection \<open>Recording results\<close>

definition entry_for :: "Checker \<Rightarrow> string \<Rightarrow> entry" where
  "entry_for c backend =
     (case map_get (entries c) backend of
        Some e \<Rightarrow> e
      | None \<Rightarrow> new_entry \<lparr>tgt_Backend = \<lparr>Name = backend, Addr = backend, StatusCacheFlag = None\<rparr>,
                            tgt_ProbeHost = ''''\<rparr>)"

definition checker_RecordFailure :: "Time \<Rightarrow> Time \<Rightarrow> string \<Rightarrow> go_error option \<Rightarrow> Checker \<Rightarrow> Checker" where
  "checker_RecordFailure now now' backend err c =
     (if \<not> hc_Enabled (health_options c) then c
      else (let e = entry_for c backend;
                e = e\<lparr>LastChecked := now, LastError := errString err,
                      ConsecutiveFails := ConsecutiveFails e + 1, ConsecutiveOKs := 0,
                      CheckFailures := CheckFailures e + 1\<rparr>;
                e = (if ConsecutiveFails e \<ge> FailureThreshold (health_options c)
                     then e\<lparr>Healthy := False,
                            CircuitOpenUntil := Add now' (CircuitBreakerTTL (health_options c)),
                            CircuitTrips := CircuitTrips e + 1\<rparr>
                     else e)
            in c\<lparr>entries := map_set (entries c) backend e\<rparr>))"

definition checker_RecordSuccess :: "Time \<Rightarrow> string \<Rightarrow> Checker \<Rightarrow> Checker" where
  "checker_RecordSuccess now backend c =
     (if \<not> hc_Enabled (health_options c) then c
      else (let e = entry_for c backend;
                e = e\<lparr>LastChecked := now, LastError := '''',
                      ConsecutiveOKs := ConsecutiveOKs e + 1, ConsecutiveFails := 0,
                      CheckSuccesses := CheckSuccesses e + 1\<rparr>;
                e = (if ConsecutiveOKs e \<ge> SuccessThreshold (health_options c)
                     then e\<lparr>Healthy := True, CircuitOpenUntil := zero_time\<rparr>
                     else e)
            in c\<lparr>entries := map_set (entries c) backend e\<rparr>))"

definition checker_targets :: "Checker \<Rightarrow> BackendTarget list" where
  "checker_targets c = sort_key (\<lambda>t. Addr (tgt_Backend t)) (map Target (map_values (entries c)))"

definition check_target ::
  "(BackendTarget \<Rightarrow> go_error option) \<Rightarrow> BackendTarget \<Rightarrow> Checker \<times> clock \<Rightarrow> Checker \<times> clock" where
  "check_target check target s =
     (let (c, clk) = s in
      case check target of
        Some err \<Rightarrow>
          (let (now, clk) = tick clk; (now', clk) = tick clk
           in (checker_RecordFailure now now' (Addr (tgt_Backend target)) (Some err) c, clk))
      | None \<Rightarrow>
          (let (now, clk) = tick clk
           in (checker_RecordSuccess now (Addr (tgt_Backend target)) c, clk)))"

definition CheckOnce :: "(BackendTarget \<Rightarrow> go_error option) \<Rightarrow> Checker \<Rightarrow> clock \<Rightarrow> Checker \<times> clock" where
  "CheckOnce check c clk =
     (if \<not> hc_Enabled (health_options c) then (c, clk)
      else fold (check_target check) (checker_targets c) (c, clk))"

text \<open>
  \<^verbatim>\<open>Run\<close>: a round of checks at the start and one for each tick until the context is done.  What the
  backends answer changes from round to round; \<open>None\<close> is a nil checker.
\<close>

datatype run_event = Ticked "BackendTarget \<Rightarrow> go_error option" | ContextIsDone

fun Run_loop :: "run_event list \<Rightarrow> Checker \<times> clock \<Rightarrow> Checker \<times> clock" where
  "Run_loop [] s = s"
| "Run_loop (ContextIsDone # events) s = s"
| "Run_loop (Ticked check # events) (c, clk) = Run_loop events (CheckOnce check c clk)"

definition checker_Run ::
  "(BackendTarget \<Rightarrow> go_error option) \<Rightarrow> run_event list \<Rightarrow> Checker option \<Rightarrow> clock \<Rightarrow> Checker option \<times> clock" where
  "checker_Run check events c clk =
     (case c of
        None \<Rightarrow> (None, clk)
      | Some c \<Rightarrow>
          if \<not> hc_Enabled (health_options c) then (Some c, clk)
          else (let (c, clk) = Run_loop events (CheckOnce check c clk) in (Some c, clk)))"

subsection \<open>Queries\<close>

definition statusLocked :: "Time \<Rightarrow> entry \<Rightarrow> BackendStatus" where
  "statusLocked now e =
     \<lparr>bs_Backend = Addr (tgt_Backend (Target e)), bs_ProbeHost = tgt_ProbeHost (Target e),
      bs_Healthy = Healthy e,
      bs_CircuitOpen = (\<not> IsZero (CircuitOpenUntil e) \<and> Before now (CircuitOpenUntil e)),
      bs_CircuitOpenUntil = CircuitOpenUntil e, bs_LastChecked = LastChecked e, bs_LastError = LastError e,
      bs_ConsecutiveFails = ConsecutiveFails e, bs_ConsecutiveOKs = ConsecutiveOKs e,
      bs_CheckSuccesses = CheckSuccesses e, bs_CheckFailures = CheckFailures e, bs_CircuitTrips = CircuitTrips e\<rparr>"

definition unknown_status :: "string \<Rightarrow> BackendStatus" where
  "unknown_status addr =
     \<lparr>bs_Backend = addr, bs_ProbeHost = '''', bs_Healthy = True, bs_CircuitOpen = False,
      bs_CircuitOpenUntil = zero_time, bs_LastChecked = zero_time, bs_LastError = '''',
      bs_ConsecutiveFails = 0, bs_ConsecutiveOKs = 0, bs_CheckSuccesses = 0, bs_CheckFailures = 0,
      bs_CircuitTrips = 0\<rparr>"

definition checker_BackendStatus :: "Checker option \<Rightarrow> Time \<Rightarrow> Backend \<Rightarrow> BackendStatus" where
  "checker_BackendStatus c now backend =
     (case c of
        None \<Rightarrow> unknown_status (Addr backend)
      | Some c \<Rightarrow>
          (case map_get (entries c) (Addr backend) of
             None \<Rightarrow> unknown_status (Addr backend)
           | Some e \<Rightarrow> statusLocked now e))"

definition checker_Status :: "Checker option \<Rightarrow> Time \<Rightarrow> Backend \<Rightarrow> HealthStatus" where
  "checker_Status c now backend =
     (let status = checker_BackendStatus c now backend
      in \<lparr>st_Healthy = bs_Healthy status, st_CircuitOpen = bs_CircuitOpen status\<rparr>)"

definition Unhealthy :: "Checker option \<Rightarrow> Time \<Rightarrow> Backend \<Rightarrow> bool" where
  "Unhealthy c now backend =
     (case c of
        None \<Rightarrow> False
      | Some c' \<Rightarrow>
          if \<not> hc_Enabled (health_options c') then False
          else (let status = checker_Status c now backend in \<not> st_Healthy status \<or> st_CircuitOpen status))"

text \<open>A snapshot reads the clock once for each entry; the reading is named by the entry's address.\<close>

definition snap_add :: "(string \<Rightarrow> Time) \<Rightarrow> HealthCheckerSnapshot \<Rightarrow> string \<times> entry \<Rightarrow> HealthCheckerSnapshot" where
  "snap_add now s ke =
     (let status = statusLocked (now (fst ke)) (snd ke);
          s = s\<lparr>snap_Backends := snap_Backends s @ [status], snap_Total := snap_Total s + 1\<rparr>
      in if bs_Healthy status \<and> \<not> bs_CircuitOpen status
         then s\<lparr>snap_Healthy := snap_Healthy s + 1\<rparr>
         else s\<lparr>snap_Unhealthy := snap_Unhealthy s + 1\<rparr>)"

definition checker_Snapshot :: "(string \<Rightarrow> Time) \<Rightarrow> Checker option \<Rightarrow> HealthCheckerSnapshot" where
  "checker_Snapshot now c =
     (case c of
        None \<Rightarrow> \<lparr>snap_Enabled = False, snap_Total = 0, snap_Healthy = 0, snap_Unhealthy = 0, snap_Backends = []\<rparr>
      | Some c \<Rightarrow>
          (let s = foldl (snap_add now)
              \<lparr>snap_Enabled = hc_Enabled (health_options c), snap_Total = 0, snap_Healthy = 0,
               snap_Unhealthy = 0, snap_Backends = []\<rparr> (entries c)
           in s\<lparr>snap_Backends := sort_key bs_Backend (snap_Backends s)\<rparr>))"

definition checker_MetricsSnapshot :: "(string \<Rightarrow> Time) \<Rightarrow> Checker option \<Rightarrow> HealthSnapshot" where
  "checker_MetricsSnapshot now c =
     (let s = checker_Snapshot now c
      in \<lparr>hs_Enabled = snap_Enabled s, hs_Total = snap_Total s, hs_Healthy = snap_Healthy s,
          hs_Unhealthy = snap_Unhealthy s,
          hs_Backends = map (\<lambda>b. \<lparr>hb_Backend = bs_Backend b, hb_Healthy = bs_Healthy b,
             hb_CircuitOpen = bs_CircuitOpen b, hb_CheckSuccesses = bs_CheckSuccesses b,
             hb_CheckFailures = bs_CheckFailures b, hb_CircuitTrips = bs_CircuitTrips b\<rparr>) (snap_Backends s)\<rparr>)"

section \<open>The checker as a machine over backends\<close>

datatype health_op = OpFailure Time Time string "go_error option" | OpSuccess Time string

primrec health_step :: "health_op \<Rightarrow> Checker \<Rightarrow> Checker" where
  "health_step (OpFailure now now' backend err) c = checker_RecordFailure now now' backend err c"
| "health_step (OpSuccess now backend) c = checker_RecordSuccess now backend c"

primrec health_op_key :: "health_op \<Rightarrow> string" where
  "health_op_key (OpFailure now now' backend err) = backend"
| "health_op_key (OpSuccess now backend) = backend"

primrec is_success :: "health_op \<Rightarrow> bool" where
  "is_success (OpFailure now now' backend err) \<longleftrightarrow> False"
| "is_success (OpSuccess now backend) \<longleftrightarrow> True"

definition checker_view :: "Checker \<Rightarrow> string \<Rightarrow> HealthOptions \<times> entry option" where
  "checker_view c k = (health_options c, map_get (entries c) k)"

lemmas health_defs = checker_RecordFailure_def checker_RecordSuccess_def entry_for_def Let_def

interpretation checker: keyed_machine health_step health_op_key checker_view
proof unfold_locales
  fix x k c
  assume "health_op_key x \<noteq> k"
  then show "checker_view (health_step x c) k = checker_view c k"
    by (cases x) (auto simp: checker_view_def health_defs)
next
  fix c x c'
  assume "checker_view c (health_op_key x) = checker_view c' (health_op_key x)"
  then show "checker_view (health_step x c) (health_op_key x) = checker_view (health_step x c') (health_op_key x)"
    by (cases x) (auto simp: checker_view_def health_defs)
qed

text \<open>
  The invariant of an entry: it is filed under its backend's address, its counters are not
  negative, at most one of the two streaks is running, and a healthy backend's circuit is
  closed.
\<close>

definition entry_inv :: "string \<Rightarrow> entry \<Rightarrow> bool" where
  "entry_inv k e \<longleftrightarrow>
     Addr (tgt_Backend (Target e)) = k \<and> 0 \<le> ConsecutiveFails e \<and> 0 \<le> ConsecutiveOKs e \<and>
     (ConsecutiveFails e = 0 \<or> ConsecutiveOKs e = 0) \<and>
     ConsecutiveFails e \<le> CheckFailures e \<and> ConsecutiveOKs e \<le> CheckSuccesses e \<and>
     (Healthy e \<longrightarrow> CircuitOpenUntil e = zero_time)"

definition checker_inv :: "Checker \<Rightarrow> bool" where
  "checker_inv c \<longleftrightarrow> map_ok (entries c) \<and> map_all entry_inv (entries c)"

lemma entry_inv_new: "Addr (tgt_Backend target) = k \<Longrightarrow> entry_inv k (new_entry target)"
  by (simp add: entry_inv_def new_entry_def)

lemma entry_inv_for: "checker_inv c \<Longrightarrow> entry_inv k (entry_for c k)"
  by (auto simp: entry_for_def checker_inv_def intro: entry_inv_new dest: map_allD split: option.splits)

lemma checker_inv_step: "checker_inv c \<Longrightarrow> checker_inv (health_step x c)"
  using entry_inv_for [of c "health_op_key x"]
  by (cases x)
    (auto simp: checker_inv_def checker_RecordFailure_def checker_RecordSuccess_def Let_def entry_inv_def
      intro!: map_all_set)

interpretation checker_machine: invariant_machine health_step "\<lambda>_. True" checker_inv
  by unfold_locales (rule checker_inv_step)

lemma checker_inv_add_target: "map_ok m \<and> map_all entry_inv m \<Longrightarrow>
    map_ok (add_target h m t) \<and> map_all entry_inv (add_target h m t)"
  by (auto simp: add_target_def Let_def intro!: map_all_set entry_inv_new)

lemma checker_inv_New: "checker_inv (NewChecker opts tgts)"
proof -
  have "map_ok (foldl (add_target h) m tgts) \<and> map_all entry_inv (foldl (add_target h) m tgts)"
    if "map_ok m \<and> map_all entry_inv m" for m h
    using that by (induction tgts arbitrary: m) (simp_all add: checker_inv_add_target)
  then show ?thesis by (simp add: checker_inv_def NewChecker_def Let_def)
qed

lemma checker_inv_run: "checker_inv (run health_step ops (NewChecker opts tgts))"
  by (rule checker_machine.inv_run) (simp_all add: checker_inv_New list_all_iff)

lemma health_options_step [simp]: "health_options (health_step x c) = health_options c"
  by (cases x) (simp_all add: health_defs)

lemma health_options_run [simp]: "health_options (run health_step ops c) = health_options c"
  by (induction ops arbitrary: c) simp_all

section \<open>Refinement of the threshold specification\<close>

text \<open>
  The specification reads the results of a backend's checks, newest first.  A run of failures
  as long as the failure threshold makes it unhealthy, a run of successes as long as the success
  threshold makes it healthy, anything else leaves it as it was.
\<close>

definition streak :: "bool \<Rightarrow> bool list \<Rightarrow> int" where
  "streak b h = int (length (takeWhile (\<lambda>x. x = b) h))"

fun spec_healthy :: "int \<Rightarrow> int \<Rightarrow> bool list \<Rightarrow> bool" where
  "spec_healthy ft st [] = True"
| "spec_healthy ft st (True # h) = (if streak True (True # h) \<ge> st then True else spec_healthy ft st h)"
| "spec_healthy ft st (False # h) = (if streak False (False # h) \<ge> ft then False else spec_healthy ft st h)"

definition matches :: "HealthOptions \<Rightarrow> bool list \<Rightarrow> entry \<Rightarrow> bool" where
  "matches opts h e \<longleftrightarrow>
     Healthy e = spec_healthy (FailureThreshold opts) (SuccessThreshold opts) h \<and>
     ConsecutiveFails e = streak False h \<and> ConsecutiveOKs e = streak True h"

lemma streak_simps [simp]:
  "streak b [] = 0" "streak b (b # h) = streak b h + 1" "b \<noteq> b' \<Longrightarrow> streak b (b' # h) = 0"
  by (simp_all add: streak_def)

lemma matches_new: "matches opts [] (new_entry t)"
  by (simp add: matches_def new_entry_def)

lemma entry_for_set: "entry_for (c\<lparr>entries := map_set m k e\<rparr>) k = e"
  by (simp add: entry_for_def)

lemma matches_step:
  assumes "hc_Enabled (health_options c)" "matches (health_options c) h (entry_for c (health_op_key x))"
  shows "matches (health_options c) (is_success x # h) (entry_for (health_step x c) (health_op_key x))"
  using assms
  by (cases x)
    (auto simp: matches_def checker_RecordFailure_def checker_RecordSuccess_def Let_def entry_for_set)

lemma matches_run:
  "hc_Enabled (health_options c) \<Longrightarrow> \<forall>x \<in> set ops. health_op_key x = k \<Longrightarrow>
   matches (health_options c) h (entry_for c k) \<Longrightarrow>
   matches (health_options c) (rev (map is_success ops) @ h) (entry_for (run health_step ops c) k)"
proof (induction ops arbitrary: c h)
  case (Cons x ops)
  from Cons.prems have "health_op_key x = k" by simp
  with Cons.prems matches_step [of c h x]
  have "matches (health_options (health_step x c)) (is_success x # h) (entry_for (health_step x c) k)"
    by simp
  with Cons.prems Cons.IH [of "health_step x c" "is_success x # h"] show ?case by simp
qed simp

definition outcomes :: "string \<Rightarrow> health_op list \<Rightarrow> bool list" where
  "outcomes k ops = rev (map is_success (filter (\<lambda>x. health_op_key x = k) ops))"

lemma entry_for_view: "entry_for c k = (case snd (checker_view c k) of
    Some e \<Rightarrow> e
  | None \<Rightarrow> new_entry \<lparr>tgt_Backend = \<lparr>Name = k, Addr = k, StatusCacheFlag = None\<rparr>, tgt_ProbeHost = ''''\<rparr>)"
  by (simp add: entry_for_def checker_view_def)

lemma New_entry_fresh: "\<exists>t. entry_for (NewChecker opts tgts) k = new_entry t"
proof -
  have "(\<forall>k e. map_get m k = Some e \<longrightarrow> (\<exists>t. e = new_entry t)) \<Longrightarrow>
      map_get (foldl (add_target h) m tgts) k = Some e \<Longrightarrow> \<exists>t. e = new_entry t" for m h k e
  proof (induction tgts arbitrary: m)
    case (Cons t tgts)
    from Cons.prems show ?case
      by (intro Cons.IH [of "add_target h m t"])
        (auto simp: add_target_def Let_def map_get_set split: if_splits)
  qed auto
  from this [of "[]"] show ?thesis
    by (auto simp: entry_for_def NewChecker_def Let_def split: option.splits)
qed

text \<open>Any history of the checker, restricted to one backend, is the specification's verdict on it.\<close>

lemma matches_New:
  assumes "hc_Enabled opts"
  shows "matches (health_defaults opts) (outcomes k ops) (entry_for (run health_step ops (NewChecker opts tgts)) k)"
proof -
  let ?c = "NewChecker opts tgts" and ?ops = "filter (\<lambda>x. health_op_key x = k) ops"
  have opts: "health_options ?c = health_defaults opts" by (simp add: NewChecker_def Let_def)
  have "matches (health_options ?c) (rev (map is_success ?ops) @ []) (entry_for (run health_step ?ops ?c) k)"
    using assms New_entry_fresh [of opts tgts k]
    by (intro matches_run) (auto simp: opts matches_new health_defaults_def Let_def)
  moreover have "entry_for (run health_step ?ops ?c) k = entry_for (run health_step ops ?c) k"
    unfolding entry_for_view by (simp add: checker.view_run_projection [of ops ?c k])
  ultimately show ?thesis by (simp add: opts outcomes_def)
qed

text \<open>The circuit never matters beside the health flag.\<close>

lemma Unhealthy_iff:
  assumes "checker_inv c" "hc_Enabled (health_options c)"
  shows "Unhealthy (Some c) now b \<longleftrightarrow> \<not> Healthy (entry_for c (Addr b))"
proof (cases "map_get (entries c) (Addr b)")
  case None
  then show ?thesis using assms(2)
    by (simp add: Unhealthy_def checker_Status_def checker_BackendStatus_def unknown_status_def entry_for_def new_entry_def)
next
  case (Some e)
  with assms(1) have "entry_inv (Addr b) e" by (auto simp: checker_inv_def dest: map_allD)
  with Some assms(2) show ?thesis
    by (auto simp: Unhealthy_def checker_Status_def checker_BackendStatus_def statusLocked_def entry_for_def
        entry_inv_def Let_def IsZero_def)
qed

text \<open>With the default success threshold the verdict is the length of the running streak.\<close>

lemma spec_healthy_streak: "0 < ft \<Longrightarrow> st \<le> 1 \<Longrightarrow> spec_healthy ft st h \<longleftrightarrow> streak False h < ft"
proof (induction ft st h rule: spec_healthy.induct)
  case (2 ft st h)
  have "0 \<le> streak True h" by (simp add: streak_def)
  with 2 show ?case by simp
qed auto

section \<open>Snapshots\<close>

text \<open>The counting loop of \<^verbatim>\<open>Snapshot\<close> as list functions.\<close>

definition snapshot_statuses :: "(string \<Rightarrow> Time) \<Rightarrow> Checker \<Rightarrow> BackendStatus list" where
  "snapshot_statuses now c = map (\<lambda>(k, e). statusLocked (now k) e) (entries c)"

definition up :: "BackendStatus \<Rightarrow> bool" where
  "up s \<longleftrightarrow> bs_Healthy s \<and> \<not> bs_CircuitOpen s"

lemma snapshot_loop:
  "foldl (snap_add now)
    \<lparr>snap_Enabled = en, snap_Total = t, snap_Healthy = h, snap_Unhealthy = u, snap_Backends = bs\<rparr> es
   = (let sts = map (\<lambda>(k, e). statusLocked (now k) e) es
      in \<lparr>snap_Enabled = en, snap_Total = t + int (length sts), snap_Healthy = h + int (length (filter up sts)),
          snap_Unhealthy = u + int (length (filter (\<lambda>s. \<not> up s) sts)), snap_Backends = bs @ sts\<rparr>)"
proof (induction es arbitrary: t h u bs)
  case (Cons x es)
  then show ?case
    by (cases x) (simp add: snap_add_def Let_def up_def)
qed simp

lemma checker_Snapshot_eq:
  "checker_Snapshot now (Some c) =
     (let sts = snapshot_statuses now c
      in \<lparr>snap_Enabled = hc_Enabled (health_options c), snap_Total = int (length sts),
          snap_Healthy = int (length (filter up sts)),
          snap_Unhealthy = int (length (filter (\<lambda>s. \<not> up s) sts)),
          snap_Backends = sort_key bs_Backend sts\<rparr>)"
  unfolding checker_Snapshot_def option.case snapshot_loop by (simp add: Let_def snapshot_statuses_def)

lemma snapshot_addresses:
  assumes "checker_inv c"
  shows "map bs_Backend (snapshot_statuses now c) = map fst (entries c)"
proof -
  have "bs_Backend (statusLocked (now k) e) = k" if "(k, e) \<in> set (entries c)" for k e
  proof -
    from assms that have "map_get (entries c) k = Some e"
      by (simp add: checker_inv_def map_get_iff)
    with assms have "entry_inv k e" by (auto simp: checker_inv_def dest: map_allD)
    then show ?thesis by (simp add: statusLocked_def entry_inv_def)
  qed
  then show ?thesis by (auto simp: snapshot_statuses_def)
qed

lemma filter_partition_length: "length (filter P xs) + length (filter (\<lambda>x. \<not> P x) xs) = length xs"
  by (induction xs) simp_all

lemma sort_key_distinct:
  assumes "distinct (map f xs)"
  shows "sorted_wrt (<) (map f (sort_key f xs))"
proof -
  have "mset (map f (sort_key f xs)) = mset (map f xs)" by (metis mset_map mset_sort)
  with assms have "distinct (map f (sort_key f xs))" by (metis mset_eq_imp_distinct_iff)
  then show ?thesis by (simp add: strict_sorted_iff)
qed

section \<open>A round of checks\<close>

text \<open>A round is one operation for each entry, in the order of the addresses.\<close>

definition round_op :: "(BackendTarget \<Rightarrow> go_error option) \<Rightarrow> BackendTarget \<Rightarrow> Time \<Rightarrow> Time \<Rightarrow> health_op" where
  "round_op check t now now' =
     (case check t of
        Some err \<Rightarrow> OpFailure now now' (Addr (tgt_Backend t)) (Some err)
      | None \<Rightarrow> OpSuccess now (Addr (tgt_Backend t)))"

lemma round_op_simps [simp]:
  "health_op_key (round_op check t now now') = Addr (tgt_Backend t)"
  "is_success (round_op check t now now') \<longleftrightarrow> check t = None"
  by (simp_all add: round_op_def split: option.splits)

lemma check_target_step:
  "\<exists>now now' clk'. check_target check t (c, clk) = (health_step (round_op check t now now') c, clk')"
  by (cases "check t") (auto simp: check_target_def round_op_def tick_def Let_def)

lemma check_targets_run:
  "\<exists>ops clk'. fold (check_target check) ts (c, clk) = (run health_step ops c, clk') \<and>
     map health_op_key ops = map (\<lambda>t. Addr (tgt_Backend t)) ts \<and>
     map is_success ops = map (\<lambda>t. check t = None) ts"
proof (induction ts arbitrary: c clk)
  case Nil
  show ?case by (auto intro!: exI [of _ "[]"])
next
  case (Cons t ts)
  obtain now now' clk' where step: "check_target check t (c, clk) = (health_step (round_op check t now now') c, clk')"
    using check_target_step by blast
  obtain ops clk'' where ops: "fold (check_target check) ts (health_step (round_op check t now now') c, clk')
        = (run health_step ops (health_step (round_op check t now now') c), clk'')"
    "map health_op_key ops = map (\<lambda>t. Addr (tgt_Backend t)) ts"
    "map is_success ops = map (\<lambda>t. check t = None) ts"
    using Cons.IH by blast
  with step show ?case by (intro exI [of _ "round_op check t now now' # ops"] exI [of _ clk'']) simp
qed

lemma checker_targets_addresses:
  assumes "checker_inv c"
  shows "distinct (map (\<lambda>t. Addr (tgt_Backend t)) (checker_targets c))"
    and "set (map (\<lambda>t. Addr (tgt_Backend t)) (checker_targets c)) = fst ` set (entries c)"
proof -
  have eq: "map (\<lambda>t. Addr (tgt_Backend t)) (map Target (map_values (entries c))) = map fst (entries c)"
    using snapshot_addresses [OF assms, of "\<lambda>_. 0"]
    by (simp add: snapshot_statuses_def map_values_def statusLocked_def split_beta comp_def)
  have "distinct (map (\<lambda>t. Addr (tgt_Backend t)) (map Target (map_values (entries c))))"
    using assms unfolding eq by (simp add: checker_inv_def map_ok_def)
  from sort_key_distinct [OF this] show "distinct (map (\<lambda>t. Addr (tgt_Backend t)) (checker_targets c))"
    by (simp add: checker_targets_def strict_sorted_iff)
  show "set (map (\<lambda>t. Addr (tgt_Backend t)) (checker_targets c)) = fst ` set (entries c)"
    using arg_cong [OF eq, of set] by (simp add: checker_targets_def image_image)
qed

section \<open>Targets\<close>

definition targets_ok :: "BackendTarget list \<times> (string, nat) gomap \<Rightarrow> bool" where
  "targets_ok acc \<longleftrightarrow>
     distinct (map (\<lambda>t. Addr (tgt_Backend t)) (fst acc)) \<and>
     (\<forall>t \<in> set (fst acc). Addr (tgt_Backend t) \<noteq> '''') \<and>
     (\<forall>a i. map_get (snd acc) a = Some i \<longleftrightarrow> i < length (fst acc) \<and> Addr (tgt_Backend (fst acc ! i)) = a)"

lemma list_update_map: "i < length xs \<Longrightarrow> f x = f (xs ! i) \<Longrightarrow> map f (xs[i := x]) = map f xs"
  by (metis list_update_id map_update)

lemma targets_ok_add:
  assumes "targets_ok (ts, seen)"
  shows "targets_ok (build_add probeHost (ts, seen) backend host)
    \<and> map (\<lambda>t. Addr (tgt_Backend t)) (fst (build_add probeHost (ts, seen) backend host))
      = map (\<lambda>t. Addr (tgt_Backend t)) ts
        @ (if Addr backend = '''' \<or> Addr backend \<in> set (map (\<lambda>t. Addr (tgt_Backend t)) ts) then [] else [Addr backend])"
proof -
  let ?addrs = "\<lambda>ts. map (\<lambda>t. Addr (tgt_Backend t)) ts"
  have idx: "map_get seen a = Some i \<longleftrightarrow> i < length ts \<and> Addr (tgt_Backend (ts ! i)) = a" for a i
    using assms by (simp add: targets_ok_def)
  consider (empty) "Addr backend = ''''" | (seen) i where "Addr backend \<noteq> ''''" "map_get seen (Addr backend) = Some i"
    | (new) "Addr backend \<noteq> ''''" "map_get seen (Addr backend) = None" by fastforce
  then show ?thesis
  proof cases
    case empty
    with assms show ?thesis by (simp add: build_add_def)
  next
    case (seen i)
    then have i: "i < length ts" "Addr (tgt_Backend (ts ! i)) = Addr backend" by (simp_all add: idx)
    let ?ts = "ts[i := (ts ! i)\<lparr>tgt_ProbeHost := host\<rparr>]"
    have addrs: "?addrs ?ts = ?addrs ts" using i(1) by (simp add: list_update_map)
    then have "set (?addrs ?ts) = set (?addrs ts)" by (rule arg_cong)
    then have nonempty: "\<forall>t \<in> set ?ts. Addr (tgt_Backend t) \<noteq> ''''"
      using assms i by (auto simp: targets_ok_def dest!: set_update_subset_insert [THEN subsetD])
    have nth: "j < length ts \<Longrightarrow> Addr (tgt_Backend (?ts ! j)) = Addr (tgt_Backend (ts ! j))" for j
      using arg_cong [OF addrs, of "\<lambda>xs. xs ! j"] by simp
    have ok: "targets_ok (?ts, seen)"
      using assms nonempty addrs nth by (auto simp: targets_ok_def)
    have "Addr backend \<in> set (?addrs ts)" using i by (metis length_map nth_map nth_mem)
    with seen assms ok addrs show ?thesis by (simp add: build_add_def)
  next
    case new
    have fresh: "i < length ts \<Longrightarrow> Addr (tgt_Backend (ts ! i)) \<noteq> Addr backend" for i
      using idx [of "Addr backend" i] new(2) by simp
    then have "Addr backend \<notin> set (?addrs ts)"
      by (metis (no_types, lifting) in_set_conv_nth length_map nth_map)
    with new fresh assms show ?thesis
      by (auto simp: build_add_def targets_ok_def map_get_set nth_append less_Suc_eq idx split: if_splits)
  qed
qed

text \<open>The backends a configuration names, in order: those of the routes, then the default.\<close>

definition named_backends :: "Route list \<Rightarrow> Backend option \<Rightarrow> Backend list" where
  "named_backends rs def = map RouteBackend rs @ (case def of None \<Rightarrow> [] | Some d \<Rightarrow> [d])"

definition build_all :: "string \<Rightarrow> (Backend \<times> string) list \<Rightarrow> BackendTarget list \<times> (string, nat) gomap \<Rightarrow>
    BackendTarget list \<times> (string, nat) gomap" where
  "build_all probeHost bs acc = foldl (\<lambda>acc (b, h). build_add probeHost acc b h) acc bs"

lemma BuildTargets_all:
  "BuildTargets rs def probeHost =
     fst (build_all probeHost (map (\<lambda>r. (RouteBackend r, route_host r)) rs
       @ (case def of None \<Rightarrow> [] | Some d \<Rightarrow> [(d, probeHost)])) ([], []))"
proof -
  have "foldl (\<lambda>acc (b, h). build_add probeHost acc b h) acc (map (\<lambda>r. (RouteBackend r, route_host r)) rs)
      = foldl (\<lambda>acc route. build_add probeHost acc (RouteBackend route) (route_host route)) acc rs" for acc
    by (induction rs arbitrary: acc) simp_all
  then show ?thesis
    by (simp add: BuildTargets_def build_all_def Let_def split: option.splits)
qed

lemma build_all_ok:
  "targets_ok acc \<Longrightarrow>
     targets_ok (build_all probeHost bs acc) \<and>
     set (map (\<lambda>t. Addr (tgt_Backend t)) (fst (build_all probeHost bs acc)))
       = set (map (\<lambda>t. Addr (tgt_Backend t)) (fst acc)) \<union> ({Addr b |b. b \<in> fst ` set bs} - {''''})"
proof (induction bs arbitrary: acc)
  case (Cons x bs)
  obtain b h where x: "x = (b, h)" by (cases x)
  obtain ts seen where acc: "acc = (ts, seen)" by (cases acc)
  note add = targets_ok_add [of ts seen probeHost b h, folded acc, OF Cons.prems]
  have "set (map (\<lambda>t. Addr (tgt_Backend t)) (fst (build_add probeHost acc b h)))
      = set (map (\<lambda>t. Addr (tgt_Backend t)) (fst acc)) \<union> ({Addr b} - {''''})"
    using arg_cong [OF add [THEN conjunct2], of set] by (auto simp: acc)
  moreover have "{Addr b |b. b \<in> fst ` set (x # bs)} = insert (Addr b) {Addr b |b. b \<in> fst ` set bs}"
    by (auto simp: x)
  moreover have "build_all probeHost (x # bs) acc = build_all probeHost bs (build_add probeHost acc b h)"
    by (simp add: build_all_def x)
  ultimately show ?case
    using Cons.IH [OF add [THEN conjunct1]] by auto
qed (simp add: build_all_def)

lemma BuildTargets_ok:
  "distinct (map (\<lambda>t. Addr (tgt_Backend t)) (BuildTargets rs def probeHost)) \<and>
   set (map (\<lambda>t. Addr (tgt_Backend t)) (BuildTargets rs def probeHost))
     = Addr ` set (named_backends rs def) - {''''}"
proof -
  have "targets_ok ([], [])" by (simp add: targets_ok_def)
  from build_all_ok [OF this, of probeHost "map (\<lambda>r. (RouteBackend r, route_host r)) rs
       @ (case def of None \<Rightarrow> [] | Some d \<Rightarrow> [(d, probeHost)])"]
  show ?thesis
    unfolding BuildTargets_all
    by (auto simp: targets_ok_def named_backends_def image_iff split: option.splits)
qed

section \<open>Rounds of checks\<close>

lemma matched_singleton:
  assumes "map key ops = map f ts" "map succ ops = map g ts" "distinct (map f ts)" "a \<in> set (map f ts)"
    and "\<forall>t \<in> set ts. f t = a \<longrightarrow> g t = ok"
  shows "map succ (filter (\<lambda>x. key x = a) ops) = [ok]"
  using assms
proof (induction ts arbitrary: ops)
  case (Cons t ts)
  from Cons.prems obtain x ops' where ops: "ops = x # ops'" by (cases ops) auto
  show ?case
  proof (cases "f t = a")
    case True
    have "set (map key ops') = set (map f ts)" using Cons.prems ops by (metis list.simps(9) list.inject)
    with True Cons.prems have "a \<notin> set (map key ops')" by auto
    then have "filter (\<lambda>x. key x = a) ops' = []" by (auto simp: filter_empty_conv)
    with True Cons.prems ops show ?thesis by auto
  next
    case False
    with Cons.prems have "a \<in> set (map f ts)" by auto
    with False Cons.prems ops Cons.IH [of ops'] show ?thesis by auto
  qed
qed simp

definition checks_as :: "string \<Rightarrow> bool \<Rightarrow> (BackendTarget \<Rightarrow> go_error option) \<Rightarrow> bool" where
  "checks_as a ok check \<longleftrightarrow> (\<forall>t. Addr (tgt_Backend t) = a \<longrightarrow> (check t = None) = ok)"

definition known :: "Checker \<Rightarrow> string \<Rightarrow> bool" where
  "known c a \<longleftrightarrow> map_get (entries c) a \<noteq> None"

lemma known_step: "known c a \<Longrightarrow> known (health_step x c) a"
  by (cases x) (auto simp: known_def health_defs map_get_set)

lemma known_run: "known c a \<Longrightarrow> known (run health_step ops c) a"
  by (induction ops arbitrary: c) (simp_all add: known_step)

lemma outcomes_append: "outcomes a (ops @ ops') = outcomes a ops' @ outcomes a ops"
  by (simp add: outcomes_def)

lemma round_outcome:
  assumes "checker_inv c" "hc_Enabled (health_options c)" "known c a" "checks_as a ok check"
  shows "\<exists>ops clk'. CheckOnce check c clk = (run health_step ops c, clk') \<and> outcomes a ops = [ok]"
proof -
  obtain ops clk' where ops: "fold (check_target check) (checker_targets c) (c, clk) = (run health_step ops c, clk')"
    "map health_op_key ops = map (\<lambda>t. Addr (tgt_Backend t)) (checker_targets c)"
    "map is_success ops = map (\<lambda>t. check t = None) (checker_targets c)"
    using check_targets_run by blast
  have "a \<in> fst ` set (entries c)" using assms(3) by (simp add: known_def map_get_None_iff)
  then have "map is_success (filter (\<lambda>x. health_op_key x = a) ops) = [ok]"
    using checker_targets_addresses [OF assms(1)] assms(4)
    by (intro matched_singleton [OF ops(2,3)]) (auto simp: checks_as_def)
  then have "outcomes a ops = [ok]" by (simp add: outcomes_def)
  with ops(1) assms(2) show ?thesis by (auto simp: CheckOnce_def)
qed

lemma rounds_outcome:
  assumes "checker_inv c" "hc_Enabled (health_options c)" "known c a" "list_all (checks_as a ok) checks"
  shows "\<exists>ops clk'. Run_loop (map Ticked checks) (c, clk) = (run health_step ops c, clk')
    \<and> outcomes a ops = replicate (length checks) ok"
  using assms
proof (induction checks arbitrary: c clk)
  case Nil
  then show ?case by (auto intro!: exI [of _ "[]"] simp: outcomes_def)
next
  case (Cons check checks)
  obtain ops clk1 where one: "CheckOnce check c clk = (run health_step ops c, clk1)" "outcomes a ops = [ok]"
    using round_outcome [OF Cons.prems(1-3), where ok = ok and check = check and clk = clk] Cons.prems(4) by auto
  have "checker_inv (run health_step ops c)"
    using Cons.prems(1) by (intro checker_machine.inv_run) (simp_all add: list_all_iff)
  then obtain ops' clk' where rest: "Run_loop (map Ticked checks) (run health_step ops c, clk1)
      = (run health_step ops' (run health_step ops c), clk')" "outcomes a ops' = replicate (length checks) ok"
    using Cons.IH [of "run health_step ops c" clk1] Cons.prems known_run by auto
  have "outcomes a (ops @ ops') = replicate (length (check # checks)) ok"
    using one rest by (simp add: outcomes_append replicate_append_same)
  with one rest show ?case by (intro exI [of _ "ops @ ops'"] exI [of _ clk']) simp
qed

lemma checker_Run_Some: "\<exists>c' clk'. checker_Run check events (Some c) clk = (Some c', clk')"
  by (simp add: checker_Run_def split: prod.split)

lemma spec_healthy_replicate:
  "0 < ft \<Longrightarrow> 0 < st \<Longrightarrow> spec_healthy ft st (replicate n False) \<longleftrightarrow> int n < ft"
  "spec_healthy ft st (replicate n True)"
proof -
  have run: "streak b (replicate n b) = int n" for n b by (induction n) simp_all
  have s: "streak False (False # replicate n False) = int (Suc n)" for n using run [of False "Suc n"] by simp
  show "0 < ft \<Longrightarrow> 0 < st \<Longrightarrow> spec_healthy ft st (replicate n False) \<longleftrightarrow> int n < ft"
    by (induction n) (simp_all add: run)
  show "spec_healthy ft st (replicate n True)" by (induction n) simp_all
qed

section \<open>Properties\<close>

text \<open>
  C22: The checker implements its specification for every history of checks of any number of backends:
  a backend counts as unhealthy exactly when the threshold specification, run over that backend's own
  results, says so, and with the default success threshold that is when its last checks, as
  many as the failure threshold, all failed.
\<close>

theorem health_follows_thresholds:
  assumes "hc_Enabled opts"
  shows "(Unhealthy (Some (run health_step ops (NewChecker opts tgts))) now b \<longleftrightarrow>
      \<not> spec_healthy (FailureThreshold (health_defaults opts)) (SuccessThreshold (health_defaults opts)) (outcomes (Addr b) ops))
    \<and> (0 < FailureThreshold (health_defaults opts) \<and> SuccessThreshold (health_defaults opts) = 1 \<longrightarrow>
      (Unhealthy (Some (run health_step ops (NewChecker opts tgts))) now b \<longleftrightarrow>
        FailureThreshold (health_defaults opts) \<le> streak False (outcomes (Addr b) ops)))"
proof -
  have "hc_Enabled (health_options (run health_step ops (NewChecker opts tgts)))"
    using assms by (simp add: NewChecker_def Let_def health_defaults_def)
  from Unhealthy_iff [OF checker_inv_run this] matches_New [OF assms, of "Addr b" ops tgts]
  have "Unhealthy (Some (run health_step ops (NewChecker opts tgts))) now b \<longleftrightarrow>
      \<not> spec_healthy (FailureThreshold (health_defaults opts)) (SuccessThreshold (health_defaults opts)) (outcomes (Addr b) ops)"
    by (simp add: matches_def)
  then show ?thesis by (auto simp: spec_healthy_streak)
qed

theorem health_follows_thresholds_witness:
  "Unhealthy (Some (run health_step [OpFailure 1 2 ''a:1'' None, OpSuccess 3 ''b:1'', OpFailure 4 5 ''a:1'' None]
      (NewChecker \<lparr>hc_Enabled = True, Interval = 0, Timeout = 0, FailureThreshold = 2, SuccessThreshold = 1,
         ProbeProtocol = 0, opt_ProbeHost = '''', CircuitBreakerTTL = 0\<rparr> [])))
    1000000 \<lparr>Name = '''', Addr = ''a:1'', StatusCacheFlag = None\<rparr>"
  using health_follows_thresholds [of "\<lparr>hc_Enabled = True, Interval = 0, Timeout = 0, FailureThreshold = 2, SuccessThreshold = 1,
         ProbeProtocol = 0, opt_ProbeHost = '''', CircuitBreakerTTL = 0\<rparr>"
      "[OpFailure 1 2 ''a:1'' None, OpSuccess 3 ''b:1'', OpFailure 4 5 ''a:1'' None]" "[]" 1000000
      "\<lparr>Name = '''', Addr = ''a:1'', StatusCacheFlag = None\<rparr>"]
  by (simp add: health_defaults_def Let_def outcomes_def)

text \<open>
  C24: A snapshot is complete and consistent: it lists every known backend once, in the order of the
  addresses, and its two totals are the numbers of backends that are up and that are not.
\<close>

theorem health_snapshot_consistent:
  assumes "c = run health_step ops (NewChecker opts tgts)" "s = checker_Snapshot now (Some c)"
  shows "sorted_wrt (<) (map bs_Backend (snap_Backends s))
    \<and> set (map bs_Backend (snap_Backends s)) = fst ` set (entries c)
    \<and> snap_Total s = int (length (snap_Backends s))
    \<and> snap_Healthy s = int (length (filter up (snap_Backends s)))
    \<and> snap_Healthy s + snap_Unhealthy s = snap_Total s"
proof -
  have inv: "checker_inv c" using checker_inv_run assms(1) by simp
  let ?sts = "snapshot_statuses now c"
  have s: "s = \<lparr>snap_Enabled = hc_Enabled (health_options c), snap_Total = int (length ?sts),
      snap_Healthy = int (length (filter up ?sts)), snap_Unhealthy = int (length (filter (\<lambda>s. \<not> up s) ?sts)),
      snap_Backends = sort_key bs_Backend ?sts\<rparr>"
    using assms(2) by (simp add: checker_Snapshot_eq Let_def)
  have "distinct (map bs_Backend ?sts)"
    using inv by (simp add: snapshot_addresses checker_inv_def map_ok_def)
  then have "sorted_wrt (<) (map bs_Backend (snap_Backends s))" using sort_key_distinct s by simp
  moreover have "set (map bs_Backend (snap_Backends s)) = fst ` set (entries c)"
    using arg_cong [OF snapshot_addresses [OF inv, of now], of set] by (simp add: s)
  moreover have "length (filter up (sort_key bs_Backend ?sts)) = length (filter up ?sts)"
    by (simp flip: size_mset)
  ultimately show ?thesis
    using filter_partition_length [of up ?sts] by (simp add: s)
qed

theorem health_snapshot_consistent_witness:
  "let opts = \<lparr>hc_Enabled = True, Interval = 0, Timeout = 0, FailureThreshold = 1, SuccessThreshold = 1,
       ProbeProtocol = 767, opt_ProbeHost = [], CircuitBreakerTTL = 0\<rparr>;
     s = checker_Snapshot (\<lambda>_. 9) (Some (run health_step [OpSuccess 1 ''a'', OpFailure 2 3 ''b'' None] (NewChecker opts [])))
   in sorted_wrt (<) (map bs_Backend (snap_Backends s)) \<and> snap_Healthy s + snap_Unhealthy s = snap_Total s"
  unfolding Let_def by (rule conjI) (use health_snapshot_consistent [OF refl refl] in blast)+

text \<open>
  C23: An outage is noticed: a backend that is known and fails every check counts as unhealthy exactly
  from the check with the number of the failure threshold on, whatever the other backends do; a backend
  that passes every check never does.
\<close>

theorem outage_is_noticed:
  assumes "hc_Enabled opts" "0 < FailureThreshold (health_defaults opts)" "0 < SuccessThreshold (health_defaults opts)"
    and "known (NewChecker opts tgts) (Addr b)" "list_all (checks_as (Addr b) ok) (check # checks)"
    and "checker_Run check (map Ticked checks @ events) (Some (NewChecker opts tgts)) clk = (Some c, clk')"
    and "events = [] \<or> hd events = ContextIsDone"
  shows "Unhealthy (Some c) now b \<longleftrightarrow> \<not> ok \<and> FailureThreshold (health_defaults opts) \<le> int (length checks) + 1"
proof -
  let ?c = "NewChecker opts tgts"
  have opts: "health_options ?c = health_defaults opts" "hc_Enabled (health_options ?c)"
    using assms(1) by (simp_all add: NewChecker_def Let_def health_defaults_def)
  have stop: "Run_loop (map Ticked cs @ events) s = Run_loop (map Ticked cs) s" for cs s
  proof (induction cs arbitrary: s)
    case Nil
    show ?case using assms(7) by (cases events) auto
  next
    case (Cons check cs)
    then show ?case by (cases s) simp
  qed
  have "Run_loop (map Ticked (check # checks)) (?c, clk) = (c, clk')"
    using assms(6) opts(2) by (simp add: checker_Run_def stop split: prod.splits)
  then obtain ops where ops: "c = run health_step ops ?c" "outcomes (Addr b) ops = replicate (length (check # checks)) ok"
    using rounds_outcome [OF checker_inv_New opts(2) assms(4,5), of clk] by auto
  have "Healthy (entry_for c (Addr b))
      = spec_healthy (FailureThreshold (health_defaults opts)) (SuccessThreshold (health_defaults opts))
          (replicate (length (check # checks)) ok)"
    using matches_New [OF assms(1), of "Addr b" ops tgts] ops by (simp add: matches_def)
  moreover have "Unhealthy (Some c) now b \<longleftrightarrow> \<not> Healthy (entry_for c (Addr b))"
    using Unhealthy_iff [of c now b] checker_inv_run opts ops(1) by simp
  ultimately show ?thesis
    using spec_healthy_replicate(1) [OF assms(2,3), of "length (check # checks)"]
      spec_healthy_replicate(2) [of _ _ "length (check # checks)"] by (cases ok) auto
qed

text \<open>Two failed rounds with the default thresholds.\<close>

theorem outage_is_noticed_witness:
  "let opts = \<lparr>hc_Enabled = True, Interval = 0, Timeout = 0, FailureThreshold = 0, SuccessThreshold = 0,
         ProbeProtocol = 0, opt_ProbeHost = '''', CircuitBreakerTTL = 0\<rparr>;
       b = \<lparr>Name = '''', Addr = ''a:1'', StatusCacheFlag = None\<rparr>;
       check = (\<lambda>t. if Addr (tgt_Backend t) = ''a:1'' then Some EOF else None)
   in Unhealthy (fst (checker_Run check [Ticked check] (Some (NewChecker opts [\<lparr>tgt_Backend = b, tgt_ProbeHost = ''a''\<rparr>])) (\<lambda>n. 1 + int n))) 50 b"
proof -
  let ?opts = "\<lparr>hc_Enabled = True, Interval = 0, Timeout = 0, FailureThreshold = 0, SuccessThreshold = 0,
         ProbeProtocol = 0, opt_ProbeHost = '''', CircuitBreakerTTL = 0\<rparr>"
  let ?b = "\<lparr>Name = '''', Addr = ''a:1'', StatusCacheFlag = None\<rparr>"
  let ?check = "\<lambda>t. if Addr (tgt_Backend t) = ''a:1'' then Some EOF else None"
  let ?c = "NewChecker ?opts [\<lparr>tgt_Backend = ?b, tgt_ProbeHost = ''a''\<rparr>]"
  obtain c clk' where run: "checker_Run ?check [Ticked ?check] (Some ?c) (\<lambda>n. 1 + int n) = (Some c, clk')"
    using checker_Run_Some by blast
  have "known ?c (Addr ?b)"
    by (simp add: known_def NewChecker_def Let_def health_defaults_def add_target_def)
  moreover have "list_all (checks_as (Addr ?b) False) [?check, ?check]" by (simp add: checks_as_def)
  moreover have "FailureThreshold (health_defaults ?opts) = 2" "SuccessThreshold (health_defaults ?opts) = 1"
    by (simp_all add: health_defaults_def Let_def)
  ultimately have "Unhealthy (Some c) 50 ?b"
    using outage_is_noticed [of ?opts "[\<lparr>tgt_Backend = ?b, tgt_ProbeHost = ''a''\<rparr>]" ?b False ?check "[?check]" "[]"] run by simp
  then show ?thesis unfolding Let_def run by simp
qed

end
