(* ===== verification/Pipe.thy ===== *)
theory Pipe
  imports Prelude
begin

text \<open>
  \<^verbatim>\<open>internal/proxy/pipe.go\<close>: two goroutines copy between a client and a backend until
  one of them stops, which closes both connections.  The model is a step relation on the two
  copiers: a copier reads a chunk into its buffer, then writes the buffer, and either call may
  fail at any moment (end of input, idle timeout, reset, the peer copier's close).  The steps of
  the two copiers interleave freely.  \<open>pipe_exec\<close> is the same relation as a function of a
  schedule.
\<close>

section \<open>Definitions\<close>

datatype direction = ClientToBackend | BackendToClient

definition buf_size :: nat where
  "buf_size = 32 * 1024"

text \<open>
  A copier: what its source will still deliver, the chunk it holds and whether the
  \<^verbatim>\<open>Read\<close> that returned the chunk also returned an error, what reached its destination,
  its counter, and whether it is still running.
\<close>

record copier =
  unread :: "byte list"
  holding :: "byte list"
  read_err :: bool
  delivered :: "byte list"
  written :: nat
  running :: bool

record pipe =
  copiers :: "direction \<Rightarrow> copier"
  conns_closed :: bool

record PipeStats =
  clientToBackend :: nat
  backendToClient :: nat

definition new_copier :: "byte list \<Rightarrow> copier" where
  "new_copier bs = \<lparr>unread = bs, holding = [], read_err = False, delivered = [], written = 0, running = True\<rparr>"

definition new_pipe :: "byte list \<Rightarrow> byte list \<Rightarrow> pipe" where
  "new_pipe from_client from_backend =
     \<lparr>copiers = (\<lambda>d. new_copier (case d of ClientToBackend \<Rightarrow> from_client | BackendToClient \<Rightarrow> from_backend)),
      conns_closed = False\<rparr>"

definition set_copier :: "direction \<Rightarrow> copier \<Rightarrow> pipe \<Rightarrow> pipe" where
  "set_copier d c p = p\<lparr>copiers := (copiers p)(d := c)\<rparr>"

text \<open>\<^verbatim>\<open>copyWithIdle\<close> returns: \<^verbatim>\<open>once.Do(closeBoth)\<close>, then the signal on \<^verbatim>\<open>done\<close>.\<close>

definition finish :: "direction \<Rightarrow> copier \<Rightarrow> pipe \<Rightarrow> pipe" where
  "finish d c p = (set_copier d (c\<lparr>holding := [], running := False\<rparr>) p)\<lparr>conns_closed := True\<rparr>"

inductive pipe_step :: "pipe \<Rightarrow> pipe \<Rightarrow> bool" where
  read_chunk: "c = copiers p d \<Longrightarrow> running c \<Longrightarrow> holding c = [] \<Longrightarrow> \<not> conns_closed p \<Longrightarrow>
    0 < n \<Longrightarrow> n \<le> buf_size \<Longrightarrow> n \<le> length (unread c) \<Longrightarrow>
    pipe_step p (set_copier d (c\<lparr>holding := take n (unread c), unread := drop n (unread c), read_err := err\<rparr>) p)"
| read_fails: "c = copiers p d \<Longrightarrow> running c \<Longrightarrow> holding c = [] \<Longrightarrow>
    pipe_step p (finish d c p)"
| write_chunk: "c = copiers p d \<Longrightarrow> running c \<Longrightarrow> holding c \<noteq> [] \<Longrightarrow> \<not> conns_closed p \<Longrightarrow>
    c' = c\<lparr>delivered := delivered c @ holding c, written := written c + length (holding c), holding := []\<rparr> \<Longrightarrow>
    pipe_step p (if read_err c then finish d c' p else set_copier d c' p)"
| write_fails: "c = copiers p d \<Longrightarrow> running c \<Longrightarrow> holding c \<noteq> [] \<Longrightarrow> n \<le> length (holding c) \<Longrightarrow>
    pipe_step p (finish d (c\<lparr>delivered := delivered c @ take n (holding c), written := written c + n\<rparr>) p)"

text \<open>\<^verbatim>\<open>ProxyBidirectional\<close> has received both signals.\<close>

definition finished :: "pipe \<Rightarrow> bool" where
  "finished p \<longleftrightarrow> \<not> running (copiers p ClientToBackend) \<and> \<not> running (copiers p BackendToClient)"

definition pipe_stats :: "pipe \<Rightarrow> PipeStats" where
  "pipe_stats p = \<lparr>clientToBackend = written (copiers p ClientToBackend),
                   backendToClient = written (copiers p BackendToClient)\<rparr>"

subsection \<open>Schedules\<close>

datatype pipe_event =
    ReadChunk direction nat bool
  | ReadFails direction
  | WriteChunk direction
  | WriteFails direction nat

fun pipe_exec :: "pipe_event \<Rightarrow> pipe \<Rightarrow> pipe option" where
  "pipe_exec (ReadChunk d n err) p =
     (let c = copiers p d in
      if running c \<and> holding c = [] \<and> \<not> conns_closed p \<and> 0 < n \<and> n \<le> buf_size \<and> n \<le> length (unread c)
      then Some (set_copier d (c\<lparr>holding := take n (unread c), unread := drop n (unread c), read_err := err\<rparr>) p)
      else None)"
| "pipe_exec (ReadFails d) p =
     (let c = copiers p d in if running c \<and> holding c = [] then Some (finish d c p) else None)"
| "pipe_exec (WriteChunk d) p =
     (let c = copiers p d;
          c' = c\<lparr>delivered := delivered c @ holding c, written := written c + length (holding c), holding := []\<rparr>
      in if running c \<and> holding c \<noteq> [] \<and> \<not> conns_closed p
         then Some (if read_err c then finish d c' p else set_copier d c' p) else None)"
| "pipe_exec (WriteFails d n) p =
     (let c = copiers p d in
      if running c \<and> holding c \<noteq> [] \<and> n \<le> length (holding c)
      then Some (finish d (c\<lparr>delivered := delivered c @ take n (holding c), written := written c + n\<rparr>) p)
      else None)"

text \<open>
  A schedule drives the pipe; an event that is not possible is skipped.  When the schedule is
  exhausted the copiers that still run fail in the call they are in, as they do after the idle
  timeout at the latest.
\<close>

definition pipe_run :: "pipe_event list \<Rightarrow> pipe \<Rightarrow> pipe" where
  "pipe_run evs p = fold (\<lambda>ev p. case pipe_exec ev p of Some p' \<Rightarrow> p' | None \<Rightarrow> p) evs p"

definition time_out :: "pipe \<Rightarrow> pipe" where
  "time_out p = pipe_run [WriteFails ClientToBackend 0, ReadFails ClientToBackend,
                          WriteFails BackendToClient 0, ReadFails BackendToClient] p"

definition ProxyBidirectional :: "pipe_event list \<Rightarrow> byte list \<Rightarrow> byte list \<Rightarrow> pipe" where
  "ProxyBidirectional evs from_client from_backend =
     time_out (pipe_run evs (new_pipe from_client from_backend))"

section \<open>Steps\<close>

inductive_cases pipe_stepE: "pipe_step p p'"

lemma copiers_set [simp]:
  "copiers (set_copier d c p) d' = (if d' = d then c else copiers p d')"
  "conns_closed (set_copier d c p) = conns_closed p"
  by (simp_all add: set_copier_def)

lemma copiers_finish [simp]:
  "copiers (finish d c p) d' = (if d' = d then c\<lparr>holding := [], running := False\<rparr> else copiers p d')"
  "conns_closed (finish d c p)"
  by (simp_all add: finish_def)

lemma pipe_exec_step: "pipe_exec ev p = Some p' \<Longrightarrow> pipe_step p p'"
proof (cases ev)
  case (WriteChunk d)
  assume "pipe_exec ev p = Some p'"
  with WriteChunk pipe_step.write_chunk [OF refl, of p d, OF _ _ _ refl] show ?thesis
    by (auto simp: Let_def split: if_splits)
qed (auto simp: Let_def split: if_splits intro: pipe_step.intros)

lemma pipe_step_exec: "pipe_step p p' \<Longrightarrow> \<exists>ev. pipe_exec ev p = Some p'"
proof (induction rule: pipe_step.induct)
  case (read_chunk c p d n err)
  then show ?case by (intro exI [of _ "ReadChunk d n err"]) (simp add: Let_def)
next
  case (read_fails c p d)
  then show ?case by (intro exI [of _ "ReadFails d"]) (simp add: Let_def)
next
  case (write_chunk c p d c')
  then show ?case by (intro exI [of _ "WriteChunk d"]) (simp add: Let_def)
next
  case (write_fails c p d n)
  then show ?case by (intro exI [of _ "WriteFails d n"]) (simp add: Let_def)
qed

lemma pipe_step_iff: "pipe_step p p' \<longleftrightarrow> (\<exists>ev. pipe_exec ev p = Some p')"
  using pipe_exec_step pipe_step_exec by blast

section \<open>Termination and progress\<close>

text \<open>Every step uses up input, a chunk in hand, or a running copier.\<close>

definition work :: "copier \<Rightarrow> nat" where
  "work c = (if running c then 1 + 2 * length (unread c) + (if holding c = [] then 0 else 1) else 0)"

definition pipe_work :: "pipe \<Rightarrow> nat" where
  "pipe_work p = work (copiers p ClientToBackend) + work (copiers p BackendToClient)"

lemma pipe_step_work: "pipe_step p p' \<Longrightarrow> pipe_work p' < pipe_work p"
proof (induction rule: pipe_step.induct)
  case (read_chunk c p d n err)
  then show ?case by (cases d) (auto simp: pipe_work_def work_def)
next
  case (read_fails c p d)
  then show ?case by (cases d) (auto simp: pipe_work_def work_def)
next
  case (write_chunk c p d c')
  then show ?case by (cases d) (auto simp: pipe_work_def work_def)
next
  case (write_fails c p d n)
  then show ?case by (cases d) (auto simp: pipe_work_def work_def)
qed

lemma pipe_step_wf: "wfP (\<lambda>p' p. pipe_step p p')"
  by (rule wfp_if_convertible_to_nat [of _ pipe_work]) (rule pipe_step_work)

lemma pipe_progress: "\<not> finished p \<Longrightarrow> \<exists>p'. pipe_step p p'"
proof -
  assume "\<not> finished p"
  then obtain d where d: "running (copiers p d)" by (auto simp: finished_def)
  show ?thesis
  proof (cases "holding (copiers p d) = []")
    case True
    from pipe_step.read_fails [OF refl d this] show ?thesis ..
  next
    case False
    from pipe_step.write_fails [OF refl d this, of 0] show ?thesis by blast
  qed
qed

lemma finished_no_step: "finished p \<Longrightarrow> \<not> pipe_step p p'"
proof
  assume "finished p" "pipe_step p p'"
  then have "\<not> running (copiers p d)" for d by (cases d) (auto simp: finished_def)
  with \<open>pipe_step p p'\<close> show False by (auto elim: pipe_stepE)
qed

section \<open>Invariant\<close>

text \<open>
  For the inputs the pipe started with: what was delivered, what was lost in a failed write,
  what is held and what is still unread are together the input of the direction, in order; the
  counter counts the delivered bytes; and a copier that has stopped has closed both connections.
\<close>

definition copier_inv :: "byte list \<Rightarrow> copier \<Rightarrow> bool" where
  "copier_inv input c \<longleftrightarrow>
     written c = length (delivered c) \<and>
     (running c \<longrightarrow> input = delivered c @ holding c @ unread c) \<and>
     (\<not> running c \<longrightarrow> holding c = [] \<and> (\<exists>lost. input = delivered c @ lost @ unread c))"

definition pipe_inv :: "(direction \<Rightarrow> byte list) \<Rightarrow> pipe \<Rightarrow> bool" where
  "pipe_inv input p \<longleftrightarrow>
     (\<forall>d. copier_inv (input d) (copiers p d)) \<and>
     (\<forall>d. \<not> running (copiers p d) \<longrightarrow> conns_closed p)"

lemma pipe_inv_new:
  "pipe_inv (\<lambda>d. case d of ClientToBackend \<Rightarrow> from_client | BackendToClient \<Rightarrow> from_backend)
     (new_pipe from_client from_backend)"
  by (auto simp: pipe_inv_def new_pipe_def new_copier_def copier_inv_def split: direction.splits)

lemma copier_inv_read:
  "copier_inv input c \<Longrightarrow> running c \<Longrightarrow> holding c = [] \<Longrightarrow>
     copier_inv input (c\<lparr>holding := take n (unread c), unread := drop n (unread c), read_err := err\<rparr>)"
  by (simp add: copier_inv_def)

lemma copier_inv_stop:
  "copier_inv input c \<Longrightarrow> running c \<Longrightarrow> n \<le> length (holding c) \<Longrightarrow>
     copier_inv input (c\<lparr>delivered := delivered c @ take n (holding c), written := written c + n,
       holding := [], running := False\<rparr>)"
  by (simp add: copier_inv_def exI [of _ "drop n (holding c)"])

lemma copier_inv_write:
  "copier_inv input c \<Longrightarrow> running c \<Longrightarrow>
     copier_inv input (c\<lparr>delivered := delivered c @ holding c, written := written c + length (holding c), holding := []\<rparr>)"
  by (simp add: copier_inv_def)

lemma pipe_inv_set:
  "pipe_inv input p \<Longrightarrow> copier_inv (input d) c \<Longrightarrow> running c \<Longrightarrow> pipe_inv input (set_copier d c p)"
  by (auto simp: pipe_inv_def)

lemma pipe_inv_finish:
  "pipe_inv input p \<Longrightarrow> copier_inv (input d) (c\<lparr>holding := [], running := False\<rparr>) \<Longrightarrow> pipe_inv input (finish d c p)"
  by (simp add: pipe_inv_def)

lemma pipe_inv_step: "pipe_step p p' \<Longrightarrow> pipe_inv input p \<Longrightarrow> pipe_inv input p'"
proof (induction rule: pipe_step.induct)
  case (read_chunk c p d n err)
  then have "copier_inv (input d) c" by (simp add: pipe_inv_def)
  with read_chunk show ?case by (intro pipe_inv_set copier_inv_read) simp_all
next
  case (read_fails c p d)
  then have "copier_inv (input d) c" by (simp add: pipe_inv_def)
  from copier_inv_stop [OF this, of 0] read_fails show ?case by (intro pipe_inv_finish) simp_all
next
  case (write_chunk c p d c')
  then have inv: "copier_inv (input d) c" by (simp add: pipe_inv_def)
  have "copier_inv (input d) c'" using copier_inv_write [OF inv] write_chunk by simp
  moreover have "copier_inv (input d) (c'\<lparr>holding := [], running := False\<rparr>)"
    using copier_inv_stop [OF inv, of "length (holding c)"] write_chunk by simp
  ultimately show ?case using write_chunk by (auto intro!: pipe_inv_set pipe_inv_finish)
next
  case (write_fails c p d n)
  then have inv: "copier_inv (input d) c" by (simp add: pipe_inv_def)
  from copier_inv_stop [OF inv, of n] write_fails show ?case by (intro pipe_inv_finish) simp_all
qed

section \<open>Runs\<close>

lemma pipe_run_steps: "pipe_step\<^sup>*\<^sup>* p (pipe_run evs p)"
proof (induction evs arbitrary: p)
  case (Cons ev evs)
  then show ?case
    by (cases "pipe_exec ev p")
      (auto simp: pipe_run_def intro: converse_rtranclp_into_rtranclp dest: pipe_exec_step)
qed (simp add: pipe_run_def)

lemma pipe_inv_reachable: "pipe_step\<^sup>*\<^sup>* p p' \<Longrightarrow> pipe_inv input p \<Longrightarrow> pipe_inv input p'"
  by (induction rule: rtranclp_induct) (auto intro: pipe_inv_step)

lemma time_out_finished: "finished (time_out p)"
  by (cases "running (copiers p ClientToBackend)"; cases "holding (copiers p ClientToBackend) = []";
      cases "running (copiers p BackendToClient)"; cases "holding (copiers p BackendToClient) = []")
    (simp_all add: time_out_def pipe_run_def finished_def Let_def)

lemma ProxyBidirectional_reachable:
  "pipe_step\<^sup>*\<^sup>* (new_pipe from_client from_backend) (ProxyBidirectional evs from_client from_backend)"
  unfolding ProxyBidirectional_def time_out_def by (rule rtranclp_trans [OF pipe_run_steps pipe_run_steps])

lemma ProxyBidirectional_inv:
  "pipe_inv (\<lambda>d. case d of ClientToBackend \<Rightarrow> from_client | BackendToClient \<Rightarrow> from_backend)
     (ProxyBidirectional evs from_client from_backend)"
  by (rule pipe_inv_reachable [OF ProxyBidirectional_reachable pipe_inv_new])

lemma ProxyBidirectional_finished: "finished (ProxyBidirectional evs from_client from_backend)"
  by (simp add: ProxyBidirectional_def time_out_finished)

text \<open>What the two ends receive, and what the caller is told.\<close>

lemma pipe_inv_delivered: "pipe_inv input p \<Longrightarrow> \<exists>rest. input d = delivered (copiers p d) @ rest"
  unfolding pipe_inv_def copier_inv_def by (cases "running (copiers p d)") auto

lemma pipe_inv_written: "pipe_inv input p \<Longrightarrow> written (copiers p d) = length (delivered (copiers p d))"
  by (simp add: pipe_inv_def copier_inv_def)

lemma pipe_inv_closed: "pipe_inv input p \<Longrightarrow> finished p \<Longrightarrow> conns_closed p"
  by (auto simp: pipe_inv_def finished_def)

lemma ProxyBidirectional_delivered:
  "\<exists>rest. from_client = delivered (copiers (ProxyBidirectional evs from_client from_backend) ClientToBackend) @ rest"
  "\<exists>rest. from_backend = delivered (copiers (ProxyBidirectional evs from_client from_backend) BackendToClient) @ rest"
  using pipe_inv_delivered [OF ProxyBidirectional_inv [of from_client from_backend evs], of ClientToBackend]
    pipe_inv_delivered [OF ProxyBidirectional_inv [of from_client from_backend evs], of BackendToClient]
  by simp_all

lemma ProxyBidirectional_closed: "conns_closed (ProxyBidirectional evs from_client from_backend)"
  by (rule pipe_inv_closed [OF ProxyBidirectional_inv ProxyBidirectional_finished])

text \<open>A finished pipe is reached from anywhere, and every step comes closer to one.\<close>

lemma pipe_always_finishes:
  assumes "pipe_step\<^sup>*\<^sup>* p p'"
  shows "\<exists>p''. pipe_step\<^sup>*\<^sup>* p' p'' \<and> finished p''"
  using pipe_run_steps time_out_finished unfolding time_out_def by blast

section \<open>Properties\<close>

text \<open>
  C18: In every state the two copiers can reach, in any interleaving and with failures at any point,
  each end has received a prefix of what the other sent, in order; the counters are the
  numbers of bytes received; and once one copier has stopped both connections are closed.
\<close>

theorem pipe_transparent:
  assumes "pipe_step\<^sup>*\<^sup>* (new_pipe from_client from_backend) p"
  shows "(\<exists>rest. from_client = delivered (copiers p ClientToBackend) @ rest)
    \<and> (\<exists>rest. from_backend = delivered (copiers p BackendToClient) @ rest)
    \<and> pipe_stats p = \<lparr>clientToBackend = length (delivered (copiers p ClientToBackend)),
                     backendToClient = length (delivered (copiers p BackendToClient))\<rparr>
    \<and> (\<not> running (copiers p d) \<longrightarrow> conns_closed p)"
proof -
  note inv = pipe_inv_reachable [OF assms pipe_inv_new]
  show ?thesis
    using pipe_inv_delivered [OF inv, of ClientToBackend] pipe_inv_delivered [OF inv, of BackendToClient]
      pipe_inv_written [OF inv] inv
    by (auto simp: pipe_stats_def pipe_inv_def)
qed

theorem pipe_transparent_witness:
  "\<exists>rest. [1, 2, 3] = delivered (copiers (ProxyBidirectional [ReadChunk ClientToBackend 2 False, WriteChunk ClientToBackend] [1, 2, 3] [4]) ClientToBackend) @ rest"
  using pipe_transparent [OF ProxyBidirectional_reachable] by blast


end
