(* ===== verification/Server.thy ===== *)
theory Server
  imports Router Cache Guard Health Metrics Pipe
begin

text \<open>
  \<^verbatim>\<open>internal/proxy/server.go\<close>: what the proxy does with one accepted connection.  The
  \<open>World\<close> of a connection is what its handler shares with the others (clock, cache, guard,
  health checker, metrics; \<open>None\<close> is a nil one) and what is its own: the client, the connection to
  the backend, what a dial will answer, and the schedule of the copying at the end of a login.
  Deadlines are part of the readers: a connection whose deadline passes first delivers its bytes and then
  the timeout.  Every reading of the clock takes the next instant of \<open>w_clock\<close>.
\<close>

section \<open>Options\<close>

record Options =
  ListenAddr :: string
  HandshakeTimeout :: Duration
  BackendDialTimeout :: Duration
  srv_IdleTimeout :: Duration
  ShutdownTimeout :: Duration
  MaxHandshakeSize :: int
  MaxStatusResponseSize :: int
  StatusCacheEnabled :: bool
  StatusCacheTTL :: Duration
  MOTDCacheEnabled :: bool
  MOTDFallbackTTL :: Duration
  StatusFallbackWhenUnhealthy :: bool
  StatusFallback :: FallbackStatusOptions

record Server =
  options :: Options
  router :: StaticRouter
  has_status_dialer :: bool

definition server_defaults :: "Options \<Rightarrow> Options" where
  "server_defaults opts =
     (let opts = (if HandshakeTimeout opts = 0 then opts\<lparr>HandshakeTimeout := 3 * Second\<rparr> else opts);
          opts = (if BackendDialTimeout opts = 0 then opts\<lparr>BackendDialTimeout := 3 * Second\<rparr> else opts);
          opts = (if srv_IdleTimeout opts = 0 then opts\<lparr>srv_IdleTimeout := 10 * Minute\<rparr> else opts);
          opts = (if ShutdownTimeout opts = 0 then opts\<lparr>ShutdownTimeout := 10 * Second\<rparr> else opts);
          opts = (if MaxHandshakeSize opts = 0 then opts\<lparr>MaxHandshakeSize := 64 * 1024\<rparr> else opts);
          opts = (if MaxStatusResponseSize opts = 0 then opts\<lparr>MaxStatusResponseSize := 256 * 1024\<rparr> else opts);
          opts = (if StatusCacheTTL opts = 0 then opts\<lparr>StatusCacheTTL := 5 * Second\<rparr> else opts)
      in if MOTDFallbackTTL opts = 0 then opts\<lparr>MOTDFallbackTTL := 5 * Minute\<rparr> else opts)"

definition NewServerWithGuard :: "Options \<Rightarrow> StaticRouter \<Rightarrow> bool \<Rightarrow> Server" where
  "NewServerWithGuard opts rt status_dialer =
     \<lparr>options = server_defaults opts, router = rt, has_status_dialer = status_dialer\<rparr>"

section \<open>The world of a connection\<close>

datatype dial_call = Dial Backend | DialStatus Backend

record StatusResult =
  CacheResult :: string
  FallbackUsed :: bool
  PongHandled :: bool

record LoginResult =
  Stats :: PipeStats
  login_Username :: string
  Fail2BanAction :: string

datatype log_event =
    BadHandshake string
  | RouteNotFound string
  | AccessStatus StatusResult string string
  | AccessLogin LoginResult string string
  | UnsupportedState string

record World =
  w_clock :: clock
  w_cache :: "StatusCache option"
  w_guard :: "Guard option"
  w_health :: "Checker option"
  w_metrics :: "Recorder option"
  w_client :: conn
  w_backend :: "conn option"
  w_dial :: "dial_call \<Rightarrow> go_error + conn"
  w_dialed :: "dial_call list"
  w_schedule :: "pipe_event list"
  w_log :: "log_event list"

definition w_now :: "World \<Rightarrow> Time \<times> World" where
  "w_now w = (let (now, c) = tick (w_clock w) in (now, w\<lparr>w_clock := c\<rparr>))"

definition w_metric :: "(Recorder \<Rightarrow> Recorder) \<Rightarrow> World \<Rightarrow> World" where
  "w_metric f w = w\<lparr>w_metrics := map_option f (w_metrics w)\<rparr>"

definition w_logged :: "log_event \<Rightarrow> World \<Rightarrow> World" where
  "w_logged e w = w\<lparr>w_log := w_log w @ [e]\<rparr>"

definition conn_ReadPacket :: "conn \<Rightarrow> int \<Rightarrow> (go_error + Packet) \<times> conn" where
  "conn_ReadPacket c maxLen = (let (res, r) = ReadPacket (inp c) maxLen in (res, c\<lparr>inp := r\<rparr>))"

definition client_ReadPacket :: "int \<Rightarrow> World \<Rightarrow> (go_error + Packet) \<times> World" where
  "client_ReadPacket maxLen w = (let (res, c) = conn_ReadPacket (w_client w) maxLen in (res, w\<lparr>w_client := c\<rparr>))"

definition client_Write :: "byte list \<Rightarrow> World \<Rightarrow> go_error option \<times> World" where
  "client_Write bs w = (let (err, c) = Write bs (w_client w) in (err, w\<lparr>w_client := c\<rparr>))"

text \<open>The backend connection; without one, which no caller is, a call fails.\<close>

definition backend_ReadPacket :: "int \<Rightarrow> World \<Rightarrow> (go_error + Packet) \<times> World" where
  "backend_ReadPacket maxLen w =
     (case w_backend w of
        None \<Rightarrow> (Inl errClosed, w)
      | Some b \<Rightarrow> (let (res, b) = conn_ReadPacket b maxLen in (res, w\<lparr>w_backend := Some b\<rparr>)))"

definition backend_Write :: "byte list \<Rightarrow> World \<Rightarrow> go_error option \<times> World" where
  "backend_Write bs w =
     (case w_backend w of
        None \<Rightarrow> (Some errClosed, w)
      | Some b \<Rightarrow> (let (err, b) = Write bs b in (err, w\<lparr>w_backend := Some b\<rparr>)))"

definition backend_Close :: "World \<Rightarrow> World" where
  "backend_Close w = w\<lparr>w_backend := map_option Close (w_backend w)\<rparr>"

definition call_dial :: "dial_call \<Rightarrow> World \<Rightarrow> go_error option \<times> World" where
  "call_dial call w =
     (let w = w\<lparr>w_dialed := w_dialed w @ [call]\<rparr> in
      case w_dial w call of
        Inl err \<Rightarrow> (Some err, w)
      | Inr b \<Rightarrow> (None, w\<lparr>w_backend := Some b\<rparr>))"

section \<open>Small operations\<close>

definition isBanned :: "string \<Rightarrow> string \<Rightarrow> string \<Rightarrow> World \<Rightarrow> bool \<times> World" where
  "isBanned route kind v w =
     (case w_guard w of
        None \<Rightarrow> (False, w)
      | Some g \<Rightarrow> (let (now, w) = w_now w; (b, g) = IsBanned g now route kind v in (b, w\<lparr>w_guard := Some g\<rparr>)))"

definition recordFailure :: "string \<Rightarrow> string \<Rightarrow> string \<Rightarrow> World \<Rightarrow> World" where
  "recordFailure route kind v w =
     (case w_guard w of
        None \<Rightarrow> w
      | Some g \<Rightarrow> (let (now, w) = w_now w in w\<lparr>w_guard := Some (snd (RecordFailure g now route kind v))\<rparr>))"

definition recordSuccess :: "string \<Rightarrow> string \<Rightarrow> string \<Rightarrow> World \<Rightarrow> World" where
  "recordSuccess route kind v w =
     (case w_guard w of None \<Rightarrow> w | Some g \<Rightarrow> w\<lparr>w_guard := Some (RecordSuccess g route kind v)\<rparr>)"

definition recordLoginFailure :: "string \<Rightarrow> string \<Rightarrow> string \<Rightarrow> World \<Rightarrow> World" where
  "recordLoginFailure route ip username w =
     (let w = recordFailure route ''ip'' ip w
      in if username \<noteq> '''' then recordFailure route ''player'' username w else w)"

definition recordEarlyLoginFailure :: "Time \<Rightarrow> string \<Rightarrow> string \<Rightarrow> string \<Rightarrow> World \<Rightarrow> World" where
  "recordEarlyLoginFailure start route ip username w =
     (case w_guard w of
        None \<Rightarrow> w
      | Some g \<Rightarrow>
          if \<not> Enabled g then w
          else (let (now, w) = w_now w in
                if Sub now start > guard_EarlyDisconnect g then w
                else recordLoginFailure route ip username w))"

definition shouldRecordFailure :: "Time \<Rightarrow> PipeStats \<Rightarrow> World \<Rightarrow> bool \<times> World" where
  "shouldRecordFailure start stats w =
     (case w_guard w of
        None \<Rightarrow> (False, w)
      | Some g \<Rightarrow>
          if \<not> Enabled g then (False, w)
          else (let (now, w) = w_now w
                in (Sub now start \<le> guard_EarlyDisconnect g \<and> backendToClient stats = 0, w)))"

definition recordBackendDialError :: "string \<Rightarrow> Backend \<Rightarrow> World \<Rightarrow> World" where
  "recordBackendDialError route backend w = w_metric (RecordBackendDialError route (Addr backend)) w"

definition recordBackendHealthFailure :: "Backend \<Rightarrow> go_error \<Rightarrow> World \<Rightarrow> World" where
  "recordBackendHealthFailure backend err w =
     (case w_health w of
        None \<Rightarrow> w
      | Some h \<Rightarrow>
          (let (now, w) = w_now w; (now', w) = w_now w
           in w\<lparr>w_health := Some (checker_RecordFailure now now' (Addr backend) (Some err) h)\<rparr>))"

definition recordBackendHealthSuccess :: "Backend \<Rightarrow> World \<Rightarrow> World" where
  "recordBackendHealthSuccess backend w =
     (case w_health w of
        None \<Rightarrow> w
      | Some h \<Rightarrow> (let (now, w) = w_now w in w\<lparr>w_health := Some (checker_RecordSuccess now (Addr backend) h)\<rparr>))"

definition backendUnhealthy :: "Backend \<Rightarrow> World \<Rightarrow> bool \<times> World" where
  "backendUnhealthy backend w =
     (case w_health w of
        None \<Rightarrow> (False, w)
      | Some h \<Rightarrow> (let (now, w) = w_now w in (Unhealthy (Some h) now backend, w)))"

definition routeKey :: "Backend \<Rightarrow> string" where
  "routeKey backend = (if Name backend \<noteq> '''' then Name backend else Addr backend)"

definition remoteIP :: "conn \<Rightarrow> string" where
  "remoteIP c = (case SplitHostPort (remote_addr c) of Inl _ \<Rightarrow> remote_addr c | Inr (host, _) \<Rightarrow> host)"

definition statusCacheEnabled :: "Server \<Rightarrow> Backend \<Rightarrow> bool" where
  "statusCacheEnabled s backend =
     (case StatusCacheFlag backend of
        Some b \<Rightarrow> StatusCacheEnabled (options s) \<and> b
      | None \<Rightarrow> StatusCacheEnabled (options s))"

definition motdFallbackTTL :: "Server \<Rightarrow> Duration" where
  "motdFallbackTTL s = (if \<not> MOTDCacheEnabled (options s) then 0 else MOTDFallbackTTL (options s))"

definition dialStatus :: "Server \<Rightarrow> Backend \<Rightarrow> World \<Rightarrow> go_error option \<times> World" where
  "dialStatus s backend w = call_dial (if has_status_dialer s then DialStatus backend else Dial backend) w"

definition statusFallback :: "Server \<Rightarrow> string \<Rightarrow> int32 \<Rightarrow> bool \<Rightarrow> World \<Rightarrow> byte list option \<times> World" where
  "statusFallback s cacheKey protocolVersion cacheEnabled w =
     (if \<not> cacheEnabled \<or> \<not> MOTDCacheEnabled (options s) then (None, w)
      else case w_cache w of
        None \<Rightarrow> (None, w)
      | Some c \<Rightarrow>
          (let (now, w) = w_now w;
               (res, c) = GetFallbackWithOptions c cacheKey protocolVersion (StatusFallback (options s)) now
           in (res, w\<lparr>w_cache := Some c\<rparr>)))"

definition cacheGet :: "string \<Rightarrow> World \<Rightarrow> byte list option \<times> World" where
  "cacheGet cacheKey w =
     (case w_cache w of
        None \<Rightarrow> (None, w)
      | Some c \<Rightarrow>
          (let (now, w) = w_now w; (now2, w) = w_now w; (res, c) = cache_Get c cacheKey now now2
           in (res, w\<lparr>w_cache := Some c\<rparr>)))"

definition cacheSet :: "Server \<Rightarrow> string \<Rightarrow> byte list \<Rightarrow> World \<Rightarrow> World" where
  "cacheSet s cacheKey d w =
     (case w_cache w of
        None \<Rightarrow> w
      | Some c \<Rightarrow>
          (let (now, w) = w_now w
           in w\<lparr>w_cache := Some (SetWithFallback c cacheKey d (StatusCacheTTL (options s)) (motdFallbackTTL s) now)\<rparr>))"

definition classifyError :: "go_error option \<Rightarrow> string \<Rightarrow> string" where
  "classifyError err phase =
     (case err of
        None \<Rightarrow> ''none''
      | Some e \<Rightarrow>
          (let message = Error e in
           if errors_Is e errUnsupportedState then ''unsupported_state''
           else if Contains message ''backend dial'' then ''backend_dial_failed''
           else if Contains message ''backend replay'' then ''backend_replay_failed''
           else if phase = ''status'' \<and> (Contains message ''status response'' \<or> Contains message ''backend unhealthy'')
           then ''backend_status_failed''
           else if phase = ''handshake'' \<or> Contains message ''status request'' \<or> Contains message ''login start''
             \<or> Contains message ''bad packet'' then ''client_bad_packet''
           else if errors_Is e EOF \<or> Contains message ''broken pipe'' \<or> Contains message ''connection reset''
           then ''client_io''
           else ''client_io''))"

section \<open>Pings\<close>

definition handleCachedPing :: "Server \<Rightarrow> World \<Rightarrow> (bool \<times> go_error option) \<times> World" where
  "handleCachedPing s w =
     (case client_ReadPacket (MaxHandshakeSize (options s)) w of
        (Inl err, w) \<Rightarrow> ((False, None), w)
      | (Inr ping, w) \<Rightarrow>
          if ID ping \<noteq> StatusPingPacketID then ((False, None), w)
          else (case BuildPong (Data ping) of
              Inl err \<Rightarrow> ((False, Some err), w)
            | Inr pong \<Rightarrow> (let (err, w) = client_Write (Raw pong) w in ((err = None, err), w))))"

definition proxyStatusPing :: "Server \<Rightarrow> World \<Rightarrow> (bool \<times> go_error option) \<times> World" where
  "proxyStatusPing s w =
     (case client_ReadPacket (MaxHandshakeSize (options s)) w of
        (Inl err, w) \<Rightarrow> ((False, None), w)
      | (Inr ping, w) \<Rightarrow>
          (case backend_Write (Raw ping) w of
             (Some err, w) \<Rightarrow> ((False, Some err), w)
           | (None, w) \<Rightarrow>
               (case backend_ReadPacket (MaxHandshakeSize (options s)) w of
                  (Inl err, w) \<Rightarrow> ((False, Some err), w)
                | (Inr pong, w) \<Rightarrow> (let (err, w) = client_Write (Raw pong) w in ((err = None, err), w)))))"

section \<open>Status requests\<close>

definition statusCacheKey :: "Backend \<Rightarrow> Handshake \<Rightarrow> string" where
  "statusCacheKey backend handshake =
     Addr backend @ ''|'' @ NormalizeHost (ServerAddress handshake) @ ''|'' @ show_int (sint (ProtocolVersion handshake))"

text \<open>A cached document is written, then the client's ping is answered by the proxy itself.\<close>

definition serve_document :: "Server \<Rightarrow> StatusResult \<Rightarrow> byte list \<Rightarrow> World \<Rightarrow> (StatusResult \<times> go_error option) \<times> World" where
  "serve_document s result raw w =
     (case client_Write raw w of
        (Some err, w) \<Rightarrow> ((result, Some err), w)
      | (None, w) \<Rightarrow> (let ((pong, err), w) = handleCachedPing s w in ((result\<lparr>PongHandled := pong\<rparr>, err), w)))"

definition serve_fallback ::
  "Server \<Rightarrow> StatusResult \<Rightarrow> string \<Rightarrow> Handshake \<Rightarrow> bool \<Rightarrow> go_error \<Rightarrow> World \<Rightarrow> (StatusResult \<times> go_error option) \<times> World" where
  "serve_fallback s result cacheKey handshake cacheEnabled failure w =
     (case statusFallback s cacheKey (ProtocolVersion handshake) cacheEnabled w of
        (Some fallback, w) \<Rightarrow>
          serve_document s (result\<lparr>CacheResult := ''fallback'', FallbackUsed := True\<rparr>) fallback w
      | (None, w) \<Rightarrow> ((result, Some failure), w))"

text \<open>What follows the reading of the backend's response.\<close>

definition status_answer ::
  "Server \<Rightarrow> StatusResult \<Rightarrow> Backend \<Rightarrow> Handshake \<Rightarrow> string \<Rightarrow> bool \<Rightarrow> go_error + Packet \<Rightarrow> World \<Rightarrow>
     (StatusResult \<times> go_error option) \<times> World" where
  "status_answer s result backend handshake cacheKey cacheEnabled res w =
     (case res of
        Inl err \<Rightarrow>
          serve_fallback s result cacheKey handshake cacheEnabled (Wrapf ''read status response'' err)
            (recordBackendHealthFailure backend err w)
      | Inr response \<Rightarrow>
          if ID response \<noteq> StatusResponsePacketID
          then (let statusErr = Errorf (''unexpected status response packet id 0x'' @ show_hex (sint (ID response)))
                in ((result, Some statusErr), recordBackendHealthFailure backend statusErr w))
          else (let w = recordBackendHealthSuccess backend w in
           (case client_Write (Raw response) w of
              (Some err, w) \<Rightarrow> ((result, Some err), w)
            | (None, w) \<Rightarrow>
                (let w = (if cacheEnabled then cacheSet s cacheKey (Raw response) w else w);
                     ((pong, err), w) = proxyStatusPing s w
                 in ((result\<lparr>PongHandled := pong\<rparr>, err), w)))))"

text \<open>The exchange with the backend once it is connected.\<close>

definition status_exchange ::
  "Server \<Rightarrow> StatusResult \<Rightarrow> Backend \<Rightarrow> Handshake \<Rightarrow> Packet \<Rightarrow> Packet \<Rightarrow> string \<Rightarrow> bool \<Rightarrow> World \<Rightarrow>
     (StatusResult \<times> go_error option) \<times> World" where
  "status_exchange s result backend handshake handshakePacket statusRequest cacheKey cacheEnabled w =
     (case backend_Write (Raw handshakePacket) w of
        (Some err, w) \<Rightarrow>
          ((result, Some (Wrapf ''backend replay handshake'' err)), recordBackendHealthFailure backend err w)
      | (None, w) \<Rightarrow>
     (case backend_Write (Raw statusRequest) w of
        (Some err, w) \<Rightarrow>
          ((result, Some (Wrapf ''backend replay status request'' err)), recordBackendHealthFailure backend err w)
      | (None, w) \<Rightarrow>
          (let (res, w) = backend_ReadPacket (MaxStatusResponseSize (options s)) w
           in status_answer s result backend handshake cacheKey cacheEnabled res w)))"

definition status_via_backend ::
  "Server \<Rightarrow> StatusResult \<Rightarrow> Backend \<Rightarrow> Handshake \<Rightarrow> Packet \<Rightarrow> Packet \<Rightarrow> string \<Rightarrow> bool \<Rightarrow> World \<Rightarrow>
     (StatusResult \<times> go_error option) \<times> World" where
  "status_via_backend s result backend handshake handshakePacket statusRequest cacheKey cacheEnabled w =
     (case dialStatus s backend w of
        (Some err, w) \<Rightarrow>
          (let w = recordBackendDialError (NormalizeHost (ServerAddress handshake)) backend w;
               w = recordBackendHealthFailure backend err w
           in serve_fallback s result cacheKey handshake cacheEnabled (Wrapf ''backend dial'' err) w)
      | (None, w) \<Rightarrow>
          (let (res, w) = status_exchange s result backend handshake handshakePacket statusRequest cacheKey cacheEnabled w
           in (res, backend_Close w)))"

definition status_miss ::
  "Server \<Rightarrow> StatusResult \<Rightarrow> Backend \<Rightarrow> Handshake \<Rightarrow> Packet \<Rightarrow> Packet \<Rightarrow> string \<Rightarrow> bool \<Rightarrow> World \<Rightarrow>
     (StatusResult \<times> go_error option) \<times> World" where
  "status_miss s result backend handshake handshakePacket statusRequest cacheKey cacheEnabled w =
     (let (unhealthy, w) = (if StatusFallbackWhenUnhealthy (options s) then backendUnhealthy backend w else (False, w)) in
      if unhealthy
      then serve_fallback s result cacheKey handshake cacheEnabled
             (Errorf ''backend unhealthy and no status fallback available'')
             (w_metric (RecordStatusCircuitBreaker (Addr backend)) w)
      else status_via_backend s result backend handshake handshakePacket statusRequest cacheKey cacheEnabled w)"

definition handleStatus ::
  "Server \<Rightarrow> Backend \<Rightarrow> Handshake \<Rightarrow> Packet \<Rightarrow> World \<Rightarrow> (StatusResult \<times> go_error option) \<times> World" where
  "handleStatus s backend handshake handshakePacket w =
     (let result = \<lparr>CacheResult = ''disabled'', FallbackUsed = False, PongHandled = False\<rparr> in
      case client_ReadPacket (MaxHandshakeSize (options s)) w of
        (Inl err, w) \<Rightarrow> ((result, Some (Wrapf ''read status request'' err)), w)
      | (Inr statusRequest, w) \<Rightarrow>
          if ID statusRequest \<noteq> StatusRequestPacketID
          then ((result, Some (Errorf (''unexpected status request packet id 0x'' @ show_hex (sint (ID statusRequest))))), w)
          else
            (let cacheKey = statusCacheKey backend handshake;
                 cacheEnabled = statusCacheEnabled s backend;
                 result = (if cacheEnabled then result\<lparr>CacheResult := ''miss''\<rparr> else result);
                 (hit, w) = (if cacheEnabled then cacheGet cacheKey w else (None, w))
             in case hit of
                  Some raw \<Rightarrow> serve_document s (result\<lparr>CacheResult := ''hit''\<rparr>) raw w
                | None \<Rightarrow> status_miss s result backend handshake handshakePacket statusRequest cacheKey cacheEnabled w))"

section \<open>Logins\<close>

definition banned_json :: string where
  "banned_json = ''{'' @ quoted ''text'' @ '':'' @ quoted ''Temporarily banned by proxy'' @ ''}''"

text \<open>The two ends are copied into each other until the copying ends, which closes both.\<close>

definition proxy_conns :: "World \<Rightarrow> PipeStats \<times> World" where
  "proxy_conns w =
     (case w_backend w of
        None \<Rightarrow> (\<lparr>clientToBackend = 0, backendToClient = 0\<rparr>, w)
      | Some b \<Rightarrow>
          (let c = w_client w;
               p = ProxyBidirectional (w_schedule w) (pending (inp c)) (pending (inp b))
           in (pipe_stats p,
               w\<lparr>w_client := c\<lparr>outp := outp c @ delivered (copiers p BackendToClient),
                               inp := (inp c)\<lparr>pending := unread (copiers p ClientToBackend)\<rparr>,
                               closed := True\<rparr>,
                 w_backend := Some (b\<lparr>outp := outp b @ delivered (copiers p ClientToBackend),
                               inp := (inp b)\<lparr>pending := unread (copiers p BackendToClient)\<rparr>,
                               closed := True\<rparr>)\<rparr>)))"

definition login_proxy ::
  "Server \<Rightarrow> LoginResult \<Rightarrow> string \<Rightarrow> string \<Rightarrow> string \<Rightarrow> World \<Rightarrow> (LoginResult \<times> go_error option) \<times> World" where
  "login_proxy s result route ip username w =
     (let (start, w) = w_now w;
          (stats, w) = proxy_conns w;
          result = result\<lparr>Stats := stats\<rparr>;
          (failed, w) = shouldRecordFailure start stats w
      in if failed
         then ((result\<lparr>Fail2BanAction := ''record_failure''\<rparr>, None), recordLoginFailure route ip username w)
         else (let w = recordSuccess route ''ip'' ip w;
                   w = (if username \<noteq> '''' then recordSuccess route ''player'' username w else w)
               in ((result\<lparr>Fail2BanAction := ''record_success''\<rparr>, None), w)))"

definition login_forward ::
  "Server \<Rightarrow> LoginResult \<Rightarrow> Backend \<Rightarrow> string \<Rightarrow> Packet \<Rightarrow> Packet \<Rightarrow> string \<Rightarrow> string \<Rightarrow> World \<Rightarrow>
     (LoginResult \<times> go_error option) \<times> World" where
  "login_forward s result backend route handshakePacket loginStart ip username w =
     (let (loginObserved, w) = w_now w in
      case call_dial (Dial backend) w of
        (Some err, w) \<Rightarrow> ((result, Some (Wrapf ''backend dial'' err)), recordBackendDialError route backend w)
      | (None, w) \<Rightarrow>
     (case backend_Write (Raw handshakePacket) w of
        (Some err, w) \<Rightarrow>
          ((result\<lparr>Fail2BanAction := ''record_failure''\<rparr>, Some (Wrapf ''backend replay handshake'' err)),
           backend_Close (recordEarlyLoginFailure loginObserved route ip username w))
      | (None, w) \<Rightarrow>
     (case backend_Write (Raw loginStart) w of
        (Some err, w) \<Rightarrow>
          ((result\<lparr>Fail2BanAction := ''record_failure''\<rparr>, Some (Wrapf ''backend replay login start'' err)),
           backend_Close (recordEarlyLoginFailure loginObserved route ip username w))
      | (None, w) \<Rightarrow> login_proxy s result route ip username w)))"

definition login_username :: "Packet \<Rightarrow> Handshake \<Rightarrow> string" where
  "login_username loginStart handshake =
     (case ParseLoginStart loginStart (ProtocolVersion handshake) of Inl _ \<Rightarrow> '''' | Inr login \<Rightarrow> Username login)"

definition login_identified ::
  "Server \<Rightarrow> LoginResult \<Rightarrow> Backend \<Rightarrow> string \<Rightarrow> Packet \<Rightarrow> Packet \<Rightarrow> string \<Rightarrow> string \<Rightarrow> World \<Rightarrow>
     (LoginResult \<times> go_error option) \<times> World" where
  "login_identified s result backend route handshakePacket loginStart ip username w =
     (let (player_banned, w) = (if username \<noteq> '''' then isBanned route ''player'' username w else (False, w)) in
      if player_banned
      then (let (_, c) = WritePacket (w_client w) (BuildLoginDisconnect banned_json)
            in ((result\<lparr>Fail2BanAction := ''player_banned''\<rparr>, Some (Errorf ''fail2ban player banned'')),
                w\<lparr>w_client := c\<rparr>))
      else login_forward s result backend route handshakePacket loginStart ip username w)"

definition handleLogin ::
  "Server \<Rightarrow> Backend \<Rightarrow> string \<Rightarrow> Handshake \<Rightarrow> Packet \<Rightarrow> string \<Rightarrow> World \<Rightarrow> (LoginResult \<times> go_error option) \<times> World" where
  "handleLogin s backend route handshake handshakePacket ip w =
     (let result = \<lparr>Stats = \<lparr>clientToBackend = 0, backendToClient = 0\<rparr>, login_Username = '''', Fail2BanAction = ''none''\<rparr>;
          route = (if route = '''' then routeKey backend else route);
          (ip_banned, w) = isBanned route ''ip'' ip w
      in if ip_banned
         then ((result\<lparr>Fail2BanAction := ''ip_banned''\<rparr>, Some (Errorf ''fail2ban ip banned'')), w)
         else case client_ReadPacket (MaxHandshakeSize (options s)) w of
           (Inl err, w) \<Rightarrow> ((result, Some (Wrapf ''read login start'' err)), w)
         | (Inr loginStart, w) \<Rightarrow>
             (let username = login_username loginStart handshake
              in login_identified s (result\<lparr>login_Username := username\<rparr>) backend route handshakePacket
                   loginStart ip username w))"

section \<open>Connections\<close>

definition err_text :: "go_error option \<Rightarrow> string" where
  "err_text err = (case err of None \<Rightarrow> '''' | Some e \<Rightarrow> Error e)"

definition record_login_metrics :: "string \<Rightarrow> Backend \<Rightarrow> LoginResult \<Rightarrow> World \<Rightarrow> World" where
  "record_login_metrics host backend result w =
     (let w = w_metric (RecordLogin host (Addr backend) (Fail2BanAction result)) w;
          w = (if Fail2BanAction result = ''ip_banned'' then w_metric (RecordFail2BanBlock host ''ip'') w else w)
      in if Fail2BanAction result = ''player_banned'' then w_metric (RecordFail2BanBlock host ''player'') w else w)"

definition dispatch :: "Server \<Rightarrow> Backend \<Rightarrow> string \<Rightarrow> Handshake \<Rightarrow> Packet \<Rightarrow> World \<Rightarrow> World" where
  "dispatch s backend host handshake handshakePacket w =
     (if NextState handshake = NextStateStatus
      then (let ((result, err), w) = handleStatus s backend handshake handshakePacket w;
                w = w_metric (RecordStatus host (Addr backend) (CacheResult result) (FallbackUsed result)) w
            in w_logged (AccessStatus result (err_text err) (classifyError err ''status'')) w)
      else if NextState handshake = NextStateLogin
      then (let ((result, err), w) = handleLogin s backend host handshake handshakePacket (remoteIP (w_client w)) w;
                w = record_login_metrics host backend result w
            in w_logged (AccessLogin result (err_text err) (classifyError err ''login'')) w)
      else w_logged (UnsupportedState (classifyError (Some errUnsupportedState) ''state'')) w)"

definition handle_client :: "Server \<Rightarrow> World \<Rightarrow> World" where
  "handle_client s w =
     (case client_ReadPacket (MaxHandshakeSize (options s)) w of
        (Inl err, w) \<Rightarrow> w_logged (BadHandshake (classifyError (Some err) ''handshake'')) w
      | (Inr handshakePacket, w) \<Rightarrow>
          (case ParseHandshake handshakePacket of
             Inl err \<Rightarrow> w_logged (BadHandshake (classifyError (Some err) ''handshake'')) w
           | Inr handshake \<Rightarrow>
               (let host = NormalizeHost (ServerAddress handshake) in
                case Resolve (router s) host of
                  None \<Rightarrow> w_logged (RouteNotFound host) w
                | Some backend \<Rightarrow> dispatch s backend host handshake handshakePacket w)))"

text \<open>The deferred calls run on every path: the gauge goes down, the client is closed.\<close>

definition handleConn :: "Server \<Rightarrow> World \<Rightarrow> World" where
  "handleConn s w =
     (let w = w_metric IncActiveConnections w;
          w = handle_client s w;
          w = w_metric DecActiveConnections w
      in w\<lparr>w_client := Close (w_client w)\<rparr>)"

section \<open>What a handler may do to the world\<close>

text \<open>
  Every helper acts on the shared components through their operations only, writes to the end of
  the client's stream, and leaves the client's address, what dials answer and the schedule alone.
  \<open>evolves\<close> says this of two worlds; it is reflexive and transitive, so that the statement for
  a handler is put together from those of its calls.
\<close>

definition clock_ok :: "World \<Rightarrow> bool" where
  "clock_ok w \<longleftrightarrow> (\<forall>n. 0 < w_clock w n)"

primrec records_only :: "metrics_op \<Rightarrow> bool" where
  "records_only OpInc \<longleftrightarrow> False"
| "records_only OpDec \<longleftrightarrow> False"
| "records_only (OpStatus route backend result fallback) \<longleftrightarrow> True"
| "records_only (OpLogin route backend action) \<longleftrightarrow> True"
| "records_only (OpDialError route backend) \<longleftrightarrow> True"
| "records_only (OpBlock route kind) \<longleftrightarrow> True"
| "records_only (OpBreaker backend) \<longleftrightarrow> True"

definition runs_to :: "('op \<Rightarrow> 's \<Rightarrow> 's) \<Rightarrow> ('op \<Rightarrow> bool) \<Rightarrow> 's option \<Rightarrow> 's option \<Rightarrow> bool" where
  "runs_to step ok s s' \<longleftrightarrow> (\<exists>ops. list_all ok ops \<and> s' = map_option (run step ops) s)"

definition evolves :: "World \<Rightarrow> World \<Rightarrow> bool" where
  "evolves w w' \<longleftrightarrow>
     (clock_ok w \<longrightarrow> clock_ok w' \<and> runs_to guard_step guard_op_ok (w_guard w) (w_guard w')) \<and>
     runs_to cache_step (\<lambda>_. True) (w_cache w) (w_cache w') \<and>
     runs_to health_step (\<lambda>_. True) (w_health w) (w_health w') \<and>
     runs_to metrics_step records_only (w_metrics w) (w_metrics w') \<and>
     w_dial w' = w_dial w \<and> w_schedule w' = w_schedule w \<and>
     remote_addr (w_client w') = remote_addr (w_client w) \<and>
     (\<exists>bs. outp (w_client w') = outp (w_client w) @ bs) \<and>
     (\<exists>calls. w_dialed w' = w_dialed w @ calls) \<and>
     w_log w' = w_log w"

lemma runs_to_refl [simp, intro]: "runs_to step ok s s"
  unfolding runs_to_def by (rule exI [of _ "[]"]) (cases s; simp add: run_def)

lemma runs_to_trans: "runs_to step ok s s' \<Longrightarrow> runs_to step ok s' s'' \<Longrightarrow> runs_to step ok s s''"
  unfolding runs_to_def by (elim exE conjE, rule_tac x = "ops @ opsa" in exI) (cases s; simp)

lemma runs_to_step: "ok x \<Longrightarrow> runs_to step ok (Some s) (Some (step x s))"
  unfolding runs_to_def by (rule exI [of _ "[x]"]) simp

lemma runs_to_map: "ok x \<Longrightarrow> runs_to step ok s (map_option (step x) s)"
  by (cases s) (simp_all add: runs_to_step)

lemma evolves_refl [simp, intro]: "evolves w w"
  by (simp add: evolves_def)

lemma evolves_trans: "evolves w w' \<Longrightarrow> evolves w' w'' \<Longrightarrow> evolves w w''"
  unfolding evolves_def by (auto intro: runs_to_trans)

named_theorems evo \<open>a call of a helper evolves the world\<close>

lemma clock_ok_tick: "clock_ok w \<Longrightarrow> 0 < w_clock w 0 \<and> (\<forall>n. 0 < w_clock w (Suc n))"
  by (simp add: clock_ok_def)

lemmas world_defs = w_now_def tick_def Let_def w_metric_def w_logged_def

lemma w_now_evolves [evo]: "w_now w = (now, w') \<Longrightarrow> evolves w w'"
  by (auto simp: world_defs evolves_def clock_ok_def)

lemma w_metric_evolves:
  assumes "f = metrics_step x" "records_only x"
  shows "evolves w (w_metric f w)"
  using assms by (auto simp: world_defs evolves_def clock_ok_def runs_to_map)

lemma w_metrics_evolve [evo]:
  "evolves w (w_metric (RecordStatus route b result fallback) w)"
  "evolves w (w_metric (RecordLogin route b act) w)"
  "evolves w (w_metric (RecordBackendDialError route b) w)"
  "evolves w (w_metric (RecordFail2BanBlock route kind) w)"
  "evolves w (w_metric (RecordStatusCircuitBreaker b) w)"
  by (rule w_metric_evolves [of _ "OpStatus route b result fallback"] w_metric_evolves [of _ "OpLogin route b act"]
      w_metric_evolves [of _ "OpDialError route b"] w_metric_evolves [of _ "OpBlock route kind"]
      w_metric_evolves [of _ "OpBreaker b"]; simp add: fun_eq_iff)+

lemma client_ReadPacket_evolves [evo]: "client_ReadPacket m w = (res, w') \<Longrightarrow> evolves w w'"
  by (auto simp: client_ReadPacket_def conn_ReadPacket_def evolves_def clock_ok_def split: prod.splits)

lemma client_Write_evolves [evo]: "client_Write bs w = (res, w') \<Longrightarrow> evolves w w'"
proof -
  assume w': "client_Write bs w = (res, w')"
  obtain err c where c: "Write bs (w_client w) = (err, c)" by fastforce
  have "remote_addr c = remote_addr (w_client w)" "\<exists>n. outp c = outp (w_client w) @ take n bs"
    using Write_inp(2) [of bs "w_client w"] Write_prefix [of bs "w_client w"] by (simp_all add: c)
  with w' c show ?thesis by (auto simp: client_Write_def evolves_def clock_ok_def)
qed

lemma backend_evolves [evo]:
  "backend_ReadPacket m w = (res, w') \<Longrightarrow> evolves w w'"
  "backend_Write bs w = (err, w') \<Longrightarrow> evolves w w'"
  "evolves w (backend_Close w)"
  "call_dial call w = (err, w') \<Longrightarrow> evolves w w'"
  by (auto simp: backend_ReadPacket_def backend_Write_def backend_Close_def call_dial_def evolves_def clock_ok_def Let_def
      split: prod.splits option.splits sum.splits)

lemma guard_calls_evolve [evo]:
  "isBanned route kind v w = (b, w') \<Longrightarrow> evolves w w'"
  "evolves w (recordFailure route kind v w)"
  "evolves w (recordSuccess route kind v w)"
proof -
  have ban: "evolves w (w\<lparr>w_clock := \<lambda>n. w_clock w (Suc n), w_guard := Some (guard_step x g)\<rparr>)"
    if "w_guard w = Some g" "clock_ok w \<Longrightarrow> guard_op_ok x" for g x
    using that by (auto simp: evolves_def clock_ok_def runs_to_step)
  have plain: "evolves w (w\<lparr>w_guard := Some (guard_step x g)\<rparr>)" if "w_guard w = Some g" "guard_op_ok x" for g x
    using that by (auto simp: evolves_def clock_ok_def runs_to_step)
  show "evolves w w'" if "isBanned route kind v w = (b, w')"
    using that ban [of _ "Op_IsBanned (w_clock w 0) route kind v"]
    by (auto simp: isBanned_def world_defs clock_ok_def split: option.splits prod.splits)
  show "evolves w (recordFailure route kind v w)"
    using ban [of _ "Op_RecordFailure (w_clock w 0) route kind v"]
    by (auto simp: recordFailure_def world_defs clock_ok_def split: option.splits prod.splits)
  show "evolves w (recordSuccess route kind v w)"
    using plain [of _ "Op_RecordSuccess route kind v"]
    by (auto simp: recordSuccess_def split: option.splits)
qed

lemma health_calls_evolve [evo]:
  "evolves w (recordBackendHealthFailure b e w)"
  "evolves w (recordBackendHealthSuccess b w)"
  "backendUnhealthy b w = (u, w') \<Longrightarrow> evolves w w'"
  using runs_to_step [of "\<lambda>_. True" "OpFailure (w_clock w 0) (w_clock w (Suc 0)) (Addr b) (Some e)" health_step]
    runs_to_step [of "\<lambda>_. True" "OpSuccess (w_clock w 0) (Addr b)" health_step]
  by (auto simp: recordBackendHealthFailure_def recordBackendHealthSuccess_def backendUnhealthy_def world_defs
      evolves_def clock_ok_def split: option.splits)

lemma cache_calls_evolve [evo]:
  "cacheGet key w = (res, w') \<Longrightarrow> evolves w w'"
  "evolves w (cacheSet s key d w)"
  "statusFallback s key v enabled w = (res, w') \<Longrightarrow> evolves w w'"
  using runs_to_step [of "\<lambda>_. True" "Op_Get key (w_clock w 0) (w_clock w (Suc 0))" cache_step]
    runs_to_step [of "\<lambda>_. True" "Op_Set key d (StatusCacheTTL (options s)) (motdFallbackTTL s) (w_clock w 0)" cache_step]
    runs_to_step [of "\<lambda>_. True" "Op_GetFallback key v (StatusFallback (options s)) (w_clock w 0)" cache_step]
  by (auto simp: cacheGet_def cacheSet_def statusFallback_def world_defs
      evolves_def clock_ok_def split: option.splits prod.splits if_splits) (metis snd_conv)+

lemmas evo_calls = w_now_evolves client_ReadPacket_evolves client_Write_evolves backend_evolves(1,2,4)
  guard_calls_evolve(1) health_calls_evolve(3) cache_calls_evolve(1,3)

lemma recordLoginFailure_evolves [evo]: "evolves w (recordLoginFailure route ip username w)"
  by (auto simp: recordLoginFailure_def Let_def intro: evolves_trans evo)

lemma recordEarlyLoginFailure_evolves [evo]: "evolves w (recordEarlyLoginFailure start route ip username w)"
proof -
  have "evolves w (recordLoginFailure route ip username w')" if "w_now w = (now, w')" for now w'
    using evolves_trans [OF w_now_evolves [OF that] recordLoginFailure_evolves] .
  then show ?thesis
    by (auto simp: recordEarlyLoginFailure_def Let_def intro: evo split: option.splits prod.splits)
qed

lemma shouldRecordFailure_evolves [evo]: "shouldRecordFailure start stats w = (b, w') \<Longrightarrow> evolves w w'"
  by (auto simp: shouldRecordFailure_def Let_def intro: evo split: option.splits prod.splits if_splits)

lemma recordBackendDialError_evolves [evo]: "evolves w (recordBackendDialError route b w)"
  by (auto simp: recordBackendDialError_def intro: evo)

lemma dialStatus_evolves [evo]: "dialStatus s b w = (err, w') \<Longrightarrow> evolves w w'"
  by (auto simp: dialStatus_def intro: evo)

lemma handleCachedPing_evolves [evo]: "handleCachedPing s w = (res, w') \<Longrightarrow> evolves w w'"
  by (auto simp: handleCachedPing_def Let_def intro: evolves_trans evo split: prod.splits sum.splits if_splits)

lemma proxyStatusPing_evolves [evo]: "proxyStatusPing s w = (res, w') \<Longrightarrow> evolves w w'"
  by (auto simp: proxyStatusPing_def Let_def dest!: evo_calls intro: evolves_trans
      split: prod.splits sum.splits if_splits option.splits)

lemma serve_document_evolves: "serve_document s result raw w = (res, w') \<Longrightarrow> evolves w w'"
  by (auto simp: serve_document_def Let_def dest!: evo_calls handleCachedPing_evolves intro: evolves_trans
      split: prod.splits option.splits)

lemma serve_fallback_evolves: "serve_fallback s result key hs enabled failure w = (res, w') \<Longrightarrow> evolves w w'"
  by (auto simp: serve_fallback_def dest!: evo_calls serve_document_evolves intro: evolves_trans
      split: prod.splits option.splits)

lemma status_answer_evolves:
  "status_answer s result b hs key enabled rr w = (res, w') \<Longrightarrow> evolves w w'"
proof -
  assume run: "status_answer s result b hs key enabled rr w = (res, w')"
  show ?thesis
  proof (cases rr)
    case (Inl e)
    with run have "serve_fallback s result key hs enabled (Wrapf ''read status response'' e)
        (recordBackendHealthFailure b e w) = (res, w')" by (simp add: status_answer_def)
    from evolves_trans [OF health_calls_evolve(1) serve_fallback_evolves [OF this]] show ?thesis .
  next
    case (Inr resp)
    show ?thesis
    proof (cases "ID resp = StatusResponsePacketID")
      case False
      with run Inr obtain e where "w' = recordBackendHealthFailure b e w"
        by (auto simp: status_answer_def Let_def)
      with health_calls_evolve(1) show ?thesis by simp
    next
      case True
      obtain e4 w4 where w4: "client_Write (Raw resp) (recordBackendHealthSuccess b w) = (e4, w4)" by fastforce
      note v4 = evolves_trans [OF health_calls_evolve(2) client_Write_evolves [OF w4]]
      let ?w5 = "if enabled then cacheSet s key (Raw resp) w4 else w4"
      obtain r6 w6 where w6: "proxyStatusPing s ?w5 = (r6, w6)" by fastforce
      have "evolves w4 ?w5" by (simp add: cache_calls_evolve(2))
      note v6 = evolves_trans [OF v4 evolves_trans [OF this proxyStatusPing_evolves [OF w6]]]
      have "w' = w4 \<or> w' = w6"
        using run w4 w6 Inr True
        by (cases e4; cases r6; cases enabled) (simp_all add: status_answer_def Let_def)
      with v4 v6 show ?thesis by blast
    qed
  qed
qed

lemma status_exchange_evolves:
  "status_exchange s result b hs hp sr key enabled w = (res, w') \<Longrightarrow> evolves w w'"
proof -
  assume run: "status_exchange s result b hs hp sr key enabled w = (res, w')"
  obtain e1 w1 where w1: "backend_Write (Raw hp) w = (e1, w1)" by fastforce
  obtain e2 w2 where w2: "backend_Write (Raw sr) w1 = (e2, w2)" by fastforce
  obtain rr w3 where w3: "backend_ReadPacket (MaxStatusResponseSize (options s)) w2 = (rr, w3)" by fastforce
  note v1 = backend_evolves(2) [OF w1]
  note v2 = evolves_trans [OF v1 backend_evolves(2) [OF w2]]
  note v3 = evolves_trans [OF v2 backend_evolves(1) [OF w3]]
  show ?thesis
    using run w1 w2 w3 evolves_trans [OF v1 health_calls_evolve(1)] evolves_trans [OF v2 health_calls_evolve(1)]
      evolves_trans [OF v3 status_answer_evolves]
    by (cases e1; cases e2) (auto simp: status_exchange_def)
qed

lemma status_via_backend_evolves:
  "status_via_backend s result b hs hp sr key enabled w = (res, w') \<Longrightarrow> evolves w w'"
proof -
  assume run: "status_via_backend s result b hs hp sr key enabled w = (res, w')"
  obtain e1 w1 where w1: "dialStatus s b w = (e1, w1)" by fastforce
  then have e1: "evolves w w1" by (rule dialStatus_evolves)
  show ?thesis
  proof (cases e1)
    case None
    obtain r2 w2 where w2: "status_exchange s result b hs hp sr key enabled w1 = (r2, w2)" by fastforce
    with run w1 None have "w' = backend_Close w2" by (simp add: status_via_backend_def)
    with evolves_trans [OF e1 evolves_trans [OF status_exchange_evolves [OF w2] backend_evolves(3)]]
    show ?thesis by simp
  next
    case (Some e)
    with run w1 have "serve_fallback s result key hs enabled (Wrapf ''backend dial'' e)
        (recordBackendHealthFailure b e (recordBackendDialError (NormalizeHost (ServerAddress hs)) b w1)) = (res, w')"
      by (simp add: status_via_backend_def Let_def)
    from evolves_trans [OF e1 evolves_trans [OF recordBackendDialError_evolves
          evolves_trans [OF health_calls_evolve(1) serve_fallback_evolves [OF this]]]]
    show ?thesis .
  qed
qed

lemma status_miss_evolves:
  "status_miss s result b hs hp sr key enabled w = (res, w') \<Longrightarrow> evolves w w'"
proof -
  assume run: "status_miss s result b hs hp sr key enabled w = (res, w')"
  obtain u w1 where w1: "(if StatusFallbackWhenUnhealthy (options s) then backendUnhealthy b w else (False, w)) = (u, w1)"
    by fastforce
  then have e1: "evolves w w1" by (auto dest: health_calls_evolve(3) split: if_splits)
  show ?thesis
  proof (cases u)
    case True
    with run w1 have "serve_fallback s result key hs enabled (Errorf ''backend unhealthy and no status fallback available'')
        (w_metric (RecordStatusCircuitBreaker (Addr b)) w1) = (res, w')"
      by (simp add: status_miss_def)
    from evolves_trans [OF e1 evolves_trans [OF w_metrics_evolve(5) serve_fallback_evolves [OF this]]]
    show ?thesis .
  next
    case False
    with run w1 have "status_via_backend s result b hs hp sr key enabled w1 = (res, w')"
      by (simp add: status_miss_def)
    from evolves_trans [OF e1 status_via_backend_evolves [OF this]] show ?thesis .
  qed
qed

lemma handleStatus_evolves: "handleStatus s b hs hp w = (res, w') \<Longrightarrow> evolves w w'"
proof -
  assume run: "handleStatus s b hs hp w = (res, w')"
  obtain r1 w1 where w1: "client_ReadPacket (MaxHandshakeSize (options s)) w = (r1, w1)" by fastforce
  then have e1: "evolves w w1" by (rule client_ReadPacket_evolves)
  obtain hit w2 where w2: "(if statusCacheEnabled s b then cacheGet (statusCacheKey b hs) w1 else (None, w1)) = (hit, w2)"
    by fastforce
  then have e2: "evolves w1 w2" by (auto dest: cache_calls_evolve(1) split: if_splits)
  consider "w' = w1" | result raw where "serve_document s result raw w2 = (res, w')"
    | result sr where "status_miss s result b hs hp sr (statusCacheKey b hs) (statusCacheEnabled s b) w2 = (res, w')"
    using run unfolding handleStatus_def Let_def w1 prod.case w2
    by (auto split: sum.splits if_splits option.splits)
  then show ?thesis
    using e1 e2 serve_document_evolves status_miss_evolves evolves_trans by cases metis+
qed

text \<open>The copying writes to the client what the backend sent, from the front.\<close>

lemma proxy_conns_evolves: "proxy_conns w = (stats, w') \<Longrightarrow> evolves w w'"
  by (auto simp: proxy_conns_def Let_def evolves_def clock_ok_def split: option.splits)

lemma login_proxy_evolves: "login_proxy s result route ip username w = (res, w') \<Longrightarrow> evolves w w'"
proof -
  assume run: "login_proxy s result route ip username w = (res, w')"
  obtain start w1 where w1: "w_now w = (start, w1)" by fastforce
  obtain stats w2 where w2: "proxy_conns w1 = (stats, w2)" by fastforce
  obtain failed w3 where w3: "shouldRecordFailure start stats w2 = (failed, w3)" by fastforce
  from evolves_trans [OF w_now_evolves [OF w1]
      evolves_trans [OF proxy_conns_evolves [OF w2] shouldRecordFailure_evolves [OF w3]]]
  have e3: "evolves w w3" .
  let ?w4 = "recordSuccess route ''ip'' ip w3"
  have "evolves ?w4 (if username \<noteq> '''' then recordSuccess route ''player'' username ?w4 else ?w4)"
    by (simp add: guard_calls_evolve(3))
  from evolves_trans [OF e3 evolves_trans [OF guard_calls_evolve(3) this]]
    evolves_trans [OF e3 recordLoginFailure_evolves [of w3 route ip username]]
  show ?thesis using run by (cases failed) (auto simp: login_proxy_def w1 w2 w3 Let_def)
qed

lemma login_forward_evolves:
  "login_forward s result b route hp ls ip username w = (res, w') \<Longrightarrow> evolves w w'"
proof -
  assume run: "login_forward s result b route hp ls ip username w = (res, w')"
  obtain observed w0 where w0: "w_now w = (observed, w0)" by fastforce
  obtain e1 w1 where w1: "call_dial (Dial b) w0 = (e1, w1)" by fastforce
  obtain e2 w2 where w2: "backend_Write (Raw hp) w1 = (e2, w2)" by fastforce
  obtain e3 w3 where w3: "backend_Write (Raw ls) w2 = (e3, w3)" by fastforce
  note v1 = evolves_trans [OF w_now_evolves [OF w0] backend_evolves(4) [OF w1]]
  note v2 = evolves_trans [OF v1 backend_evolves(2) [OF w2]]
  note v3 = evolves_trans [OF v2 backend_evolves(2) [OF w3]]
  note early = evolves_trans [OF recordEarlyLoginFailure_evolves backend_evolves(3)]
  show ?thesis
    using run v1 v2 v3 w0 w1 w2 w3 login_proxy_evolves [of s result route ip username w3 res w']
      evolves_trans [OF v1 recordBackendDialError_evolves] evolves_trans [OF v2 early] evolves_trans [OF v3 early]
      evolves_trans [OF v3, of w']
    by (cases e1; cases e2; cases e3) (simp_all add: login_forward_def, auto)
qed

lemma WritePacket_NewPacket_client: "WritePacket c (NewPacket i d) = Write (Raw (NewPacket i d)) c"
  by (simp add: WritePacket_def)

lemma BuildLoginDisconnect_write: "WritePacket c (BuildLoginDisconnect json) = Write (Raw (BuildLoginDisconnect json)) c"
  by (simp add: BuildLoginDisconnect_def WritePacket_NewPacket_client)

lemma login_identified_evolves:
  "login_identified s result b route hp ls ip username w = (res, w') \<Longrightarrow> evolves w w'"
proof -
  assume run: "login_identified s result b route hp ls ip username w = (res, w')"
  obtain pb w1 where w1: "(if username \<noteq> '''' then isBanned route ''player'' username w else (False, w)) = (pb, w1)"
    by fastforce
  then have v1: "evolves w w1" by (auto dest: guard_calls_evolve(1) split: if_splits)
  show ?thesis
  proof (cases pb)
    case True
    obtain e2 c where c: "WritePacket (w_client w1) (BuildLoginDisconnect banned_json) = (e2, c)" by fastforce
    then have "client_Write (Raw (BuildLoginDisconnect banned_json)) w1 = (e2, w1\<lparr>w_client := c\<rparr>)"
      by (simp add: client_Write_def BuildLoginDisconnect_write)
    note v2 = evolves_trans [OF v1 client_Write_evolves [OF this]]
    with run w1 c True show ?thesis by (auto simp: login_identified_def)
  next
    case False
    with run w1 have "login_forward s result b route hp ls ip username w1 = (res, w')"
      by (simp add: login_identified_def)
    from evolves_trans [OF v1 login_forward_evolves [OF this]] show ?thesis .
  qed
qed

lemma handleLogin_evolves: "handleLogin s b route hs hp ip w = (res, w') \<Longrightarrow> evolves w w'"
proof -
  assume run: "handleLogin s b route hs hp ip w = (res, w')"
  let ?route = "if route = '''' then routeKey b else route"
  obtain banned w1 where w1: "isBanned ?route ''ip'' ip w = (banned, w1)" by fastforce
  obtain r2 w2 where w2: "client_ReadPacket (MaxHandshakeSize (options s)) w1 = (r2, w2)" by fastforce
  note v1 = guard_calls_evolve(1) [OF w1]
  note v2 = evolves_trans [OF v1 client_ReadPacket_evolves [OF w2]]
  show ?thesis
  proof (cases "banned \<or> (\<exists>e. r2 = Inl e)")
    case True
    with run v1 v2 w1 w2 show ?thesis by (cases banned) (auto simp: handleLogin_def Let_def)
  next
    case False
    then obtain ls where "r2 = Inr ls" "\<not> banned" by (cases r2) auto
    with run w1 w2 obtain result
      where "login_identified s result b ?route hp ls ip (login_username ls hs) w2 = (res, w')"
      by (auto simp: handleLogin_def Let_def)
    from evolves_trans [OF v2 login_identified_evolves [OF this]] show ?thesis .
  qed
qed

lemma record_login_metrics_evolves: "evolves w (record_login_metrics host b result w)"
  unfolding record_login_metrics_def Let_def
  by (auto intro: evolves_trans w_metrics_evolve)

text \<open>A handler leaves one record of the connection, as its last step.\<close>

lemma dispatch_evolves: "\<exists>e w'. evolves w w' \<and> dispatch s b host hs hp w = w_logged e w'"
proof -
  obtain r1 e1 w1 where w1: "handleStatus s b hs hp w = ((r1, e1), w1)" by (metis prod.collapse)
  obtain r2 e2 w2 where w2: "handleLogin s b host hs hp (remoteIP (w_client w)) w = ((r2, e2), w2)"
    by (metis prod.collapse)
  note v1 = evolves_trans [OF handleStatus_evolves [OF w1] w_metrics_evolve(1)]
  note v2 = evolves_trans [OF handleLogin_evolves [OF w2] record_login_metrics_evolves]
  show ?thesis
    unfolding dispatch_def w1 w2 Let_def prod.case using v1 v2 evolves_refl [of w] by (simp split: if_split) blast
qed

lemma handle_client_evolves: "\<exists>e w'. evolves w w' \<and> handle_client s w = w_logged e w'"
proof -
  obtain r1 w1 where w1: "client_ReadPacket (MaxHandshakeSize (options s)) w = (r1, w1)" by fastforce
  note v1 = client_ReadPacket_evolves [OF w1]
  have "\<exists>e w'. evolves w w' \<and> dispatch s b host hs hp w1 = w_logged e w'" for b host hs hp
    using dispatch_evolves [of w1 s b host hs hp] evolves_trans [OF v1] by blast
  with v1 show ?thesis
    unfolding handle_client_def w1 prod.case Let_def by (auto split: sum.split option.split)
qed

end
