(* ===== verification/Relay.thy ===== *)
theory Relay
  imports Server "HOL-Library.Sublist"
begin

text \<open>
  What travels through the proxy: the backend of a connection never sees anything but the bytes
  the client sent, in order and from the first one on, and in a login the client never sees
  anything but the backend's bytes.
\<close>

section \<open>Helpers that do not touch the connections\<close>

definition conns :: "World \<Rightarrow> conn \<times> conn option \<times> (dial_call \<Rightarrow> go_error + conn) \<times> dial_call list \<times> pipe_event list" where
  "conns w = (w_client w, w_backend w, w_dial w, w_dialed w, w_schedule w)"

lemma conns_now: "w_now w = (now, w') \<Longrightarrow> conns w' = conns w"
  by (auto simp: world_defs conns_def)

lemma conns_metric [simp]: "conns (w_metric f w) = conns w" "conns (w_logged e w) = conns w"
  by (simp_all add: world_defs conns_def)

lemma conns_guard [simp]:
  "conns (recordFailure route kind v w) = conns w"
  "conns (recordSuccess route kind v w) = conns w"
  "conns (recordLoginFailure route ip username w) = conns w"
  by (simp_all add: recordFailure_def recordSuccess_def recordLoginFailure_def world_defs conns_def split: option.splits)

lemma conns_early [simp]: "conns (recordEarlyLoginFailure start route ip username w) = conns w"
proof -
  have "conns (recordLoginFailure route ip username (w\<lparr>w_clock := c\<rparr>)) = conns w" for c
    by simp (simp add: conns_def)
  then show ?thesis
    by (simp add: recordEarlyLoginFailure_def world_defs split: option.splits)
qed

lemma conns_isBanned: "isBanned route kind v w = (b, w') \<Longrightarrow> conns w' = conns w"
  by (auto simp: isBanned_def world_defs conns_def split: option.splits prod.splits)

lemma conns_should: "shouldRecordFailure start stats w = (b, w') \<Longrightarrow> conns w' = conns w"
  by (auto simp: shouldRecordFailure_def world_defs conns_def split: option.splits if_splits)

lemma conns_dial_error [simp]: "conns (recordBackendDialError route b w) = conns w"
  by (simp add: recordBackendDialError_def)

lemma conns_health [simp]:
  "conns (recordBackendHealthFailure b e w) = conns w"
  "conns (recordBackendHealthSuccess b w) = conns w"
  by (simp_all add: recordBackendHealthFailure_def recordBackendHealthSuccess_def world_defs conns_def split: option.splits)

lemma conns_unhealthy: "backendUnhealthy b w = (u, w') \<Longrightarrow> conns w' = conns w"
  by (auto simp: backendUnhealthy_def world_defs conns_def split: option.splits)

lemma conns_cache:
  "cacheGet key w = (res, w') \<Longrightarrow> conns w' = conns w"
  "conns (cacheSet s key d w) = conns w"
  "statusFallback s key v enabled w = (res, w') \<Longrightarrow> conns w' = conns w"
  by (auto simp: cacheGet_def cacheSet_def statusFallback_def world_defs conns_def
      split: option.splits prod.splits if_splits)

lemma conns_eqD:
  "conns w = conns w' \<Longrightarrow> w_client w = w_client w' \<and> w_backend w = w_backend w' \<and> w_dial w = w_dial w'
     \<and> w_dialed w = w_dialed w' \<and> w_schedule w = w_schedule w'"
  by (simp add: conns_def)

section \<open>Single calls\<close>

lemma client_ReadPacket_Inr:
  "client_ReadPacket m w = (Inr p, w') \<Longrightarrow>
     pending (inp (w_client w)) = Raw p @ pending (inp (w_client w')) \<and> outp (w_client w') = outp (w_client w) \<and>
     closed (w_client w') = closed (w_client w) \<and>
     w_backend w' = w_backend w \<and> w_dial w' = w_dial w \<and> w_dialed w' = w_dialed w \<and> w_schedule w' = w_schedule w"
  by (auto simp: client_ReadPacket_def conn_ReadPacket_def split: prod.splits dest: ReadPacket_Inr)

lemma client_ReadPacket_frame:
  "client_ReadPacket m w = (res, w') \<Longrightarrow>
     outp (w_client w') = outp (w_client w) \<and> w_backend w' = w_backend w \<and> w_dial w' = w_dial w \<and>
     w_dialed w' = w_dialed w \<and> w_schedule w' = w_schedule w \<and> w_guard w' = w_guard w \<and> w_cache w' = w_cache w
     \<and> w_clock w' = w_clock w \<and> w_health w' = w_health w \<and> w_metrics w' = w_metrics w
     \<and> remote_addr (w_client w') = remote_addr (w_client w)"
  by (auto simp: client_ReadPacket_def conn_ReadPacket_def split: prod.splits)

lemma client_Write_frame:
  "client_Write bs w = (err, w') \<Longrightarrow>
     inp (w_client w') = inp (w_client w) \<and> w_backend w' = w_backend w \<and> w_dialed w' = w_dialed w"
proof -
  assume w': "client_Write bs w = (err, w')"
  obtain e c where c: "Write bs (w_client w) = (e, c)" by fastforce
  then have "inp c = inp (w_client w)" using Write_inp(1) [of bs "w_client w"] by simp
  with w' c show ?thesis by (auto simp: client_Write_def)
qed

lemma client_Write_prefix:
  "client_Write bs w = (err, w') \<Longrightarrow> \<exists>n. outp (w_client w') = outp (w_client w) @ take n bs"
  using Write_prefix [of bs "w_client w"] by (cases "Write bs (w_client w)") (auto simp: client_Write_def)

lemma client_Write_None:
  "client_Write bs w = (None, w') \<Longrightarrow> outp (w_client w') = outp (w_client w) @ bs"
  using Write_ok [of bs "w_client w"] by (cases "Write bs (w_client w)") (auto simp: client_Write_def)

lemma backend_Write_Some:
  assumes "backend_Write bs w = (err, w')" "w_backend w = Some b"
  shows "\<exists>b' n. w_backend w' = Some b' \<and> outp b' = outp b @ take n bs \<and> inp b' = inp b \<and> (err = None \<longrightarrow> take n bs = bs)
    \<and> w_client w' = w_client w \<and> w_dialed w' = w_dialed w \<and> w_schedule w' = w_schedule w"
proof -
  obtain e c where c: "Write bs b = (e, c)" by fastforce
  have "inp c = inp b" using Write_inp(1) [of bs b] c by simp
  moreover obtain n where "outp c = outp b @ take n bs" using Write_prefix [of bs b] c by auto
  moreover have "e = None \<Longrightarrow> outp c = outp b @ bs" using Write_ok [of bs b c] c by simp
  ultimately show ?thesis using assms c by (auto simp: backend_Write_def intro!: exI [of _ n])
qed

lemma backend_ReadPacket_Some:
  assumes "backend_ReadPacket m w = (res, w')" "w_backend w = Some b"
  shows "\<exists>b'. w_backend w' = Some b' \<and> outp b' = outp b \<and> w_client w' = w_client w \<and> w_dialed w' = w_dialed w
    \<and> (\<forall>p. res = Inr p \<longrightarrow> pending (inp b) = Raw p @ pending (inp b'))"
  using assms by (auto simp: backend_ReadPacket_def conn_ReadPacket_def split: prod.splits dest: ReadPacket_Inr)

lemma handleCachedPing_frame:
  "handleCachedPing s w = (res, w') \<Longrightarrow> w_backend w' = w_backend w \<and> w_dialed w' = w_dialed w"
  by (auto simp: handleCachedPing_def Let_def dest!: client_ReadPacket_frame client_Write_frame
      split: prod.splits sum.splits if_splits)

lemma serve_document_frame:
  "serve_document s result raw w = (res, w') \<Longrightarrow> w_backend w' = w_backend w \<and> w_dialed w' = w_dialed w"
  by (auto simp: serve_document_def Let_def dest!: client_Write_frame handleCachedPing_frame
      split: prod.splits option.splits)

lemma serve_fallback_frame:
  "serve_fallback s result key hs enabled failure w = (res, w') \<Longrightarrow> w_backend w' = w_backend w \<and> w_dialed w' = w_dialed w"
  by (auto simp: serve_fallback_def dest!: conns_cache(3) conns_eqD serve_document_frame
      split: prod.splits option.splits)

section \<open>The bytes the backend sees\<close>

text \<open>
  \<open>sees input w\<close>: the backend, if there is one, has been sent a prefix of \<open>input\<close>.
  \<open>in_step input w\<close>: it has been sent all of \<open>input\<close> but what the client has still to send.
\<close>

definition sees :: "byte list \<Rightarrow> World \<Rightarrow> bool" where
  "sees input w \<longleftrightarrow> (\<forall>b. w_backend w = Some b \<longrightarrow> prefix (outp b) input)"

definition in_step :: "byte list \<Rightarrow> World \<Rightarrow> bool" where
  "in_step input w \<longleftrightarrow> (\<exists>b. w_backend w = Some b \<and> outp b @ pending (inp (w_client w)) = input)"

lemma in_step_sees: "in_step input w \<Longrightarrow> sees input w"
  by (auto simp: in_step_def sees_def prefix_def)

lemma sees_cong: "w_backend w' = w_backend w \<Longrightarrow> sees input w' = sees input w"
  by (simp add: sees_def)

lemma sees_conns: "conns w' = conns w \<Longrightarrow> sees input w' = sees input w"
  by (rule sees_cong) (simp add: conns_def)

lemma in_step_conns: "conns w' = conns w \<Longrightarrow> in_step input w' = in_step input w"
  by (simp add: conns_def in_step_def)

lemma sees_Close [simp]: "sees input (backend_Close w) = sees input w"
  by (auto simp: sees_def backend_Close_def Close_def map_option_case split: option.splits)

text \<open>A write of the packet the client sent next.\<close>

lemma backend_Write_relay:
  assumes "backend_Write (Raw p) w = (err, w')" "w_backend w = Some b"
    and "outp b @ Raw p @ rest = input"
  shows "sees input w'" and "err = None \<Longrightarrow> \<exists>b'. w_backend w' = Some b' \<and> outp b' @ rest = input"
  using backend_Write_Some [OF assms(1,2)] assms(3)
  by (auto simp: sees_def prefix_def) (metis append.assoc append_take_drop_id)

lemma proxyStatusPing_sees:
  assumes "proxyStatusPing s w = (res, w')" "in_step input w"
  shows "sees input w'"
proof -
  obtain b where b: "w_backend w = Some b" "outp b @ pending (inp (w_client w)) = input"
    using assms(2) by (auto simp: in_step_def)
  obtain r1 w1 where w1: "client_ReadPacket (MaxHandshakeSize (options s)) w = (r1, w1)" by fastforce
  show ?thesis
  proof (cases r1)
    case (Inl e)
    with assms w1 client_ReadPacket_frame [OF w1] show ?thesis
      by (auto simp: proxyStatusPing_def dest: in_step_sees intro: sees_cong [THEN iffD2])
  next
    case (Inr ping)
    obtain e2 w2 where w2: "backend_Write (Raw ping) w1 = (e2, w2)" by fastforce
    have "sees input w2"
      using backend_Write_relay(1) [OF w2, of b "pending (inp (w_client w1))" input]
        client_ReadPacket_Inr [of "MaxHandshakeSize (options s)" w ping w1] w1 Inr b by auto
    moreover have "sees input w3" if "backend_ReadPacket m w2 = (r3, w3)" "sees input w2" for m r3 w3
      using that backend_ReadPacket_Some [OF that(1)]
      by (cases "w_backend w2") (auto simp: sees_def backend_ReadPacket_def)
    moreover have "sees input w4" if "client_Write bs w3 = (e4, w4)" "sees input w3" for bs w3 e4 w4
      using that client_Write_frame [OF that(1)] sees_cong by blast
    ultimately show ?thesis
      using assms(1) w1 w2 Inr
      by (auto simp: proxyStatusPing_def Let_def split: option.splits prod.splits sum.splits)
  qed
qed

lemma status_answer_sees:
  assumes run: "status_answer s result b hs key enabled rr w = (res, w')" and w: "in_step input w"
  shows "sees input w'"
proof (cases rr)
  case (Inl e)
  with run have "serve_fallback s result key hs enabled (Wrapf ''read status response'' e)
      (recordBackendHealthFailure b e w) = (res, w')" by (simp add: status_answer_def)
  from serve_fallback_frame [OF this] in_step_sees [OF w] show ?thesis
    using sees_cong sees_conns [OF conns_health(1)] by blast
next
  case (Inr resp)
  show ?thesis
  proof (cases "ID resp = StatusResponsePacketID")
    case False
    with run Inr obtain e where "w' = recordBackendHealthFailure b e w"
      by (auto simp: status_answer_def Let_def)
    with in_step_sees [OF w] show ?thesis by (simp add: sees_conns [OF conns_health(1)])
  next
    case True
    obtain e4 w4 where w4: "client_Write (Raw resp) (recordBackendHealthSuccess b w) = (e4, w4)" by fastforce
    have "in_step input (recordBackendHealthSuccess b w)" using w by (simp add: in_step_conns [OF conns_health(2)])
    then have in4: "in_step input w4" using client_Write_frame [OF w4] by (simp add: in_step_def)
    let ?w5 = "if enabled then cacheSet s key (Raw resp) w4 else w4"
    have in5: "in_step input ?w5" using in4 by (simp add: in_step_conns [OF conns_cache(2)])
    obtain r6 w6 where w6: "proxyStatusPing s ?w5 = (r6, w6)" by fastforce
    have "w' = w4 \<or> w' = w6"
      using run w4 w6 Inr True
      by (cases e4; cases r6; cases enabled) (simp_all add: status_answer_def Let_def)
    with in_step_sees [OF in4] proxyStatusPing_sees [OF w6 in5] show ?thesis by blast
  qed
qed

lemma status_exchange_sees:
  assumes run: "status_exchange s result b hs hp sr key enabled w = (res, w')"
    and bc: "w_backend w = Some bc" "outp bc = []" and input: "input = Raw hp @ Raw sr @ pending (inp (w_client w))"
  shows "sees input w'"
proof -
  obtain e1 w1 where w1: "backend_Write (Raw hp) w = (e1, w1)" by fastforce
  obtain e2 w2 where w2: "backend_Write (Raw sr) w1 = (e2, w2)" by fastforce
  obtain rr w3 where w3: "backend_ReadPacket (MaxStatusResponseSize (options s)) w2 = (rr, w3)" by fastforce
  note relay1 = backend_Write_relay [OF w1 bc(1), of "Raw sr @ pending (inp (w_client w))" input]
  have s1: "sees input w1" using relay1(1) bc(2) input by simp
  show ?thesis
  proof (cases e1)
    case (Some e)
    with run w1 s1 show ?thesis by (auto simp: status_exchange_def sees_conns [OF conns_health(1)])
  next
    case e1: None
    obtain b1 where b1: "w_backend w1 = Some b1" "outp b1 @ Raw sr @ pending (inp (w_client w)) = input"
      using relay1(2) e1 bc(2) input by auto
    note relay2 = backend_Write_relay [OF w2 b1]
    show ?thesis
    proof (cases e2)
      case (Some e)
      with run w1 w2 e1 relay2(1) show ?thesis by (auto simp: status_exchange_def sees_conns [OF conns_health(1)])
    next
      case e2: None
      obtain b2 where b2: "w_backend w2 = Some b2" "outp b2 @ pending (inp (w_client w)) = input"
        using relay2(2) e2 by auto
      have "w_client w1 = w_client w" "w_client w2 = w_client w"
        using backend_Write_Some [OF w1 bc(1)] backend_Write_Some [OF w2 b1(1)] by auto
      then have in3: "in_step input w3"
        using backend_ReadPacket_Some [OF w3 b2(1)] b2(2) by (auto simp: in_step_def)
      from run w1 w2 w3 e1 e2 have "status_answer s result b hs key enabled rr w3 = (res, w')"
        by (simp add: status_exchange_def)
      from status_answer_sees [OF this in3] show ?thesis .
    qed
  qed
qed

text \<open>What dials give: connections on which nothing was written yet.\<close>

definition fresh_dials :: "World \<Rightarrow> bool" where
  "fresh_dials w \<longleftrightarrow> (\<forall>call b. w_dial w call = Inr b \<longrightarrow> outp b = [])"

lemma call_dial_cases:
  assumes "call_dial call w = (err, w')"
  shows "w_client w' = w_client w" "w_dialed w' = w_dialed w @ [call]" "w_schedule w' = w_schedule w"
    "err = None \<Longrightarrow> \<exists>b. w_dial w call = Inr b \<and> w_backend w' = Some b"
    "err \<noteq> None \<Longrightarrow> w_backend w' = w_backend w"
  using assms by (auto simp: call_dial_def Let_def split: sum.splits)

lemma status_via_backend_sees:
  assumes run: "status_via_backend s result b hs hp sr key enabled w = (res, w')"
    and w: "w_backend w = None" "fresh_dials w" and input: "input = Raw hp @ Raw sr @ pending (inp (w_client w))"
  shows "sees input w'"
proof -
  obtain e1 w1 where w1: "dialStatus s b w = (e1, w1)" by fastforce
  note dial = call_dial_cases [OF w1 [unfolded dialStatus_def]]
  show ?thesis
  proof (cases e1)
    case (Some e)
    with run w1 have "serve_fallback s result key hs enabled (Wrapf ''backend dial'' e)
        (recordBackendHealthFailure b e (recordBackendDialError (NormalizeHost (ServerAddress hs)) b w1)) = (res, w')"
      by (simp add: status_via_backend_def Let_def)
    from serve_fallback_frame [OF this] conns_eqD [OF conns_health(1)] conns_eqD [OF conns_dial_error]
    have "w_backend w' = w_backend w1" by metis
    with dial(5) Some w(1) show ?thesis by (simp add: sees_def)
  next
    case None
    obtain bc where bc: "w_backend w1 = Some bc" "outp bc = []" using dial(4) None w(2) by (auto simp: fresh_dials_def)
    obtain r2 w2 where w2: "status_exchange s result b hs hp sr key enabled w1 = (r2, w2)" by fastforce
    have "sees input w2" using status_exchange_sees [OF w2 bc] dial(1) input by simp
    with run w1 w2 None show ?thesis by (auto simp: status_via_backend_def)
  qed
qed

lemma status_miss_sees:
  assumes run: "status_miss s result b hs hp sr key enabled w = (res, w')"
    and w: "w_backend w = None" "fresh_dials w" and input: "input = Raw hp @ Raw sr @ pending (inp (w_client w))"
  shows "sees input w'"
proof -
  obtain u w1 where w1: "(if StatusFallbackWhenUnhealthy (options s) then backendUnhealthy b w else (False, w)) = (u, w1)"
    by fastforce
  then have "conns w1 = conns w" by (auto dest: conns_unhealthy split: if_splits)
  note same = conns_eqD [OF this]
  show ?thesis
  proof (cases u)
    case True
    with run w1 have "serve_fallback s result key hs enabled (Errorf ''backend unhealthy and no status fallback available'')
        (w_metric (RecordStatusCircuitBreaker (Addr b)) w1) = (res, w')"
      by (simp add: status_miss_def)
    from serve_fallback_frame [OF this] conns_eqD [OF conns_metric(1)] have "w_backend w' = w_backend w1" by metis
    with same w(1) show ?thesis by (simp add: sees_def)
  next
    case False
    with run w1 have "status_via_backend s result b hs hp sr key enabled w1 = (res, w')"
      by (simp add: status_miss_def)
    from status_via_backend_sees [OF this] same w input show ?thesis by (simp add: fresh_dials_def)
  qed
qed

lemma handleStatus_sees:
  assumes run: "handleStatus s b hs hp w = (res, w')"
    and w: "w_backend w = None" "fresh_dials w" and input: "input = Raw hp @ pending (inp (w_client w))"
  shows "sees input w'"
proof -
  obtain r1 w1 where w1: "client_ReadPacket (MaxHandshakeSize (options s)) w = (r1, w1)" by fastforce
  obtain hit w2 where w2: "(if statusCacheEnabled s b then cacheGet (statusCacheKey b hs) w1 else (None, w1)) = (hit, w2)"
    by fastforce
  have "conns w2 = conns w1" using w2 by (auto dest: conns_cache(1) split: if_splits)
  note same = conns_eqD [OF this]
  note read = client_ReadPacket_frame [OF w1]
  show ?thesis
  proof (cases r1)
    case (Inl e)
    with run w1 read w show ?thesis by (auto simp: handleStatus_def Let_def sees_def)
  next
    case (Inr sr)
    with w1 have sr: "pending (inp (w_client w)) = Raw sr @ pending (inp (w_client w1))"
      by (auto dest: client_ReadPacket_Inr)
    consider "w' = w1" | result raw where "serve_document s result raw w2 = (res, w')"
      | result where "status_miss s result b hs hp sr (statusCacheKey b hs) (statusCacheEnabled s b) w2 = (res, w')"
      using run Inr w1 w2 unfolding handleStatus_def Let_def by (auto split: if_splits option.splits)
    then show ?thesis
    proof cases
      case 1
      with read w show ?thesis by (simp add: sees_def)
    next
      case 2
      from serve_document_frame [OF this] same read w show ?thesis by (simp add: sees_def)
    next
      case 3
      from status_miss_sees [OF this] same read w sr input show ?thesis by (simp add: fresh_dials_def)
    qed
  qed
qed

section \<open>Logins\<close>

text \<open>The copying at the end of a login, in both directions.\<close>

lemma proxy_conns_Some:
  assumes "proxy_conns w = (stats, w')" "w_backend w = Some b"
  shows "\<exists>b' lost_b lost_c.
     w_backend w' = Some b' \<and> closed b' \<and> closed (w_client w') \<and>
     (\<exists>sent. outp b' = outp b @ sent \<and> pending (inp (w_client w)) = sent @ lost_c) \<and>
     (\<exists>sent. outp (w_client w') = outp (w_client w) @ sent \<and> pending (inp b) = sent @ lost_b \<and>
        backendToClient stats = length sent)"
proof -
  let ?p = "ProxyBidirectional (w_schedule w) (pending (inp (w_client w))) (pending (inp b))"
  obtain lost_c where c: "pending (inp (w_client w)) = delivered (copiers ?p ClientToBackend) @ lost_c"
    using ProxyBidirectional_delivered(1) by blast
  obtain lost_b where b: "pending (inp b) = delivered (copiers ?p BackendToClient) @ lost_b"
    using ProxyBidirectional_delivered(2) by blast
  have "backendToClient (pipe_stats ?p) = length (delivered (copiers ?p BackendToClient))"
    by (simp add: pipe_stats_def pipe_inv_written [OF ProxyBidirectional_inv])
  with assms c b show ?thesis
    by (intro exI [of _ "b\<lparr>outp := outp b @ delivered (copiers ?p ClientToBackend),
            inp := (inp b)\<lparr>pending := unread (copiers ?p BackendToClient)\<rparr>, closed := True\<rparr>"]
          exI [of _ lost_b] exI [of _ lost_c])
      (auto simp: proxy_conns_def Let_def)
qed

lemma login_proxy_conns:
  assumes run: "login_proxy s result route ip username w = (res, w')"
  shows "\<exists>w0 stats w1. conns w0 = conns w \<and> proxy_conns w0 = (stats, w1) \<and> conns w' = conns w1 \<and> snd res = None \<and>
    Stats (fst res) = stats"
proof -
  obtain start w1 where w1: "w_now w = (start, w1)" by fastforce
  obtain stats w2 where w2: "proxy_conns w1 = (stats, w2)" by fastforce
  obtain failed w3 where w3: "shouldRecordFailure start stats w2 = (failed, w3)" by fastforce
  have "conns w' = conns w3 \<and> snd res = None \<and> Stats (fst res) = stats"
    using run by (cases failed; cases "username = ''''") (auto simp: login_proxy_def w1 w2 w3 Let_def)
  with conns_now [OF w1] conns_should [OF w3] w2 show ?thesis by metis
qed

lemma login_proxy_sees:
  assumes run: "login_proxy s result route ip username w = (res, w')"
    and "w_backend w = Some b" "outp b @ pending (inp (w_client w)) = input"
  shows "sees input w'"
proof -
  obtain w0 stats w1 where w: "conns w0 = conns w" "proxy_conns w0 = (stats, w1)" "conns w' = conns w1"
    using login_proxy_conns [OF run] by blast
  note same = conns_eqD [OF w(1)]
  have "w_backend w0 = Some b" using same assms(2) by simp
  from proxy_conns_Some [OF w(2) this] have "sees input w1"
    using assms(3) same by (auto simp: sees_def prefix_def)
  with sees_conns [OF w(3)] show ?thesis by simp
qed

lemma login_forward_sees:
  assumes run: "login_forward s result b route hp ls ip username w = (res, w')"
    and w: "w_backend w = None" "fresh_dials w" and input: "input = Raw hp @ Raw ls @ pending (inp (w_client w))"
  shows "sees input w'"
proof -
  obtain observed w0 where w0: "w_now w = (observed, w0)" by fastforce
  note same = conns_eqD [OF conns_now [OF w0]]
  obtain e1 w1 where w1: "call_dial (Dial b) w0 = (e1, w1)" by fastforce
  note dial = call_dial_cases [OF w1]
  obtain e2 w2 where w2: "backend_Write (Raw hp) w1 = (e2, w2)" by fastforce
  obtain e3 w3 where w3: "backend_Write (Raw ls) w2 = (e3, w3)" by fastforce
  show ?thesis
  proof (cases e1)
    case (Some e)
    then have "sees input w1" using dial(5) same w(1) by (simp add: sees_def)
    with run w0 w1 Some show ?thesis by (auto simp: login_forward_def sees_conns [OF conns_dial_error])
  next
    case e1: None
    obtain bc where bc: "w_backend w1 = Some bc" "outp bc = []"
      using dial(4) e1 w(2) same by (auto simp: fresh_dials_def)
    note relay1 = backend_Write_relay [OF w2 bc(1), of "Raw ls @ pending (inp (w_client w))" input]
    show ?thesis
    proof (cases e2)
      case (Some e)
      have "sees input w2" using relay1(1) bc(2) input by simp
      with run w0 w1 w2 e1 Some show ?thesis by (auto simp: login_forward_def sees_conns [OF conns_early])
    next
      case e2: None
      obtain b2 where b2: "w_backend w2 = Some b2" "outp b2 @ Raw ls @ pending (inp (w_client w)) = input"
        using relay1(2) e2 bc(2) input by auto
      note relay2 = backend_Write_relay [OF w3 b2]
      show ?thesis
      proof (cases e3)
        case (Some e)
        with run w0 w1 w2 w3 e1 e2 relay2(1) show ?thesis
          by (auto simp: login_forward_def sees_conns [OF conns_early])
      next
        case e3: None
        obtain b3 where b3: "w_backend w3 = Some b3" "outp b3 @ pending (inp (w_client w)) = input"
          using relay2(2) e3 by auto
        have "w_client w3 = w_client w"
          using backend_Write_Some [OF w2 bc(1)] backend_Write_Some [OF w3 b2(1)] dial(1) same by auto
        moreover from run w0 w1 w2 w3 e1 e2 e3 have "login_proxy s result route ip username w3 = (res, w')"
          by (simp add: login_forward_def)
        ultimately show ?thesis using login_proxy_sees b3 by metis
      qed
    qed
  qed
qed

lemma login_identified_cases:
  assumes run: "login_identified s result b route hp ls ip username w = (res, w')"
  obtains (refused) w1 e where "conns w1 = conns w"
      "client_Write (Raw (BuildLoginDisconnect banned_json)) w1 = (e, w')"
      "Fail2BanAction (fst res) = ''player_banned''" "snd res = Some (Errorf ''fail2ban player banned'')"
  | (forwarded) w1 where "conns w1 = conns w" "login_forward s result b route hp ls ip username w1 = (res, w')"
proof -
  obtain pb w1 where w1: "(if username \<noteq> '''' then isBanned route ''player'' username w else (False, w)) = (pb, w1)"
    by fastforce
  then have same: "conns w1 = conns w" by (auto dest: conns_isBanned split: if_splits)
  show ?thesis
  proof (cases pb)
    case True
    obtain e2 c where c: "WritePacket (w_client w1) (BuildLoginDisconnect banned_json) = (e2, c)" by fastforce
    then have "client_Write (Raw (BuildLoginDisconnect banned_json)) w1 = (e2, w1\<lparr>w_client := c\<rparr>)"
      by (simp add: client_Write_def BuildLoginDisconnect_write)
    with run w1 c True show ?thesis by (intro refused [OF same]) (auto simp: login_identified_def)
  next
    case False
    with run w1 show ?thesis by (intro forwarded [OF same]) (simp add: login_identified_def)
  qed
qed

lemma login_identified_sees:
  assumes run: "login_identified s result b route hp ls ip username w = (res, w')"
    and w: "w_backend w = None" "fresh_dials w" and input: "input = Raw hp @ Raw ls @ pending (inp (w_client w))"
  shows "sees input w'"
  using run
proof (cases rule: login_identified_cases)
  case (refused w1 e)
  with client_Write_frame [OF refused(2)] conns_eqD [OF refused(1)] w(1) show ?thesis by (simp add: sees_def)
next
  case (forwarded w1)
  note same = conns_eqD [OF forwarded(1)]
  from login_forward_sees [OF forwarded(2)] same w input show ?thesis by (simp add: fresh_dials_def)
qed

lemma handleLogin_sees:
  assumes run: "handleLogin s b route hs hp ip w = (res, w')"
    and w: "w_backend w = None" "fresh_dials w" and input: "input = Raw hp @ pending (inp (w_client w))"
  shows "sees input w'"
proof -
  let ?route = "if route = '''' then routeKey b else route"
  obtain banned w1 where w1: "isBanned ?route ''ip'' ip w = (banned, w1)" by fastforce
  note same = conns_eqD [OF conns_isBanned [OF w1]]
  obtain r2 w2 where w2: "client_ReadPacket (MaxHandshakeSize (options s)) w1 = (r2, w2)" by fastforce
  note read = client_ReadPacket_frame [OF w2]
  show ?thesis
  proof (cases "banned \<or> (\<exists>e. r2 = Inl e)")
    case True
    with run w1 w2 have "w' = w1 \<or> w' = w2" by (cases banned) (auto simp: handleLogin_def Let_def)
    with same read w(1) show ?thesis by (auto simp: sees_def)
  next
    case False
    then obtain ls where ls: "r2 = Inr ls" "\<not> banned" by (cases r2) auto
    with run w1 w2 obtain result
      where go: "login_identified s result b ?route hp ls ip (login_username ls hs) w2 = (res, w')"
      by (auto simp: handleLogin_def Let_def)
    have "pending (inp (w_client w1)) = Raw ls @ pending (inp (w_client w2))"
      using client_ReadPacket_Inr w2 ls(1) by blast
    with login_identified_sees [OF go] same read w input show ?thesis by (simp add: fresh_dials_def)
  qed
qed

section \<open>Connections\<close>

lemma dispatch_sees:
  assumes w: "w_backend w = None" "fresh_dials w" and input: "input = Raw hp @ pending (inp (w_client w))"
  shows "sees input (dispatch s b host hs hp w)"
proof -
  obtain r1 e1 w1 where w1: "handleStatus s b hs hp w = ((r1, e1), w1)" by (metis prod.collapse)
  obtain r2 e2 w2 where w2: "handleLogin s b host hs hp (remoteIP (w_client w)) w = ((r2, e2), w2)"
    by (metis prod.collapse)
  have login: "conns (record_login_metrics host b r2 w2) = conns w2"
    by (simp add: record_login_metrics_def Let_def)
  show ?thesis
    unfolding dispatch_def w1 w2 Let_def prod.case
    using handleStatus_sees [OF w1 w input] handleLogin_sees [OF w2 w input] w(1)
    by (simp add: sees_conns [OF conns_metric(1)] sees_conns [OF conns_metric(2)] sees_conns [OF login]) (simp add: sees_def)
qed

lemma handle_client_sees:
  assumes w: "w_backend w = None" "fresh_dials w"
  shows "sees (pending (inp (w_client w))) (handle_client s w)"
proof -
  obtain r1 w1 where w1: "client_ReadPacket (MaxHandshakeSize (options s)) w = (r1, w1)" by fastforce
  note read = client_ReadPacket_frame [OF w1]
  have none: "sees (pending (inp (w_client w))) w1" using read w(1) by (simp add: sees_def)
  have "sees (pending (inp (w_client w))) (dispatch s b host hs hp w1)" if "r1 = Inr hp" for b host hs hp
    using that w1 read w client_ReadPacket_Inr [of "MaxHandshakeSize (options s)" w hp w1]
    by (intro dispatch_sees) (simp_all add: fresh_dials_def)
  with none show ?thesis
    unfolding handle_client_def w1 prod.case Let_def
    by (auto simp: sees_conns [OF conns_metric(2)] split: sum.splits option.splits)
qed

lemma handleConn_sees:
  assumes "w_backend w = None" "fresh_dials w"
  shows "sees (pending (inp (w_client w))) (handleConn s w)"
proof -
  let ?w = "w_metric IncActiveConnections w"
  have same: "w_backend ?w = w_backend w" "w_client ?w = w_client w" "w_dial ?w = w_dial w"
    using conns_eqD [OF conns_metric(1)] by auto
  have "sees (pending (inp (w_client w))) (handle_client s ?w)"
    using handle_client_sees [of ?w s] assms same by (simp add: fresh_dials_def)
  then have "sees (pending (inp (w_client w))) (w_metric DecActiveConnections (handle_client s ?w))"
    by (simp add: sees_conns [OF conns_metric(1)])
  then show ?thesis by (simp add: handleConn_def Let_def sees_def)
qed

section \<open>The bytes the client of a login sees\<close>

definition login_output :: "World \<Rightarrow> Backend \<Rightarrow> World \<Rightarrow> bool" where
  "login_output w b w' \<longleftrightarrow> (\<exists>bs. outp (w_client w') = outp (w_client w) @ bs \<and>
     (prefix bs (Raw (BuildLoginDisconnect banned_json)) \<or>
      (\<exists>bc. w_dial w (Dial b) = Inr bc \<and> prefix bs (pending (inp bc)))))"

lemma login_output_silent: "outp (w_client w') = outp (w_client w) \<Longrightarrow> login_output w b w'"
  by (simp add: login_output_def)

lemma login_proxy_client:
  assumes run: "login_proxy s result route ip username w = (res, w')" and b: "w_backend w = Some b"
  shows "\<exists>bs. outp (w_client w') = outp (w_client w) @ bs \<and> prefix bs (pending (inp b))
    \<and> closed (w_client w') \<and> backendToClient (Stats (fst res)) = length bs \<and> snd res = None"
proof -
  obtain w0 stats w1 where w: "conns w0 = conns w" "proxy_conns w0 = (stats, w1)" "conns w' = conns w1"
      "snd res = None" "Stats (fst res) = stats"
    using login_proxy_conns [OF run] by blast
  note same = conns_eqD [OF w(1)] conns_eqD [OF w(3)]
  have "w_backend w0 = Some b" using same b by simp
  from proxy_conns_Some [OF w(2) this] show ?thesis
    using same w(4,5) by (auto simp: prefix_def)
qed

lemma login_forward_client:
  assumes run: "login_forward s result b route hp ls ip username w = (res, w')"
  shows "login_output w b w'"
proof -
  obtain observed w0 where w0: "w_now w = (observed, w0)" by fastforce
  note same = conns_eqD [OF conns_now [OF w0]]
  obtain e1 w1 where w1: "call_dial (Dial b) w0 = (e1, w1)" by fastforce
  note dial = call_dial_cases [OF w1]
  obtain e2 w2 where w2: "backend_Write (Raw hp) w1 = (e2, w2)" by fastforce
  obtain e3 w3 where w3: "backend_Write (Raw ls) w2 = (e3, w3)" by fastforce
  show ?thesis
  proof (cases e1)
    case (Some e)
    with run w0 w1 have "conns w' = conns w1" by (auto simp: login_forward_def)
    from conns_eqD [OF this] dial(1) same show ?thesis by (intro login_output_silent) simp
  next
    case e1: None
    obtain bc where bc: "w_backend w1 = Some bc" "w_dial w (Dial b) = Inr bc" using dial(4) e1 same by auto
    obtain b2 where b2: "w_backend w2 = Some b2" "inp b2 = inp bc" "w_client w2 = w_client w"
      using backend_Write_Some [OF w2 bc(1)] dial(1) same by auto
    obtain b3 where b3: "w_backend w3 = Some b3" "inp b3 = inp bc" "w_client w3 = w_client w"
      using backend_Write_Some [OF w3 b2(1)] b2 by auto
    show ?thesis
    proof (cases "e2 = None \<and> e3 = None")
      case False
      with run w0 w1 w2 w3 e1 have "w_client w' = w_client (recordEarlyLoginFailure observed route ip username w2)
          \<or> w_client w' = w_client (recordEarlyLoginFailure observed route ip username w3)"
        by (cases e2) (auto simp: login_forward_def backend_Close_def)
      with conns_eqD [OF conns_early] b2(3) b3(3) show ?thesis by (intro login_output_silent) metis
    next
      case True
      with run w0 w1 w2 w3 e1 have "login_proxy s result route ip username w3 = (res, w')"
        by (simp add: login_forward_def)
      from login_proxy_client [OF this b3(1)] b3 bc(2) show ?thesis by (auto simp: login_output_def)
    qed
  qed
qed

lemma login_output_cong:
  "outp (w_client w1) = outp (w_client w) \<Longrightarrow> w_dial w1 = w_dial w \<Longrightarrow> login_output w1 b w' \<Longrightarrow> login_output w b w'"
  by (simp add: login_output_def)

lemma handleLogin_client:
  assumes run: "handleLogin s b route hs hp ip w = (res, w')"
  shows "login_output w b w'"
proof -
  let ?route = "if route = '''' then routeKey b else route"
  obtain banned w1 where w1: "isBanned ?route ''ip'' ip w = (banned, w1)" by fastforce
  note same = conns_eqD [OF conns_isBanned [OF w1]]
  obtain r2 w2 where w2: "client_ReadPacket (MaxHandshakeSize (options s)) w1 = (r2, w2)" by fastforce
  note read = client_ReadPacket_frame [OF w2]
  show ?thesis
  proof (cases "banned \<or> (\<exists>e. r2 = Inl e)")
    case True
    with run w1 w2 have "w' = w1 \<or> w' = w2" by (cases banned) (auto simp: handleLogin_def Let_def)
    with same read show ?thesis by (intro login_output_silent) auto
  next
    case False
    then obtain ls where ls: "r2 = Inr ls" "\<not> banned" by (cases r2) auto
    with run w1 w2 obtain result
      where go: "login_identified s result b ?route hp ls ip (login_username ls hs) w2 = (res, w')"
      by (auto simp: handleLogin_def Let_def)
    then have "login_output w2 b w'"
    proof (cases rule: login_identified_cases)
      case (refused w3 e)
      from client_Write_prefix [OF refused(2)] conns_eqD [OF refused(1)] show ?thesis
        by (auto simp: login_output_def take_is_prefix)
    next
      case (forwarded w3)
      from login_output_cong [OF _ _ login_forward_client [OF forwarded(2)], of w2] conns_eqD [OF forwarded(1)]
      show ?thesis by simp
    qed
    with same read show ?thesis by (intro login_output_cong [of w2 w]) auto
  qed
qed

section \<open>Requests that never reach a backend\<close>

text \<open>A banned address: nothing is read, written or dialled after the handshake.\<close>

lemma handleLogin_ip_banned:
  assumes "w_guard w = Some g" "fst (IsBanned g (w_clock w 0) (if route = '''' then routeKey b else route) ''ip'' ip)"
  shows "\<exists>res w'. handleLogin s b route hs hp ip w = (res, w') \<and> Fail2BanAction (fst res) = ''ip_banned'' \<and>
    snd res = Some (Errorf ''fail2ban ip banned'') \<and> conns w' = conns w \<and> w_metrics w' = w_metrics w"
proof -
  let ?route = "if route = '''' then routeKey b else route"
  obtain w1 where w1: "isBanned ?route ''ip'' ip w = (True, w1)" "w_metrics w1 = w_metrics w"
    using assms by (cases "IsBanned g (w_clock w 0) ?route ''ip'' ip") (auto simp: isBanned_def world_defs)
  with conns_isBanned [OF w1(1)] show ?thesis by (auto simp: handleLogin_def Let_def)
qed

lemma handleLogin_player_banned:
  assumes ip: "isBanned (if route = '''' then routeKey b else route) ''ip'' ip w = (False, w1)"
    and read: "client_ReadPacket (MaxHandshakeSize (options s)) w1 = (Inr ls, w2)"
    and user: "login_username ls hs \<noteq> ''''"
    and ban: "w_guard w2 = Some g"
      "fst (IsBanned g (w_clock w2 0) (if route = '''' then routeKey b else route) ''player'' (login_username ls hs))"
  shows "\<exists>res w' n. handleLogin s b route hs hp ip w = (res, w') \<and> Fail2BanAction (fst res) = ''player_banned'' \<and>
    w_dialed w' = w_dialed w \<and> w_backend w' = w_backend w \<and>
    outp (w_client w') = outp (w_client w) @ take n (Raw (BuildLoginDisconnect banned_json))"
proof -
  let ?route = "if route = '''' then routeKey b else route" and ?user = "login_username ls hs"
  obtain w3 where w3: "isBanned ?route ''player'' ?user w2 = (True, w3)"
    using ban by (cases "IsBanned g (w_clock w2 0) ?route ''player'' ?user") (auto simp: isBanned_def world_defs)
  obtain e c where c: "WritePacket (w_client w3) (BuildLoginDisconnect banned_json) = (e, c)" by fastforce
  then have sent: "client_Write (Raw (BuildLoginDisconnect banned_json)) w3 = (e, w3\<lparr>w_client := c\<rparr>)"
    by (simp add: client_Write_def BuildLoginDisconnect_write)
  from client_Write_prefix [OF sent] obtain n
    where out: "outp c = outp (w_client w3) @ take n (Raw (BuildLoginDisconnect banned_json))" by auto
  note same = conns_eqD [OF conns_isBanned [OF w3]] conns_eqD [OF conns_isBanned [OF ip]] client_ReadPacket_frame [OF read]
  show ?thesis
    using ip read user w3 c out same
    by (auto simp: handleLogin_def Let_def login_identified_def intro!: exI [of _ n])
qed

text \<open>A fresh entry of the cache, and an unhealthy backend, keep a status request from the backend.\<close>

lemma handleCachedPing_client:
  "handleCachedPing s w = ((pong, err), w') \<Longrightarrow>
     (\<exists>bs. outp (w_client w') = outp (w_client w) @ bs) \<and> w_dialed w' = w_dialed w \<and> w_backend w' = w_backend w"
  using handleCachedPing_evolves [of s w "(pong, err)" w'] handleCachedPing_frame [of s w "(pong, err)" w']
  by (simp add: evolves_def)

lemma handleStatus_hit:
  assumes read: "client_ReadPacket (MaxHandshakeSize (options s)) w = (Inr sr, w1)" "ID sr = StatusRequestPacketID"
    and cache: "statusCacheEnabled s b" "w_cache w = Some c"
      "fst (cache_Get c (statusCacheKey b hs) (w_clock w 0) (w_clock w 1)) = Some raw"
    and run: "handleStatus s b hs hp w = (res, w')"
  shows "CacheResult (fst res) = ''hit'' \<and> w_dialed w' = w_dialed w \<and> w_backend w' = w_backend w \<and>
    w_cache w' = w_cache w \<and>
    (\<exists>n more. outp (w_client w') = outp (w_client w) @ take n raw @ more)"
proof -
  note frame = client_ReadPacket_frame [OF read(1)]
  have "cacheGet (statusCacheKey b hs) w1 = (Some raw, w1\<lparr>w_clock := \<lambda>n. w_clock w (Suc (Suc n)), w_cache := Some c\<rparr>)"
    using cache frame cache_Get_unchanged [OF cache(3)]
    by (cases "cache_Get c (statusCacheKey b hs) (w_clock w 0) (w_clock w 1)") (simp add: cacheGet_def world_defs)
  then obtain w2 where w2: "cacheGet (statusCacheKey b hs) w1 = (Some raw, w2)" "conns w2 = conns w1" "w_cache w2 = Some c"
    by (simp add: conns_def)
  obtain r3 w3 where w3: "serve_document s \<lparr>CacheResult = ''hit'', FallbackUsed = False, PongHandled = False\<rparr> raw w2 = (r3, w3)"
    by fastforce
  have eq: "res = r3" "w' = w3" using run read cache(1) w2(1) w3 by (simp_all add: handleStatus_def Let_def)
  obtain e4 w4 where w4: "client_Write raw w2 = (e4, w4)" by fastforce
  obtain n where n: "outp (w_client w4) = outp (w_client w2) @ take n raw" using client_Write_prefix [OF w4] by blast
  have cache4: "w_cache w4 = w_cache w2" using w4 by (auto simp: client_Write_def split: prod.splits)
  obtain pong err w5 where w5: "handleCachedPing s w4 = ((pong, err), w5)" by (metis prod.collapse)
  have cache5: "w_cache w5 = w_cache w4" using w5
    by (auto simp: handleCachedPing_def client_ReadPacket_def client_Write_def Let_def split: prod.splits sum.splits if_splits)
  have "w3 = w4 \<and> CacheResult (fst r3) = ''hit'' \<or> w3 = w5 \<and> CacheResult (fst r3) = ''hit''"
    using w3 w4 w5 by (cases e4) (auto simp: serve_document_def)
  with n handleCachedPing_client [OF w5] client_Write_frame [OF w4] conns_eqD [OF w2(2)] frame cache4 cache5 w2(3) cache(2)
  show ?thesis unfolding eq by auto (metis append.right_neutral)+
qed

lemma status_miss_unhealthy:
  assumes "StatusFallbackWhenUnhealthy (options s)" "w_health w = Some h" "Unhealthy (Some h) (w_clock w 0) b"
    and run: "status_miss s result b hs hp sr key enabled w = (res, w')"
  shows "w_dialed w' = w_dialed w \<and> w_backend w' = w_backend w"
proof -
  obtain w1 where w1: "backendUnhealthy b w = (True, w1)" "conns w1 = conns w"
    using assms(2,3) by (auto simp: backendUnhealthy_def world_defs conns_def)
  have "serve_fallback s result key hs enabled (Errorf ''backend unhealthy and no status fallback available'')
      (w_metric (RecordStatusCircuitBreaker (Addr b)) w1) = (res, w')"
    using run assms(1) w1(1) by (simp add: status_miss_def)
  from serve_fallback_frame [OF this] conns_eqD [OF conns_metric(1)] conns_eqD [OF w1(2)] show ?thesis by metis
qed

end
