(* ===== verification/Sessions.thy ===== *)
theory Sessions
  imports Relay
begin

text \<open>
  The proxy over many connections: a session brings a client, the answers of the dials and a
  schedule; what the sessions share stays.  The shared components keep their invariants, the
  gauge of active connections returns to its value, and the accept loop of \<^verbatim>\<open>Serve\<close>
  hands every accepted connection to one handler.
\<close>

section \<open>The shared components\<close>

definition world_ok :: "World \<Rightarrow> bool" where
  "world_ok w \<longleftrightarrow> clock_ok w \<and> pred_option guard_inv (w_guard w) \<and> pred_option cache_inv (w_cache w) \<and>
     pred_option checker_inv (w_health w) \<and> pred_option recorder_inv (w_metrics w)"

lemma runs_to_inv:
  assumes "runs_to step ok s s'" "pred_option I s" "\<And>ops s. list_all ok ops \<Longrightarrow> I s \<Longrightarrow> I (run step ops s)"
  shows "pred_option I s'"
  using assms by (cases s) (auto simp: runs_to_def)

lemma recorder_inv_any_run: "recorder_inv r \<Longrightarrow> recorder_inv (run metrics_step ops r)"
  by (rule recorder_machine.inv_run) (simp_all add: list_all_iff)

lemma evolves_ok: "evolves w w' \<Longrightarrow> world_ok w \<Longrightarrow> world_ok w'"
  unfolding evolves_def world_ok_def
  by (auto intro: runs_to_inv guard_machine.inv_run cache_machine.inv_run checker_machine.inv_run
      recorder_inv_any_run)

lemma world_ok_metric:
  assumes "f = metrics_step x" "world_ok w"
  shows "world_ok (w_metric f w)"
  using assms recorder_machine.inv_step [of _ x]
  by (cases "w_metrics w") (auto simp: world_ok_def w_metric_def clock_ok_def)

lemma world_ok_logged [simp]: "world_ok (w_logged e w) = world_ok w"
  by (simp add: world_ok_def w_logged_def clock_ok_def)

lemma handleConn_ok: "world_ok w \<Longrightarrow> world_ok (handleConn s w)"
proof -
  assume "world_ok w"
  then have "world_ok (w_metric IncActiveConnections w)"
    by (rule world_ok_metric [of _ OpInc, rotated]) (simp add: fun_eq_iff)
  then have "world_ok (handle_client s (w_metric IncActiveConnections w))"
    using handle_client_evolves [of "w_metric IncActiveConnections w" s] evolves_ok by fastforce
  then have "world_ok (w_metric DecActiveConnections (handle_client s (w_metric IncActiveConnections w)))"
    by (rule world_ok_metric [of _ OpDec, rotated]) (simp add: fun_eq_iff)
  then show ?thesis by (simp add: handleConn_def Let_def world_ok_def clock_ok_def)
qed

section \<open>The gauge\<close>

lemma records_only_active:
  "list_all records_only ops \<Longrightarrow> activeConnections (run metrics_step ops r) = activeConnections r"
proof (induction ops arbitrary: r)
  case (Cons x ops)
  then have "activeConnections (metrics_step x r) = activeConnections r"
    by (cases x) (simp_all add: metrics_defs)
  with Cons show ?case by simp
qed simp

definition active :: "World \<Rightarrow> int option" where
  "active w = map_option activeConnections (w_metrics w)"

lemma handle_client_active: "active (handle_client s w) = active w"
proof -
  obtain ops where "list_all records_only ops"
    "w_metrics (handle_client s w) = map_option (run metrics_step ops) (w_metrics w)"
    using handle_client_evolves [of w s] by (auto simp: evolves_def runs_to_def w_logged_def)
  then show ?thesis by (cases "w_metrics w") (simp_all add: active_def records_only_active)
qed

lemma handleConn_active:
  assumes "pred_option recorder_inv (w_metrics w)"
  shows "active (handleConn s w) = active w"
proof -
  have "active (handle_client s (w_metric IncActiveConnections w)) = map_option (\<lambda>n. n + 1) (active w)"
    unfolding handle_client_active
    by (simp add: active_def w_metric_def IncActiveConnections_def option.map_comp comp_def)
  moreover have "0 \<le> n" if "active w = Some n" for n
    using assms that by (cases "w_metrics w") (auto simp: active_def recorder_inv_def)
  ultimately show ?thesis
    by (cases "w_metrics (handle_client s (w_metric IncActiveConnections w))"; cases "active w")
      (auto simp: active_def handleConn_def Let_def w_metric_def DecActiveConnections_def)
qed

lemma handleConn_closed: "closed (w_client (handleConn s w))"
  by (simp add: handleConn_def Let_def Close_def)

section \<open>Sessions\<close>

record Session =
  s_client :: conn
  s_dial :: "dial_call \<Rightarrow> go_error + conn"
  s_schedule :: "pipe_event list"

definition connect :: "Session \<Rightarrow> World \<Rightarrow> World" where
  "connect x w = w\<lparr>w_client := s_client x, w_backend := None, w_dial := s_dial x, w_dialed := [],
                    w_schedule := s_schedule x\<rparr>"

definition session_step :: "Server \<Rightarrow> Session \<Rightarrow> World \<Rightarrow> World" where
  "session_step s x w = handleConn s (connect x w)"

lemma world_ok_connect: "world_ok (connect x w) = world_ok w"
  by (simp add: world_ok_def connect_def clock_ok_def)

interpretation sessions: invariant_machine "session_step s" "\<lambda>_. True" world_ok
  by unfold_locales (simp add: session_step_def handleConn_ok world_ok_connect)

lemma session_active: "world_ok w \<Longrightarrow> active (session_step s x w) = active w"
  unfolding session_step_def
  by (subst handleConn_active) (simp_all add: world_ok_def connect_def active_def)

interpretation gauge: invariant_machine "session_step s" "\<lambda>_. True" "\<lambda>w. world_ok w \<and> active w = n"
  by unfold_locales (simp add: session_active sessions.inv_step)

text \<open>The world of a proxy that has just been set up.\<close>

definition new_world ::
  "clock \<Rightarrow> GuardOptions option \<Rightarrow> bool \<Rightarrow> (HealthOptions \<times> BackendTarget list) option \<Rightarrow> bool \<Rightarrow> World" where
  "new_world c guard_opts with_cache health_opts with_metrics =
     \<lparr>w_clock = c, w_cache = (if with_cache then Some NewStatusCache else None),
      w_guard = map_option NewGuard guard_opts,
      w_health = map_option (\<lambda>(opts, tgts). NewChecker opts tgts) health_opts,
      w_metrics = (if with_metrics then Some NewRecorder else None),
      w_client = new_conn [] EOF [] '''', w_backend = None, w_dial = (\<lambda>_. Inl EOF), w_dialed = [],
      w_schedule = [], w_log = []\<rparr>"

lemma new_world_ok: "\<forall>n. 0 < c n \<Longrightarrow> world_ok (new_world c go wc ho wm)"
  by (cases go; cases ho)
    (auto simp: new_world_def world_ok_def clock_ok_def guard_inv_New checker_inv_New recorder_inv_new)

section \<open>The accept loop\<close>

text \<open>
  \<^verbatim>\<open>Serve\<close>: an accepted connection gets a handler of its own; an error of
  \<^verbatim>\<open>Accept\<close> ends the loop, with the context's error if the listener was closed or the
  context is done.  \<open>ctx_err\<close> is the context's error when the loop looks at it.
\<close>

datatype accept_outcome = Accepted Session | AcceptFailed go_error "go_error option"

definition errNetClosed :: go_error where
  "errNetClosed = NetError ''use of closed network connection''"

fun Serve :: "Server \<Rightarrow> accept_outcome list \<Rightarrow> World \<Rightarrow> go_error option option \<times> World" where
  "Serve s [] w = (None, w)"
| "Serve s (Accepted x # arrivals) w = Serve s arrivals (session_step s x w)"
| "Serve s (AcceptFailed err ctx_err # arrivals) w =
     (if errors_Is err errNetClosed \<or> ctx_err \<noteq> None then (Some ctx_err, w) else (Some (Some err), w))"

primrec accepted :: "accept_outcome list \<Rightarrow> Session list" where
  "accepted [] = []"
| "accepted (x # arrivals) = (case x of Accepted y \<Rightarrow> y # accepted arrivals | AcceptFailed _ _ \<Rightarrow> [])"

lemma Serve_run: "snd (Serve s arrivals w) = run (session_step s) (accepted arrivals) w"
  by (induction s arrivals w rule: Serve.induct) simp_all

section \<open>The listener\<close>

text \<open>
  \<open>ln\<close> is the address the proxy listens on, once it does.  \<open>listen\<close> is \<^verbatim>\<open>net.Listen\<close>, with the address
  the system has chosen; a shutdown waits for the close of the listener or for its context,
  whichever comes first.
\<close>

record listener_state =
  ln :: "string option"

definition Ready :: "listener_state \<Rightarrow> bool" where
  "Ready l = (ln l \<noteq> None)"

datatype shutdown_race = ListenerClosed "go_error option" | ContextDone go_error

definition Shutdown :: "listener_state \<Rightarrow> shutdown_race \<Rightarrow> go_error option" where
  "Shutdown l race =
     (case ln l of
        None \<Rightarrow> None
      | Some _ \<Rightarrow> (case race of ListenerClosed err \<Rightarrow> err | ContextDone err \<Rightarrow> Some err))"

definition Serve_on ::
  "Server \<Rightarrow> string \<Rightarrow> accept_outcome list \<Rightarrow> listener_state \<times> World \<Rightarrow> go_error option option \<times> listener_state \<times> World" where
  "Serve_on s addr arrivals lw =
     (let (l, w) = lw; (res, w) = Serve s arrivals w in (res, l\<lparr>ln := Some addr\<rparr>, w))"

definition ListenAndServe ::
  "Server \<Rightarrow> (string \<Rightarrow> go_error + string) \<Rightarrow> accept_outcome list \<Rightarrow> listener_state \<times> World \<Rightarrow>
     go_error option option \<times> listener_state \<times> World" where
  "ListenAndServe s listen arrivals lw =
     (case listen (ListenAddr (options s)) of
        Inl err \<Rightarrow> (Some (Some err), lw)
      | Inr addr \<Rightarrow> Serve_on s addr arrivals lw)"

section \<open>An unhealthy backend\<close>

lemma handleStatus_unhealthy:
  assumes flag: "StatusFallbackWhenUnhealthy (options s)" and h: "w_health w = Some h" "checker_inv h"
    "hc_Enabled (health_options h)" "\<not> Healthy (entry_for h (Addr b))"
    and run: "handleStatus s b hs hp w = (res, w')"
  shows "w_dialed w' = w_dialed w \<and> w_backend w' = w_backend w"
proof -
  obtain r1 w1 where w1: "client_ReadPacket (MaxHandshakeSize (options s)) w = (r1, w1)" by fastforce
  note read = client_ReadPacket_frame [OF w1]
  obtain hit w2 where w2: "(if statusCacheEnabled s b then cacheGet (statusCacheKey b hs) w1 else (None, w1)) = (hit, w2)"
    by fastforce
  have same: "conns w2 = conns w1" "w_health w2 = w_health w1"
    using w2 by (auto dest: conns_cache(1) split: if_splits)
      (auto simp: cacheGet_def world_defs split: option.splits prod.splits)
  have unhealthy: "Unhealthy (Some h) now b" for now
    using Unhealthy_iff [OF h(2,3)] h(4) by simp
  show ?thesis
  proof (cases r1)
    case (Inl e)
    with run w1 read show ?thesis by (auto simp: handleStatus_def Let_def)
  next
    case (Inr sr)
    consider "w' = w1" | result raw where "serve_document s result raw w2 = (res, w')"
      | result where "status_miss s result b hs hp sr (statusCacheKey b hs) (statusCacheEnabled s b) w2 = (res, w')"
      using run Inr w1 w2 unfolding handleStatus_def Let_def by (auto split: if_splits option.splits)
    then show ?thesis
    proof cases
      case 1
      with read show ?thesis by simp
    next
      case 2
      from serve_document_frame [OF this] conns_eqD [OF same(1)] read show ?thesis by simp
    next
      case 3
      from status_miss_unhealthy [OF flag _ unhealthy 3] same read h(1) conns_eqD [OF same(1)]
      show ?thesis by simp
    qed
  qed
qed

end
