(* ===== verification/Scenario.thy ===== *)
theory Scenario
  imports Sessions
begin

text \<open>
  A concrete proxy for the witnesses: one route, a client that logs in to it, a client that asks
  for its status, and the facts about their packets that evaluating the handlers needs.
\<close>

definition lobby :: Backend where
  "lobby = \<lparr>Name = ''lobby'', Addr = ''10.0.0.1:25565'', StatusCacheFlag = None\<rparr>"

definition demo_routes :: "Route list" where
  "demo_routes = [\<lparr>Hosts = [''mc.example''], RouteBackend = lobby\<rparr>]"

definition demo_options :: Options where
  "demo_options =
     \<lparr>ListenAddr = '':25565'', HandshakeTimeout = 0, BackendDialTimeout = 0, srv_IdleTimeout = 0, ShutdownTimeout = 0,
      MaxHandshakeSize = 0, MaxStatusResponseSize = 0, StatusCacheEnabled = True, StatusCacheTTL = 0,
      MOTDCacheEnabled = True, MOTDFallbackTTL = 0, StatusFallbackWhenUnhealthy = True,
      StatusFallback = \<lparr>VersionName = '''', PlayersMax = 0\<rparr>\<rparr>"

definition demo_server :: Server where
  "demo_server = NewServerWithGuard demo_options (NewStaticRouter demo_routes None) True"

definition demo_guard_options :: GuardOptions where
  "demo_guard_options = \<lparr>fb_Enabled = True, MaxFailures = 1, Window = 0, BanDuration = 0, EarlyDisconnect = 0\<rparr>"

definition demo_clock :: clock where
  "demo_clock n = 1000 + int n"

definition demo_handshake :: "int32 \<Rightarrow> Packet" where
  "demo_handshake state = BuildHandshake 772 ''mc.example'' 25565 state"

definition demo_login :: Packet where
  "demo_login = BuildLoginStart ''Alex'' []"

definition demo_status_request :: Packet where
  "demo_status_request = NewPacket StatusRequestPacketID []"

definition demo_backend_conn :: conn where
  "demo_backend_conn = new_conn [9, 8, 7] EOF [] ''10.0.0.1:25565''"

definition demo_client :: "byte list \<Rightarrow> conn" where
  "demo_client bs = new_conn bs EOF [] ''198.51.100.7:40000''"

definition demo_session :: "byte list \<Rightarrow> Session" where
  "demo_session bs =
     \<lparr>s_client = demo_client bs, s_dial = (\<lambda>_. Inr demo_backend_conn),
      s_schedule = [ReadChunk BackendToClient 2 False, WriteChunk BackendToClient]\<rparr>"

definition demo_world :: World where
  "demo_world = new_world demo_clock (Some demo_guard_options) True None True"

section \<open>Facts\<close>

lemma demo_max [simp]: "MaxHandshakeSize (options demo_server) = 65536"
  by (simp add: demo_server_def NewServerWithGuard_def server_defaults_def demo_options_def Let_def)

lemma demo_world_ok: "world_ok demo_world"
  unfolding demo_world_def by (rule new_world_ok) (simp add: demo_clock_def)

lemma demo_handshake_wire:
  "packet_on_wire (demo_handshake st)" "int (length (Payload (demo_handshake st))) \<le> 65536"
proof -
  let ?d = "EncodeVarInt 772 @ EncodeString ''mc.example'' @ BigEndian_PutUint16 25565 @ EncodeVarInt st"
  have "length ?d \<le> 5 + (5 + 10) + 2 + 5"
    using length_EncodeVarInt [of 772] length_EncodeVarInt [of st] length_EncodeString [of "''mc.example''"]
    by (simp add: MaxVarIntBytes_def BigEndian_PutUint16_def)
  then have len: "length (Payload (NewPacket HandshakePacketID ?d)) \<le> 32"
    using length_Payload_NewPacket [of HandshakePacketID ?d] by (simp add: MaxVarIntBytes_def)
  then show "packet_on_wire (demo_handshake st)" "int (length (Payload (demo_handshake st))) \<le> 65536"
    unfolding demo_handshake_def BuildHandshake_def by (auto intro: NewPacket_wire)
qed

lemma demo_ParseHandshake:
  "ParseHandshake (demo_handshake st)
     = Inr \<lparr>ProtocolVersion = 772, ServerAddress = ''mc.example'', ServerPort = 25565, NextState = st\<rparr>"
  unfolding demo_handshake_def by (rule ParseHandshake_BuildHandshake) (simp add: wire_string_ascii)

lemma demo_login_wire: "packet_on_wire demo_login" "int (length (Payload demo_login)) \<le> 65536"
proof -
  have "length (Payload demo_login) \<le> 5 + (5 + 4)"
    using length_Payload_NewPacket [of LoginStartPacketID "EncodeString ''Alex''"] length_EncodeString [of "''Alex''"]
    by (simp add: demo_login_def BuildLoginStart_def MaxVarIntBytes_def)
  then show "packet_on_wire demo_login" "int (length (Payload demo_login)) \<le> 65536"
    unfolding demo_login_def BuildLoginStart_def by (auto intro: NewPacket_wire)
qed

lemma demo_status_wire: "packet_on_wire demo_status_request" "int (length (Payload demo_status_request)) \<le> 65536"
proof -
  have "length (Payload demo_status_request) \<le> 5"
    using length_Payload_NewPacket [of StatusRequestPacketID "[]"] by (simp add: demo_status_request_def MaxVarIntBytes_def)
  then show "packet_on_wire demo_status_request" "int (length (Payload demo_status_request)) \<le> 65536"
    unfolding demo_status_request_def by (auto intro: NewPacket_wire)
qed

lemma demo_NormalizeHost: "NormalizeHost ''mc.example'' = ''mc.example''"
proof -
  have "plain_host ''mc.example''" by (simp add: plain_host_def special_chars_def IsSpace_def)
  then show ?thesis
    by (simp add: NormalizeHost_plain ToLower_ascii lower_char_def ascii_lower_def char_of_eq_iff)
qed

lemma demo_Resolve: "Resolve (router demo_server) ''mc.example'' = Some lobby"
  by (simp add: demo_server_def NewServerWithGuard_def Resolve_NewStaticRouter route_table_def demo_routes_def
      demo_NormalizeHost)

lemma demo_remoteIP: "remoteIP (demo_client bs) = ''198.51.100.7''"
  using SplitHostPort_plain [of "''198.51.100.7''" "''40000''"]
  by (simp add: remoteIP_def demo_client_def new_conn_def)

lemma demo_normalize: "normalize ''198.51.100.7'' = ''198.51.100.7''" "normalize ''Alex'' = ''alex''"
  by (simp_all add: normalize_def TrimSpace_none_ascii IsSpace_def ToLower_ascii lower_char_def ascii_lower_def
      char_of_eq_iff)

lemma demo_ReadPacket:
  "packet_on_wire p \<Longrightarrow> int (length (Payload p)) \<le> 65536 \<Longrightarrow>
     ReadPacket (inp (demo_client (Raw p @ rest))) (MaxHandshakeSize (options demo_server))
       = (Inr p, \<lparr>pending = rest, at_end = EOF\<rparr>)"
  by (simp add: demo_client_def new_conn_def ReadPacket_wire)

lemma demo_client_ReadPacket:
  "packet_on_wire p \<Longrightarrow> int (length (Payload p)) \<le> 65536 \<Longrightarrow> w_client w = demo_client (Raw p @ rest) \<Longrightarrow>
     client_ReadPacket (MaxHandshakeSize (options demo_server)) w = (Inr p, w\<lparr>w_client := demo_client rest\<rparr>)"
  by (simp add: client_ReadPacket_def conn_ReadPacket_def demo_client_def new_conn_def ReadPacket_wire)

end
