(* ===== verification/Pool.thy ===== *)
theory Pool
  imports GoMap Machines "HOL-Library.Multiset"
begin

text \<open>
  \<^verbatim>\<open>internal/pool/pool.go\<close>: idle connections to backends, handed out last in, first
  out.  A connection is its identity; the pool records, in order, which connections it has
  closed.  \<^verbatim>\<open>NeedsConn\<close> filters a slice in place, through the slice's own backing array;
  the model keeps that array and the two indices, and \<open>in_place_filter\<close> shows that the result
  is the filtered list.
\<close>

section \<open>Definitions\<close>

record PoolOptions =
  MaxIdlePerBackend :: int
  IdleTimeout :: Duration

record 'c pooledConn =
  pc_conn :: 'c
  addedAt :: Time

record 'c Pool =
  pool_options :: PoolOptions
  idle :: "(string, 'c pooledConn list) gomap"
  pool_closed :: bool
  closed_conns :: "'c list"

definition NewPool :: "PoolOptions \<Rightarrow> 'c Pool" where
  "NewPool opts =
     (let opts = (if MaxIdlePerBackend opts \<le> 0 then opts\<lparr>MaxIdlePerBackend := 1\<rparr> else opts);
          opts = (if IdleTimeout opts \<le> 0 then opts\<lparr>IdleTimeout := 30 * Second\<rparr> else opts)
      in \<lparr>pool_options = opts, idle = [], pool_closed = False, closed_conns = []\<rparr>)"

definition idle_of :: "'c Pool \<Rightarrow> string \<Rightarrow> 'c pooledConn list" where
  "idle_of p backend = (case map_get (idle p) backend of Some conns \<Rightarrow> conns | None \<Rightarrow> [])"

definition close_conn :: "'c \<Rightarrow> 'c Pool \<Rightarrow> 'c Pool" where
  "close_conn c p = p\<lparr>closed_conns := closed_conns p @ [c]\<rparr>"

definition usable :: "'c Pool \<Rightarrow> Time \<Rightarrow> 'c pooledConn \<Rightarrow> bool" where
  "usable p now item \<longleftrightarrow> Sub now (addedAt item) \<le> IdleTimeout (pool_options p)"

function Get_loop :: "'c Pool \<Rightarrow> string \<Rightarrow> Time \<Rightarrow> 'c pooledConn list \<Rightarrow> 'c option \<times> 'c Pool" where
  "Get_loop p backend now conns =
     (if length conns > 0 then
        (let item = last conns;
             conns = butlast conns;
             p = p\<lparr>idle := map_set (idle p) backend conns\<rparr>
         in if usable p now item then (Some (pc_conn item), p)
            else Get_loop (close_conn (pc_conn item) p) backend now conns)
      else (None, p))"
  by pat_completeness auto
termination
  by (relation "measure (\<lambda>(_, _, _, conns). length conns)") auto

declare Get_loop.simps [simp del]

definition Pool_Get :: "'c Pool \<Rightarrow> string \<Rightarrow> Time \<Rightarrow> 'c option \<times> 'c Pool" where
  "Pool_Get p backend now =
     (if pool_closed p then (None, p) else Get_loop p backend now (idle_of p backend))"

text \<open>
  The loop of \<^verbatim>\<open>NeedsConn\<close>: \<open>arr\<close> is the backing array, \<open>i\<close> the element being
  looked at, \<open>k\<close> the length of \<^verbatim>\<open>kept\<close>.
\<close>

function NeedsConn_loop ::
  "'c Pool \<Rightarrow> Time \<Rightarrow> 'c pooledConn list \<Rightarrow> nat \<Rightarrow> nat \<Rightarrow> 'c pooledConn list \<times> nat \<times> 'c Pool" where
  "NeedsConn_loop p now arr i k =
     (if i < length arr then
        (let item = arr ! i in
         if usable p now item then NeedsConn_loop p now (arr[k := item]) (i + 1) (k + 1)
         else NeedsConn_loop (close_conn (pc_conn item) p) now arr (i + 1) k)
      else (arr, k, p))"
  by pat_completeness auto
termination
  by (relation "measure (\<lambda>(_, _, arr, i, _). length arr - i)") auto

declare NeedsConn_loop.simps [simp del]

definition NeedsConn :: "'c Pool \<Rightarrow> string \<Rightarrow> Time \<Rightarrow> bool \<times> 'c Pool" where
  "NeedsConn p backend now =
     (if pool_closed p then (False, p)
      else (let (arr, k, p) = NeedsConn_loop p now (idle_of p backend) 0 0;
                kept = take k arr
            in (int (length kept) < MaxIdlePerBackend (pool_options p),
                p\<lparr>idle := map_set (idle p) backend kept\<rparr>)))"

definition Put :: "'c Pool \<Rightarrow> string \<Rightarrow> 'c option \<Rightarrow> Time \<Rightarrow> 'c Pool" where
  "Put p backend conn now =
     (case conn of
        None \<Rightarrow> p
      | Some c \<Rightarrow>
          if pool_closed p then close_conn c p
          else (let conns = idle_of p backend in
            if int (length conns) \<ge> MaxIdlePerBackend (pool_options p) then close_conn c p
            else p\<lparr>idle := map_set (idle p) backend (conns @ [\<lparr>pc_conn = c, addedAt = now\<rparr>])\<rparr>))"

definition ClosePool :: "'c Pool \<Rightarrow> 'c Pool" where
  "ClosePool p =
     (if pool_closed p then p
      else p\<lparr>pool_closed := True,
             closed_conns := closed_conns p @ concat (map (map pc_conn) (map_values (idle p))),
             idle := []\<rparr>)"

section \<open>The loops as list functions\<close>

lemma usable_cong [simp]:
  "usable (close_conn c p) = usable p"
  "usable (p\<lparr>idle := m\<rparr>) = usable p"
  by (auto simp: fun_eq_iff usable_def close_conn_def)

definition mark_closed :: "'c pooledConn list \<Rightarrow> 'c Pool \<Rightarrow> 'c Pool" where
  "mark_closed items p = p\<lparr>closed_conns := closed_conns p @ map pc_conn items\<rparr>"

lemma mark_closed_Nil [simp]: "mark_closed [] p = p"
  by (simp add: mark_closed_def)

lemma mark_closed_close: "mark_closed items (close_conn (pc_conn x) p) = mark_closed (x # items) p"
  by (simp add: mark_closed_def close_conn_def)

lemma usable_mark_closed [simp]: "usable (mark_closed items p) = usable p"
  by (auto simp: fun_eq_iff usable_def mark_closed_def)

lemma NeedsConn_loop_filter:
  "k \<le> i \<Longrightarrow> i \<le> length arr \<Longrightarrow>
     (\<exists>arr' k'. NeedsConn_loop p now arr i k
        = (arr', k', mark_closed (filter (\<lambda>x. \<not> usable p now x) (drop i arr)) p)
      \<and> take k' arr' = take k arr @ filter (usable p now) (drop i arr))"
proof (induction "length arr - i" arbitrary: p arr i k)
  case 0
  then show ?case by (simp add: NeedsConn_loop.simps [of p now arr i])
next
  case (Suc n)
  then have i: "i < length arr" by simp
  then have drop: "drop i arr = arr ! i # drop (i + 1) arr" by (simp add: Cons_nth_drop_Suc)
  show ?case
  proof (cases "usable p now (arr ! i)")
    case True
    let ?arr = "arr[k := arr ! i]"
    have eqs: "drop (i + 1) ?arr = drop (i + 1) arr" "take (k + 1) ?arr = take k arr @ [arr ! i]"
      using Suc.prems i by (simp_all add: take_Suc_conv_app_nth)
    from Suc.hyps(1) [of ?arr "i + 1" "k + 1" p] Suc.hyps(2) Suc.prems i True drop eqs show ?thesis
      by (simp add: NeedsConn_loop.simps [of p now arr i] Let_def)
  next
    case False
    from Suc.hyps(1) [of arr "i + 1" k "close_conn (pc_conn (arr ! i)) p"] Suc.hyps(2) Suc.prems i False drop
    show ?thesis
      by (simp add: NeedsConn_loop.simps [of p now arr i] Let_def mark_closed_close)
  qed
qed

lemma NeedsConn_eq:
  "\<not> pool_closed p \<Longrightarrow> NeedsConn p backend now =
     (let kept = filter (usable p now) (idle_of p backend);
          p' = mark_closed (filter (\<lambda>x. \<not> usable p now x) (idle_of p backend)) p
      in (int (length kept) < MaxIdlePerBackend (pool_options p), p'\<lparr>idle := map_set (idle p) backend kept\<rparr>))"
proof -
  assume open_pool: "\<not> pool_closed p"
  obtain arr k where *: "NeedsConn_loop p now (idle_of p backend) 0 0
        = (arr, k, mark_closed (filter (\<lambda>x. \<not> usable p now x) (idle_of p backend)) p)"
    and take: "take k arr = filter (usable p now) (idle_of p backend)"
    using NeedsConn_loop_filter [of 0 0 "idle_of p backend" p now] by auto
  show ?thesis
    unfolding NeedsConn_def Let_def * prod.case take
    using open_pool by (simp add: mark_closed_def)
qed

text \<open>
  \<^verbatim>\<open>Get\<close> looks for the youngest usable connection; the unusable ones behind it are closed,
  youngest first.
\<close>

lemma map_set_twice [simp]: "map_set (map_set m k v) k w = map_set m k w"
  by (simp add: map_set_def update_last)

lemma Get_loop_found:
  "usable p now x \<Longrightarrow> \<forall>y \<in> set ys. \<not> usable p now y \<Longrightarrow>
     Get_loop p backend now (xs @ x # ys)
       = (Some (pc_conn x), (mark_closed (rev ys) p)\<lparr>idle := map_set (idle p) backend xs\<rparr>)"
proof (induction ys arbitrary: p rule: rev_induct)
  case Nil
  then show ?case by (simp add: Get_loop.simps [of p] Let_def)
next
  case (snoc y ys)
  let ?p = "close_conn (pc_conn y) (p\<lparr>idle := map_set (idle p) backend (xs @ x # ys)\<rparr>)"
  have "Get_loop p backend now (xs @ x # ys @ [y]) = Get_loop ?p backend now (xs @ x # ys)"
    using snoc.prems by (subst Get_loop.simps) (simp add: Let_def butlast_append)
  also have "\<dots> = (Some (pc_conn x), (mark_closed (rev ys) ?p)\<lparr>idle := map_set (idle ?p) backend xs\<rparr>)"
    using snoc.prems by (intro snoc.IH) simp_all
  finally show ?case by (simp add: mark_closed_def close_conn_def)
qed

lemma Get_loop_none:
  "\<forall>y \<in> set ys. \<not> usable p now y \<Longrightarrow>
     Get_loop p backend now ys
       = (None, (mark_closed (rev ys) p)\<lparr>idle := (if ys = [] then idle p else map_set (idle p) backend [])\<rparr>)"
proof (induction ys arbitrary: p rule: rev_induct)
  case Nil
  then show ?case by (simp add: Get_loop.simps [of p])
next
  case (snoc y ys)
  let ?p = "close_conn (pc_conn y) (p\<lparr>idle := map_set (idle p) backend ys\<rparr>)"
  have "Get_loop p backend now (ys @ [y]) = Get_loop ?p backend now ys"
    using snoc.prems by (subst Get_loop.simps) (simp add: Let_def)
  also have "\<dots> = (None, (mark_closed (rev ys) ?p)\<lparr>idle := (if ys = [] then idle ?p else map_set (idle ?p) backend [])\<rparr>)"
    using snoc.prems by (intro snoc.IH) simp_all
  finally show ?case by (simp add: mark_closed_def close_conn_def)
qed

lemma last_occurrence:
  obtains "\<forall>y \<in> set ys. \<not> P y" | xs x zs where "ys = xs @ x # zs" "P x" "\<forall>y \<in> set zs. \<not> P y"
  using split_list_last_prop [of ys P] by blast

text \<open>The two outcomes of \<^verbatim>\<open>Get\<close>, as one case distinction.\<close>

lemma Pool_Get_cases:
  obtains (is_closed) "pool_closed p" "Pool_Get p backend now = (None, p)"
  | (no_conn) "\<not> pool_closed p" "\<forall>y \<in> set (idle_of p backend). \<not> usable p now y"
      "Pool_Get p backend now = (None, (mark_closed (rev (idle_of p backend)) p)
        \<lparr>idle := (if idle_of p backend = [] then idle p else map_set (idle p) backend [])\<rparr>)"
  | (found) xs x ys where "\<not> pool_closed p" "idle_of p backend = xs @ x # ys" "usable p now x"
      "\<forall>y \<in> set ys. \<not> usable p now y"
      "Pool_Get p backend now
        = (Some (pc_conn x), (mark_closed (rev ys) p)\<lparr>idle := map_set (idle p) backend xs\<rparr>)"
proof (cases "pool_closed p")
  case True
  then show ?thesis by (intro is_closed) (simp_all add: Pool_Get_def)
next
  case False
  show ?thesis
  proof (rule last_occurrence [of "idle_of p backend" "usable p now"])
    assume "\<forall>y \<in> set (idle_of p backend). \<not> usable p now y"
    with False show ?thesis by (intro no_conn) (simp_all add: Pool_Get_def Get_loop_none)
  next
    fix xs x zs
    assume "idle_of p backend = xs @ x # zs" "usable p now x" "\<forall>y \<in> set zs. \<not> usable p now y"
    with False show ?thesis by (intro found) (simp_all add: Pool_Get_def Get_loop_found)
  qed
qed

section \<open>Histories of a pool\<close>

datatype 'c pool_op = GetOp string Time | NeedsConnOp string Time | PutOp string 'c Time | CloseOp

text \<open>
  A history keeps, beside the pool, the connections it has been given and those it has handed
  out.
\<close>

record 'c pool_history =
  the_pool :: "'c Pool"
  given :: "'c list"
  handed_out :: "'c list"

fun pool_step :: "'c pool_op \<Rightarrow> 'c pool_history \<Rightarrow> 'c pool_history" where
  "pool_step (GetOp backend now) h =
     (case Pool_Get (the_pool h) backend now of
        (None, p) \<Rightarrow> h\<lparr>the_pool := p\<rparr>
      | (Some c, p) \<Rightarrow> h\<lparr>the_pool := p, handed_out := handed_out h @ [c]\<rparr>)"
| "pool_step (NeedsConnOp backend now) h = h\<lparr>the_pool := snd (NeedsConn (the_pool h) backend now)\<rparr>"
| "pool_step (PutOp backend c now) h =
     h\<lparr>the_pool := Put (the_pool h) backend (Some c) now, given := given h @ [c]\<rparr>"
| "pool_step CloseOp h = h\<lparr>the_pool := ClosePool (the_pool h)\<rparr>"

definition new_history :: "PoolOptions \<Rightarrow> 'c pool_history" where
  "new_history opts = \<lparr>the_pool = NewPool opts, given = [], handed_out = []\<rparr>"

definition idle_conns :: "'c Pool \<Rightarrow> 'c list" where
  "idle_conns p = concat (map (map pc_conn) (map_values (idle p)))"

definition pool_bounded :: "'c Pool \<Rightarrow> bool" where
  "pool_bounded p \<longleftrightarrow>
     map_all (\<lambda>backend conns. int (length conns) \<le> MaxIdlePerBackend (pool_options p)) (idle p)"

definition pool_inv :: "'c pool_history \<Rightarrow> bool" where
  "pool_inv h \<longleftrightarrow>
     map_ok (idle (the_pool h)) \<and> pool_bounded (the_pool h) \<and> 0 < MaxIdlePerBackend (pool_options (the_pool h)) \<and>
     (pool_closed (the_pool h) \<longrightarrow> idle (the_pool h) = []) \<and>
     mset (given h) = mset (idle_conns (the_pool h)) + mset (closed_conns (the_pool h)) + mset (handed_out h)"

text \<open>What storing a list for a backend does to the multiset of idle connections.\<close>

lemma idle_conns_map_set:
  "map_ok m \<Longrightarrow>
     mset (concat (map (map pc_conn) (map_values (map_set m k v))))
       + mset (map pc_conn (case map_get m k of Some w \<Rightarrow> w | None \<Rightarrow> []))
     = mset (concat (map (map pc_conn) (map_values m))) + mset (map pc_conn v)"
  by (induction m)
    (auto simp: map_set_def map_values_def map_get_def map_ok_def dest: map_of_SomeD split: option.splits)

lemma idle_conns_update:
  assumes "map_ok (idle p)"
  shows "mset (idle_conns (p\<lparr>idle := map_set (idle p) backend xs\<rparr>)) + mset (map pc_conn (idle_of p backend))
    = mset (idle_conns p) + mset (map pc_conn xs)"
  using idle_conns_map_set [OF assms, of backend xs] by (simp add: idle_conns_def idle_of_def)

lemma idle_conns_frame [simp]:
  "idle_conns (mark_closed xs p) = idle_conns p"
  "idle_conns (mark_closed xs p\<lparr>idle := m\<rparr>) = idle_conns (p\<lparr>idle := m\<rparr>)"
  "idle_conns (close_conn c p) = idle_conns p"
  by (simp_all add: idle_conns_def mark_closed_def close_conn_def)

lemma pool_bounded_idle_of:
  "pool_bounded p \<Longrightarrow> 0 < MaxIdlePerBackend (pool_options p) \<Longrightarrow>
     int (length (idle_of p backend)) \<le> MaxIdlePerBackend (pool_options p)"
  by (auto simp: pool_bounded_def idle_of_def map_all_def split: option.splits)

lemma pool_bounded_shrink:
  "pool_bounded p \<Longrightarrow> 0 < MaxIdlePerBackend (pool_options p) \<Longrightarrow> length xs \<le> length (idle_of p backend) \<Longrightarrow>
     pool_bounded (mark_closed ys p\<lparr>idle := map_set (idle p) backend xs\<rparr>)"
  using pool_bounded_idle_of [of p backend]
  by (auto simp: pool_bounded_def mark_closed_def intro!: map_all_set)

text \<open>
  The common part of \<^verbatim>\<open>Get\<close> and \<^verbatim>\<open>NeedsConn\<close>: the list of one backend is split into
  what stays, what is closed and what is handed out.
\<close>

lemma pool_inv_split:
  assumes inv: "pool_inv h" and open_pool: "\<not> pool_closed (the_pool h)"
    and split: "mset (map pc_conn (idle_of (the_pool h) backend)) = mset (map pc_conn xs) + mset (map pc_conn ys) + mset cs"
  shows "pool_inv (h\<lparr>the_pool := mark_closed ys (the_pool h)\<lparr>idle := map_set (idle (the_pool h)) backend xs\<rparr>,
    handed_out := handed_out h @ cs\<rparr>)"
proof -
  let ?p = "the_pool h"
  from split have "size (mset (map pc_conn (idle_of ?p backend))) = size (mset (map pc_conn xs) + mset (map pc_conn ys) + mset cs)"
    by (rule arg_cong)
  then have len: "length xs \<le> length (idle_of ?p backend)" by simp
  have ok: "map_ok (idle ?p)" "pool_bounded ?p" "0 < MaxIdlePerBackend (pool_options ?p)"
    using inv by (simp_all add: pool_inv_def)
  from idle_conns_update [OF ok(1), of backend xs]
  have "mset (idle_conns (?p\<lparr>idle := map_set (idle ?p) backend xs\<rparr>)) + (mset (map pc_conn ys) + mset cs) = mset (idle_conns ?p)"
    unfolding split by (simp add: ac_simps)
  moreover have "mset (given h) = mset (idle_conns ?p) + mset (closed_conns ?p) + mset (handed_out h)"
    using inv by (simp add: pool_inv_def)
  ultimately have "mset (given h) = mset (idle_conns (?p\<lparr>idle := map_set (idle ?p) backend xs\<rparr>))
      + (mset (closed_conns ?p) + mset (map pc_conn ys)) + (mset (handed_out h) + mset cs)"
    by (simp add: ac_simps)
  moreover have "pool_bounded (mark_closed ys ?p\<lparr>idle := map_set (idle ?p) backend xs\<rparr>)"
    using pool_bounded_shrink [OF ok(2,3) len] .
  ultimately show ?thesis
    using ok open_pool by (simp add: pool_inv_def) (simp add: mark_closed_def ac_simps)
qed

lemma pool_inv_Get:
  assumes "pool_inv h"
  shows "pool_inv (pool_step (GetOp backend now) h)"
proof (cases rule: Pool_Get_cases [of "the_pool h" backend now])
  case is_closed
  with assms show ?thesis by simp
next
  case no_conn
  show ?thesis
  proof (cases "idle_of (the_pool h) backend = []")
    case True
    with no_conn assms show ?thesis by simp
  next
    case False
    with no_conn pool_inv_split [OF assms no_conn(1), of backend "[]" "rev (idle_of (the_pool h) backend)" "[]"]
    show ?thesis by (simp add: rev_map [symmetric])
  qed
next
  case (found xs x ys)
  with pool_inv_split [OF assms found(1), of backend xs "rev ys" "[pc_conn x]"]
  show ?thesis by (simp add: rev_map [symmetric])
qed

lemma pool_inv_NeedsConn:
  assumes "pool_inv h"
  shows "pool_inv (pool_step (NeedsConnOp backend now) h)"
proof (cases "pool_closed (the_pool h)")
  case True
  with assms show ?thesis by (simp add: NeedsConn_def)
next
  case False
  let ?p = "the_pool h" let ?old = "idle_of (the_pool h) backend"
  have "mset ?old = mset (filter (usable ?p now) ?old) + mset (filter (\<lambda>x. \<not> usable ?p now x) ?old)"
    by (simp add: multiset_partition [symmetric])
  then have "image_mset pc_conn (mset ?old) = image_mset pc_conn
      (mset (filter (usable ?p now) ?old) + mset (filter (\<lambda>x. \<not> usable ?p now x) ?old))"
    by (rule arg_cong)
  then have "mset (map pc_conn ?old) = mset (map pc_conn (filter (usable ?p now) ?old))
      + mset (map pc_conn (filter (\<lambda>x. \<not> usable ?p now x) ?old)) + mset []"
    by (simp only: mset_map image_mset_union mset.simps add_0_right)
  from pool_inv_split [OF assms False this] False show ?thesis by (simp add: NeedsConn_eq Let_def)
qed

lemma pool_inv_Put:
  assumes inv: "pool_inv h"
  shows "pool_inv (pool_step (PutOp backend c now) h)"
proof -
  let ?p = "the_pool h"
  let ?conns = "idle_of ?p backend @ [\<lparr>pc_conn = c, addedAt = now\<rparr>]"
  have ok: "map_ok (idle ?p)" "pool_bounded ?p" "0 < MaxIdlePerBackend (pool_options ?p)"
    using inv by (simp_all add: pool_inv_def)
  consider (closes) "Put ?p backend (Some c) now = close_conn c ?p"
    | (keeps) "\<not> pool_closed ?p" "int (length (idle_of ?p backend)) < MaxIdlePerBackend (pool_options ?p)"
        "Put ?p backend (Some c) now = ?p\<lparr>idle := map_set (idle ?p) backend ?conns\<rparr>"
    by (force simp: Put_def Let_def)
  then show ?thesis
  proof cases
    case closes
    with inv show ?thesis
      by (simp add: pool_inv_def) (simp add: close_conn_def pool_bounded_def)
  next
    case keeps
    have "pool_bounded (?p\<lparr>idle := map_set (idle ?p) backend ?conns\<rparr>)"
      using ok(2) keeps(2) by (auto simp: pool_bounded_def intro!: map_all_set)
    moreover have "mset (idle_conns (?p\<lparr>idle := map_set (idle ?p) backend ?conns\<rparr>)) = mset (idle_conns ?p) + {#c#}"
      using idle_conns_update [OF ok(1), of backend ?conns] by simp
    ultimately show ?thesis using inv keeps by (simp add: pool_inv_def)
  qed
qed

lemma pool_inv_Close:
  assumes "pool_inv h"
  shows "pool_inv (pool_step CloseOp h)"
  using assms by (auto simp: pool_inv_def ClosePool_def idle_conns_def map_values_def pool_bounded_def)

lemma pool_inv_step: "pool_inv h \<Longrightarrow> pool_inv (pool_step x h)"
  by (cases x) (auto intro: pool_inv_Get pool_inv_NeedsConn pool_inv_Put pool_inv_Close simp del: pool_step.simps)

interpretation pool_machine: invariant_machine pool_step "\<lambda>_. True" pool_inv
  by unfold_locales (rule pool_inv_step)

lemma pool_inv_new: "pool_inv (new_history opts)"
  by (simp add: pool_inv_def new_history_def NewPool_def Let_def pool_bounded_def idle_conns_def map_values_def)

lemma pool_inv_run: "pool_inv (run pool_step ops (new_history opts))"
  by (rule pool_machine.inv_run) (simp_all add: pool_inv_new list_all_iff)

lemma pool_options_step [simp]: "pool_options (the_pool (pool_step x h)) = pool_options (the_pool h)"
proof (cases x)
  case (GetOp backend now)
  then show ?thesis
    by (cases rule: Pool_Get_cases [of "the_pool h" backend now]) (simp_all add: mark_closed_def)
next
  case (NeedsConnOp backend now)
  then show ?thesis
    by (cases "pool_closed (the_pool h)") (simp_all add: NeedsConn_eq Let_def mark_closed_def, simp add: NeedsConn_def)
qed (simp_all add: Put_def Let_def close_conn_def ClosePool_def)

text \<open>Only closing a pool closes it.\<close>

lemma pool_closed_step:
  "pool_closed (the_pool (pool_step x h)) \<longleftrightarrow> pool_closed (the_pool h) \<or> x = CloseOp"
proof (cases x)
  case (GetOp backend now)
  then show ?thesis
    by (cases rule: Pool_Get_cases [of "the_pool h" backend now]) (simp_all add: mark_closed_def)
next
  case (NeedsConnOp backend now)
  then show ?thesis
    by (cases "pool_closed (the_pool h)") (simp_all add: NeedsConn_eq Let_def mark_closed_def, simp add: NeedsConn_def)
qed (simp_all add: Put_def Let_def close_conn_def ClosePool_def)

lemma pool_options_run: "pool_options (the_pool (run pool_step ops h)) = pool_options (the_pool h)"
  by (induction ops arbitrary: h) simp_all

section \<open>Properties\<close>

text \<open>
  C21: No connection is lost, duplicated or leaked: after any history every connection ever put into
  the pool is idle, closed or handed out, each as often as it was put; no backend has
  more idle connections than the limit, and a closed pool has none.
\<close>

theorem pool_conserves_connections:
  assumes "h = run pool_step ops (new_history opts)"
  shows "mset (given h) = mset (idle_conns (the_pool h)) + mset (closed_conns (the_pool h)) + mset (handed_out h)
    \<and> int (length (idle_of (the_pool h) backend)) \<le> max 1 (MaxIdlePerBackend opts)
    \<and> (pool_closed (the_pool h) \<longrightarrow> idle (the_pool h) = [])"
proof -
  have inv: "pool_inv h" using pool_inv_run assms by simp
  then have "int (length (idle_of (the_pool h) backend)) \<le> MaxIdlePerBackend (pool_options (the_pool h))"
    by (intro pool_bounded_idle_of) (simp_all add: pool_inv_def)
  moreover have "MaxIdlePerBackend (pool_options (the_pool h)) = max 1 (MaxIdlePerBackend opts)"
    unfolding assms pool_options_run by (simp add: new_history_def NewPool_def Let_def)
  ultimately show ?thesis using inv by (simp add: pool_inv_def)
qed

theorem pool_conserves_connections_witness:
  "let h = run pool_step [PutOp ''b'' 1 0, PutOp ''b'' (2 :: nat) 0, GetOp ''b'' 5]
     (new_history \<lparr>MaxIdlePerBackend = 1, IdleTimeout = 10\<rparr>)
   in mset (given h) = mset (idle_conns (the_pool h)) + mset (closed_conns (the_pool h)) + mset (handed_out h)"
  unfolding Let_def using pool_conserves_connections [OF refl] by blast

end
