(* ===== verification/Dialer.thy ===== *)
theory Dialer
  imports Pool Router
begin

text \<open>
  \<^verbatim>\<open>internal/proxy/dialer.go\<close>: connections to backends, fresh or from the pool of idle ones.  A
  connection is the address that was dialled and the number of the dial, so that no two are the same;
  \<open>net_answers\<close> says how each dial ends.  A hit in the pool starts a refill in a goroutine of its own:
  \<open>d_spawned\<close> are the refills that have not looked at the pool yet, \<open>d_inflight\<close> those that have
  dialled and not put their connection back yet, so that the steps of several refills interleave
  with everything else.
\<close>

section \<open>Definitions\<close>

type_synonym net_conn = "string \<times> nat"

record NetDialer =
  d_pool :: "net_conn Pool option"
  net_answers :: "nat \<Rightarrow> go_error option"
  net_dials :: "string list"
  d_clock :: clock
  d_spawned :: "Backend list"
  d_inflight :: "(Backend \<times> net_conn) list"

definition NewNetDialer :: "net_conn Pool option \<Rightarrow> (nat \<Rightarrow> go_error option) \<Rightarrow> clock \<Rightarrow> NetDialer" where
  "NewNetDialer p answers clk =
     \<lparr>d_pool = p, net_answers = answers, net_dials = [], d_clock = clk, d_spawned = [], d_inflight = []\<rparr>"

definition d_now :: "NetDialer \<Rightarrow> Time \<times> NetDialer" where
  "d_now d = (let (now, clk) = tick (d_clock d) in (now, d\<lparr>d_clock := clk\<rparr>))"

definition dialFresh :: "NetDialer \<Rightarrow> Backend \<Rightarrow> (go_error + net_conn) \<times> NetDialer" where
  "dialFresh d backend =
     (let n = length (net_dials d) in
      (case net_answers d n of Some err \<Rightarrow> Inl err | None \<Rightarrow> Inr (Addr backend, n),
       d\<lparr>net_dials := net_dials d @ [Addr backend]\<rparr>))"

definition NetDialer_Dial :: "NetDialer \<Rightarrow> Backend \<Rightarrow> (go_error + net_conn) \<times> NetDialer" where
  "NetDialer_Dial d backend = dialFresh d backend"

text \<open>A refill up to its dial, and what follows the dial.\<close>

definition refill_dial :: "NetDialer \<Rightarrow> Backend \<Rightarrow> net_conn option \<times> NetDialer" where
  "refill_dial d backend =
     (case d_pool d of
        None \<Rightarrow> (None, d)
      | Some p \<Rightarrow>
          (let (now, d) = d_now d;
               (needs, p) = NeedsConn p (Addr backend) now;
               d = d\<lparr>d_pool := Some p\<rparr>
           in if \<not> needs then (None, d)
              else (case dialFresh d backend of (Inl err, d) \<Rightarrow> (None, d) | (Inr c, d) \<Rightarrow> (Some c, d))))"

definition refill_put :: "NetDialer \<Rightarrow> Backend \<Rightarrow> net_conn \<Rightarrow> NetDialer" where
  "refill_put d backend c =
     (case d_pool d of
        None \<Rightarrow> d
      | Some p \<Rightarrow> (let (now, d) = d_now d in d\<lparr>d_pool := Some (Put p (Addr backend) (Some c) now)\<rparr>))"

definition Refill :: "NetDialer \<Rightarrow> Backend \<Rightarrow> NetDialer" where
  "Refill d backend =
     (case refill_dial d backend of (None, d) \<Rightarrow> d | (Some c, d) \<Rightarrow> refill_put d backend c)"

definition Warm :: "NetDialer \<Rightarrow> Backend list \<Rightarrow> NetDialer" where
  "Warm d backends = (if d_pool d = None then d else foldl Refill d backends)"

definition NetDialer_DialStatus :: "NetDialer \<Rightarrow> Backend \<Rightarrow> (go_error + net_conn) \<times> NetDialer" where
  "NetDialer_DialStatus d backend =
     (case d_pool d of
        None \<Rightarrow> dialFresh d backend
      | Some p \<Rightarrow>
          (let (now, d) = d_now d in
           case Pool_Get p (Addr backend) now of
             (Some c, p) \<Rightarrow> (Inr c, d\<lparr>d_pool := Some p, d_spawned := d_spawned d @ [backend]\<rparr>)
           | (None, p) \<Rightarrow>
               (let (res, d) = dialFresh (d\<lparr>d_pool := Some p\<rparr>) backend in (res, Refill d backend))))"

section \<open>Histories of a dialer\<close>

text \<open>
  A history keeps, beside the dialer, which connection each caller was given, with the address it had
  asked for.  A spawned refill takes its two steps whenever it likes.
\<close>

datatype dialer_op =
    DialOp Backend
  | DialStatusOp Backend
  | WarmOp "Backend list"
  | SpawnedDialOp
  | SpawnedPutOp nat
  | PoolCloseOp

record dialer_history =
  the_dialer :: NetDialer
  callers :: "(string \<times> net_conn) list"

definition hand_out :: "dialer_history \<Rightarrow> Backend \<Rightarrow> (go_error + net_conn) \<times> NetDialer \<Rightarrow> dialer_history" where
  "hand_out h backend res =
     (case res of
        (Inl err, d) \<Rightarrow> h\<lparr>the_dialer := d\<rparr>
      | (Inr c, d) \<Rightarrow> h\<lparr>the_dialer := d, callers := callers h @ [(Addr backend, c)]\<rparr>)"

definition spawned_dial :: "NetDialer \<Rightarrow> NetDialer" where
  "spawned_dial d =
     (case d_spawned d of
        [] \<Rightarrow> d
      | backend # rest \<Rightarrow>
          (case refill_dial (d\<lparr>d_spawned := rest\<rparr>) backend of
             (None, d) \<Rightarrow> d
           | (Some c, d) \<Rightarrow> d\<lparr>d_inflight := d_inflight d @ [(backend, c)]\<rparr>))"

definition spawned_put :: "nat \<Rightarrow> NetDialer \<Rightarrow> NetDialer" where
  "spawned_put i d =
     (if i < length (d_inflight d)
      then (let (backend, c) = d_inflight d ! i
            in refill_put (d\<lparr>d_inflight := take i (d_inflight d) @ drop (Suc i) (d_inflight d)\<rparr>) backend c)
      else d)"

primrec dialer_step :: "dialer_op \<Rightarrow> dialer_history \<Rightarrow> dialer_history" where
  "dialer_step (DialOp backend) h = hand_out h backend (NetDialer_Dial (the_dialer h) backend)"
| "dialer_step (DialStatusOp backend) h = hand_out h backend (NetDialer_DialStatus (the_dialer h) backend)"
| "dialer_step (WarmOp backends) h = h\<lparr>the_dialer := Warm (the_dialer h) backends\<rparr>"
| "dialer_step SpawnedDialOp h = h\<lparr>the_dialer := spawned_dial (the_dialer h)\<rparr>"
| "dialer_step (SpawnedPutOp i) h = h\<lparr>the_dialer := spawned_put i (the_dialer h)\<rparr>"
| "dialer_step PoolCloseOp h = h\<lparr>the_dialer := (the_dialer h)\<lparr>d_pool := map_option ClosePool (d_pool (the_dialer h))\<rparr>\<rparr>"

section \<open>Where the connections are\<close>

text \<open>The connections that dials have made.\<close>

definition connected :: "NetDialer \<Rightarrow> net_conn list" where
  "connected d = map (\<lambda>n. (net_dials d ! n, n)) (filter (\<lambda>n. net_answers d n = None) [0..<length (net_dials d)])"

definition pooled :: "NetDialer \<Rightarrow> net_conn multiset" where
  "pooled d = (case d_pool d of None \<Rightarrow> {#} | Some p \<Rightarrow> mset (idle_conns p) + mset (closed_conns p))"

text \<open>Idle connections are filed under the address they were dialled to.\<close>

definition filed :: "net_conn Pool \<Rightarrow> bool" where
  "filed p \<longleftrightarrow> map_all (\<lambda>addr items. \<forall>x \<in> set items. fst (pc_conn x) = addr) (idle p)"

definition pool_fine :: "net_conn Pool \<Rightarrow> bool" where
  "pool_fine p \<longleftrightarrow> (\<exists>g out. pool_inv \<lparr>the_pool = p, given = g, handed_out = out\<rparr>) \<and> filed p"

text \<open>
  The invariant of a history; \<open>extra\<close> are connections in the hands of an operation that is under way.
\<close>

definition dialer_inv :: "(string \<times> net_conn) list \<Rightarrow> net_conn multiset \<Rightarrow> NetDialer \<Rightarrow> bool" where
  "dialer_inv cs extra d \<longleftrightarrow>
     pred_option pool_fine (d_pool d)
     \<and> mset (connected d) = pooled d + mset (map snd (d_inflight d)) + mset (map snd cs) + extra
     \<and> (d_pool d = None \<longrightarrow> d_inflight d = [])
     \<and> (\<forall>(backend, c) \<in> set (d_inflight d). fst c = Addr backend)
     \<and> (\<forall>(addr, c) \<in> set cs. fst c = addr)"


definition pool_conns :: "net_conn Pool \<Rightarrow> net_conn multiset" where
  "pool_conns p = mset (idle_conns p) + mset (closed_conns p)"

lemma pooled_eq [simp]: "d_pool d = Some p \<Longrightarrow> pooled d = pool_conns p" "d_pool d = None \<Longrightarrow> pooled d = {#}"
  by (simp_all add: pooled_def pool_conns_def)

lemma pool_inv_conns: "pool_inv h \<Longrightarrow> mset (given h) = pool_conns (the_pool h) + mset (handed_out h)"
  by (simp add: pool_inv_def pool_conns_def)

lemma filed_idle_of: "filed p \<Longrightarrow> x \<in> set (idle_of p addr) \<Longrightarrow> fst (pc_conn x) = addr"
  by (cases "map_get (idle p) addr") (auto simp: filed_def idle_of_def dest: map_allD)

lemma filed_map_set:
  "filed p \<Longrightarrow> idle p' = map_set (idle p) addr xs \<Longrightarrow> \<forall>x \<in> set xs. fst (pc_conn x) = addr \<Longrightarrow> filed p'"
  by (simp add: filed_def map_all_set)

lemma pool_fine_Get:
  assumes fine: "pool_fine p" and get: "Pool_Get p addr now = (res, p')"
  shows "pool_fine p' \<and> pool_conns p = pool_conns p' + (case res of None \<Rightarrow> {#} | Some c \<Rightarrow> {#c#})
    \<and> (\<forall>c. res = Some c \<longrightarrow> fst c = addr)"
proof -
  obtain g out where inv: "pool_inv \<lparr>the_pool = p, given = g, handed_out = out\<rparr>" and f: "filed p"
    using fine by (auto simp: pool_fine_def)
  let ?out = "out @ (case res of None \<Rightarrow> [] | Some c \<Rightarrow> [c])"
  have inv': "pool_inv \<lparr>the_pool = p', given = g, handed_out = ?out\<rparr>"
    using pool_inv_Get [OF inv, of addr now] get by (cases res) simp_all
  have own: "filed p' \<and> (\<forall>c. res = Some c \<longrightarrow> fst c = addr)"
  proof (cases rule: Pool_Get_cases [of p addr now])
    case is_closed
    with f get show ?thesis by simp
  next
    case no_conn
    with f get show ?thesis by (auto simp: mark_closed_def filed_def intro!: map_all_set)
  next
    case (found xs x ys)
    with get have p': "res = Some (pc_conn x)" "idle p' = map_set (idle p) addr xs" by auto
    moreover have "\<forall>y \<in> set xs. fst (pc_conn y) = addr" "fst (pc_conn x) = addr"
      using filed_idle_of [OF f, of _ addr] found(2) by auto
    ultimately show ?thesis using filed_map_set [OF f] by auto
  qed
  have "pool_conns p + mset out = pool_conns p' + mset ?out"
    using pool_inv_conns [OF inv] pool_inv_conns [OF inv'] by simp
  then have "pool_conns p = pool_conns p' + mset (case res of None \<Rightarrow> [] | Some c \<Rightarrow> [c])"
    by (simp add: ac_simps)
  then show ?thesis using own inv' by (auto simp: pool_fine_def split: option.splits)
qed

lemma pool_fine_NeedsConn:
  assumes fine: "pool_fine p" and needs: "NeedsConn p addr now = (b, p')"
  shows "pool_fine p' \<and> pool_conns p' = pool_conns p"
proof -
  obtain g out where inv: "pool_inv \<lparr>the_pool = p, given = g, handed_out = out\<rparr>" and f: "filed p"
    using fine by (auto simp: pool_fine_def)
  have inv': "pool_inv \<lparr>the_pool = p', given = g, handed_out = out\<rparr>"
    using pool_inv_NeedsConn [OF inv, of addr now] needs by simp
  have "filed p'"
  proof (cases "pool_closed p")
    case True
    with f needs show ?thesis by (simp add: NeedsConn_def)
  next
    case False
    then have "idle p' = map_set (idle p) addr (filter (usable p now) (idle_of p addr))"
      using needs by (auto simp: NeedsConn_eq Let_def)
    then show ?thesis using filed_map_set [OF f] filed_idle_of [OF f] by auto
  qed
  moreover have "pool_conns p + mset out = pool_conns p' + mset out"
    using pool_inv_conns [OF inv] pool_inv_conns [OF inv'] by simp
  ultimately show ?thesis using inv' by (auto simp: pool_fine_def)
qed

lemma pool_fine_Put:
  assumes fine: "pool_fine p" and c: "fst c = addr"
  shows "pool_fine (Put p addr (Some c) now) \<and> pool_conns (Put p addr (Some c) now) = pool_conns p + {#c#}"
proof -
  let ?p = "Put p addr (Some c) now"
  obtain g out where inv: "pool_inv \<lparr>the_pool = p, given = g, handed_out = out\<rparr>" and f: "filed p"
    using fine by (auto simp: pool_fine_def)
  have inv': "pool_inv \<lparr>the_pool = ?p, given = g @ [c], handed_out = out\<rparr>"
    using pool_inv_Put [OF inv, of addr c now] by simp
  have "idle ?p = idle p \<or> idle ?p = map_set (idle p) addr (idle_of p addr @ [\<lparr>pc_conn = c, addedAt = now\<rparr>])"
    by (simp add: Put_def Let_def close_conn_def)
  then have "filed ?p"
    using f c filed_idle_of [OF f, of _ addr] by (auto simp: filed_def intro!: map_all_set)
  moreover have "pool_conns p + {#c#} + mset out = pool_conns ?p + mset out"
    using pool_inv_conns [OF inv] pool_inv_conns [OF inv'] by (simp add: ac_simps)
  ultimately show ?thesis using inv' by (auto simp: pool_fine_def)
qed

lemma pool_fine_Close:
  assumes fine: "pool_fine p"
  shows "pool_fine (ClosePool p) \<and> pool_conns (ClosePool p) = pool_conns p"
proof -
  obtain g out where inv: "pool_inv \<lparr>the_pool = p, given = g, handed_out = out\<rparr>" and f: "filed p"
    using fine by (auto simp: pool_fine_def)
  have inv': "pool_inv \<lparr>the_pool = ClosePool p, given = g, handed_out = out\<rparr>"
    using pool_inv_Close [OF inv] by simp
  have "filed (ClosePool p)" using f by (simp add: filed_def ClosePool_def)
  moreover have "pool_conns p + mset out = pool_conns (ClosePool p) + mset out"
    using pool_inv_conns [OF inv] pool_inv_conns [OF inv'] by simp
  ultimately show ?thesis using inv' by (auto simp: pool_fine_def)
qed

lemma pool_fine_New: "pool_fine (NewPool opts)"
proof -
  have "pool_inv \<lparr>the_pool = NewPool opts, given = [], handed_out = []\<rparr>"
    using pool_inv_new [of opts] by (simp add: new_history_def)
  moreover have "filed (NewPool opts)" by (simp add: filed_def NewPool_def Let_def)
  ultimately show ?thesis by (auto simp: pool_fine_def)
qed

section \<open>The operations keep the connections apart\<close>

lemma dialer_inv_clock [simp]:
  "dialer_inv cs x (d\<lparr>d_clock := clk\<rparr>) = dialer_inv cs x d"
  "dialer_inv cs x (d\<lparr>d_spawned := bs\<rparr>) = dialer_inv cs x d"
  by (simp_all add: dialer_inv_def connected_def pooled_def)

lemma dialer_inv_pool:
  assumes "dialer_inv cs x d" "d_pool d = Some p" "pool_fine p'" "pool_conns p' + x' = pool_conns p + x"
  shows "dialer_inv cs x' (d\<lparr>d_pool := Some p'\<rparr>)"
  using assms by (simp add: dialer_inv_def connected_def ac_simps)

lemma dialFresh_inv:
  assumes "dialer_inv cs x d" "dialFresh d backend = (res, d')"
  shows "dialer_inv cs (x + (case res of Inl _ \<Rightarrow> {#} | Inr c \<Rightarrow> {#c#})) d'
    \<and> d_pool d' = d_pool d \<and> (\<forall>c. res = Inr c \<longrightarrow> fst c = Addr backend)"
proof -
  let ?n = "length (net_dials d)"
  have d': "d' = d\<lparr>net_dials := net_dials d @ [Addr backend]\<rparr>"
    "res = (case net_answers d ?n of Some err \<Rightarrow> Inl err | None \<Rightarrow> Inr (Addr backend, ?n))"
    using assms(2) by (auto simp: dialFresh_def Let_def)
  have "map (\<lambda>n. ((net_dials d @ [Addr backend]) ! n, n)) (filter (\<lambda>n. net_answers d n = None) [0..<?n])
      = map (\<lambda>n. (net_dials d ! n, n)) (filter (\<lambda>n. net_answers d n = None) [0..<?n])"
    by (rule map_cong) (auto simp: nth_append)
  then have "connected d' = connected d @ (case res of Inl _ \<Rightarrow> [] | Inr c \<Rightarrow> [c])"
    by (simp add: d' connected_def split: option.split)
  moreover have "pooled d' = pooled d" "d_inflight d' = d_inflight d" "d_pool d' = d_pool d"
    by (simp_all add: d' pooled_def)
  ultimately show ?thesis
    using assms(1) d'(2) by (auto simp: dialer_inv_def ac_simps split: option.splits)
qed


lemma d_now_inv:
  assumes "d_now d = (now, d')"
  shows "dialer_inv cs x d' = dialer_inv cs x d \<and> d_pool d' = d_pool d"
  using assms by (auto simp: d_now_def tick_def)

lemma dialer_inv_fine: "dialer_inv cs x d \<Longrightarrow> d_pool d = Some p \<Longrightarrow> pool_fine p"
  by (simp add: dialer_inv_def)

lemma refill_dial_inv:
  assumes inv: "dialer_inv cs x d" and run: "refill_dial d backend = (res, d')"
  shows "dialer_inv cs (x + (case res of None \<Rightarrow> {#} | Some c \<Rightarrow> {#c#})) d'
    \<and> (\<forall>c. res = Some c \<longrightarrow> fst c = Addr backend \<and> d_pool d' \<noteq> None)"
proof (cases "d_pool d")
  case None
  with assms show ?thesis by (auto simp: refill_dial_def)
next
  case (Some p)
  obtain now d1 where d1: "d_now d = (now, d1)" by fastforce
  obtain needs p2 where p2: "NeedsConn p (Addr backend) now = (needs, p2)" by fastforce
  note n = d_now_inv [OF d1]
  have inv1: "dialer_inv cs x d1" "d_pool d1 = Some p" using n inv Some by simp_all
  let ?d = "d1\<lparr>d_pool := Some p2\<rparr>"
  have "pool_fine p2 \<and> pool_conns p2 = pool_conns p"
    using pool_fine_NeedsConn [OF dialer_inv_fine [OF inv Some] p2] .
  then have inv2: "dialer_inv cs x ?d" using dialer_inv_pool [OF inv1] by simp
  show ?thesis
  proof (cases needs)
    case False
    with run Some d1 p2 inv2 show ?thesis by (auto simp: refill_dial_def)
  next
    case True
    obtain r d3 where d3: "dialFresh ?d backend = (r, d3)" by fastforce
    from dialFresh_inv [OF inv2 d3] True run Some d1 p2 d3 show ?thesis
      by (cases r) (auto simp: refill_dial_def)
  qed
qed

lemma refill_put_inv:
  assumes inv: "dialer_inv cs (x + {#c#}) d" and c: "fst c = Addr backend" and pool: "d_pool d \<noteq> None"
  shows "dialer_inv cs x (refill_put d backend c)"
proof -
  obtain p where p: "d_pool d = Some p" using pool by blast
  obtain now d1 where d1: "d_now d = (now, d1)" by fastforce
  have inv1: "dialer_inv cs (x + {#c#}) d1" "d_pool d1 = Some p" using d_now_inv [OF d1] inv p by simp_all
  have "pool_fine (Put p (Addr backend) (Some c) now)"
    "pool_conns (Put p (Addr backend) (Some c) now) = pool_conns p + {#c#}"
    using pool_fine_Put [OF dialer_inv_fine [OF inv p] c, of now] by simp_all
  then have "dialer_inv cs x (d1\<lparr>d_pool := Some (Put p (Addr backend) (Some c) now)\<rparr>)"
    using dialer_inv_pool [OF inv1] by (simp add: ac_simps)
  then show ?thesis by (simp add: refill_put_def p d1)
qed

lemma Refill_inv: "dialer_inv cs x d \<Longrightarrow> dialer_inv cs x (Refill d backend)"
proof -
  assume inv: "dialer_inv cs x d"
  obtain res d1 where d1: "refill_dial d backend = (res, d1)" by fastforce
  from refill_dial_inv [OF inv d1] refill_put_inv [of cs x _ d1 backend] d1 show ?thesis
    by (cases res) (auto simp: Refill_def)
qed

lemma Warm_inv: "dialer_inv cs x d \<Longrightarrow> dialer_inv cs x (Warm d backends)"
proof -
  have "dialer_inv cs x d \<Longrightarrow> dialer_inv cs x (foldl Refill d backends)" for d
    by (induction backends arbitrary: d) (simp_all add: Refill_inv)
  then show "dialer_inv cs x d \<Longrightarrow> dialer_inv cs x (Warm d backends)" by (simp add: Warm_def)
qed

lemma DialStatus_inv:
  assumes inv: "dialer_inv cs {#} d" and run: "NetDialer_DialStatus d backend = (res, d')"
  shows "dialer_inv cs (case res of Inl _ \<Rightarrow> {#} | Inr c \<Rightarrow> {#c#}) d' \<and> (\<forall>c. res = Inr c \<longrightarrow> fst c = Addr backend)"
proof (cases "d_pool d")
  case None
  with dialFresh_inv [OF inv] run show ?thesis by (auto simp: NetDialer_DialStatus_def)
next
  case (Some p)
  obtain now d1 where d1: "d_now d = (now, d1)" by fastforce
  have inv1: "dialer_inv cs {#} d1" "d_pool d1 = Some p" using d_now_inv [OF d1] inv Some by simp_all
  obtain r p2 where p2: "Pool_Get p (Addr backend) now = (r, p2)" by fastforce
  note get = pool_fine_Get [OF dialer_inv_fine [OF inv Some] p2]
  let ?d = "d1\<lparr>d_pool := Some p2\<rparr>"
  have inv2: "dialer_inv cs (case r of None \<Rightarrow> {#} | Some c \<Rightarrow> {#c#}) ?d"
    using dialer_inv_pool [OF inv1] get by simp
  show ?thesis
  proof (cases r)
    case (Some c)
    with run inv2 get d1 p2 \<open>d_pool d = Some p\<close> show ?thesis
      by (auto simp: NetDialer_DialStatus_def)
  next
    case None
    obtain r3 d3 where d3: "dialFresh ?d backend = (r3, d3)" by fastforce
    have inv3: "dialer_inv cs (case r3 of Inl _ \<Rightarrow> {#} | Inr c \<Rightarrow> {#c#}) d3" "\<forall>c. r3 = Inr c \<longrightarrow> fst c = Addr backend"
      using dialFresh_inv [OF _ d3, of cs "{#}"] inv2 None by (auto split: sum.splits)
    have "res = r3" "d' = Refill d3 backend"
      using run d1 p2 None d3 Some by (auto simp: NetDialer_DialStatus_def)
    with inv3 show ?thesis by (simp add: Refill_inv)
  qed
qed


lemma dialer_inv_give: "dialer_inv cs {#c#} d \<Longrightarrow> fst c = addr \<Longrightarrow> dialer_inv (cs @ [(addr, c)]) {#} d"
  by (auto simp: dialer_inv_def ac_simps)

lemma dialer_inv_inflight:
  assumes "dialer_inv cs {#c#} d" "fst c = Addr backend" "d_pool d \<noteq> None"
  shows "dialer_inv cs {#} (d\<lparr>d_inflight := d_inflight d @ [(backend, c)]\<rparr>)"
  using assms by (auto simp: dialer_inv_def connected_def pooled_def ac_simps)

lemma spawned_dial_inv: "dialer_inv cs {#} d \<Longrightarrow> dialer_inv cs {#} (spawned_dial d)"
proof (cases "d_spawned d")
  case (Cons backend rest)
  assume "dialer_inv cs {#} d"
  then have inv: "dialer_inv cs {#} (d\<lparr>d_spawned := rest\<rparr>)" by simp
  obtain res d1 where d1: "refill_dial (d\<lparr>d_spawned := rest\<rparr>) backend = (res, d1)" by fastforce
  from refill_dial_inv [OF inv d1] dialer_inv_inflight [of cs _ d1 backend] Cons d1 show ?thesis
    by (cases res) (auto simp: spawned_dial_def)
qed (simp add: spawned_dial_def)

lemma spawned_put_inv: "dialer_inv cs {#} d \<Longrightarrow> dialer_inv cs {#} (spawned_put i d)"
proof (cases "i < length (d_inflight d)")
  case True
  assume inv: "dialer_inv cs {#} d"
  obtain backend c where bc: "d_inflight d ! i = (backend, c)" by (rule prod.exhaust)
  let ?rest = "take i (d_inflight d) @ drop (Suc i) (d_inflight d)"
  have split: "d_inflight d = take i (d_inflight d) @ (backend, c) # drop (Suc i) (d_inflight d)"
    using id_take_nth_drop [OF True] bc by simp
  from arg_cong [OF this, of "\<lambda>xs. mset (map snd xs)"]
  have "mset (map snd (d_inflight d)) = mset (map snd ?rest) + {#c#}" by simp
  moreover have "set ?rest \<subseteq> set (d_inflight d)" by (auto dest: in_set_takeD in_set_dropD)
  moreover have "fst c = Addr backend" "d_pool d \<noteq> None"
    using inv True bc nth_mem [OF True] by (auto simp: dialer_inv_def)
  ultimately have "dialer_inv cs ({#} + {#c#}) (d\<lparr>d_inflight := ?rest\<rparr>)"
    using inv by (auto simp: dialer_inv_def connected_def pooled_def ac_simps)
  from refill_put_inv [OF this \<open>fst c = Addr backend\<close>] \<open>d_pool d \<noteq> None\<close> True bc show ?thesis
    by (simp add: spawned_put_def)
qed (simp add: spawned_put_def)

lemma dialer_inv_step:
  "dialer_inv (callers h) {#} (the_dialer h) \<Longrightarrow>
     dialer_inv (callers (dialer_step x h)) {#} (the_dialer (dialer_step x h))"
proof (cases x)
  case (DialOp backend)
  assume inv: "dialer_inv (callers h) {#} (the_dialer h)"
  obtain res d where d: "dialFresh (the_dialer h) backend = (res, d)" by fastforce
  from dialFresh_inv [OF inv d] dialer_inv_give [of "callers h"] DialOp d show ?thesis
    by (cases res) (auto simp: hand_out_def NetDialer_Dial_def)
next
  case (DialStatusOp backend)
  assume inv: "dialer_inv (callers h) {#} (the_dialer h)"
  obtain res d where d: "NetDialer_DialStatus (the_dialer h) backend = (res, d)" by fastforce
  from DialStatus_inv [OF inv d] dialer_inv_give [of "callers h"] DialStatusOp d show ?thesis
    by (cases res) (auto simp: hand_out_def)
next
  case PoolCloseOp
  assume inv: "dialer_inv (callers h) {#} (the_dialer h)"
  show ?thesis
  proof (cases "d_pool (the_dialer h)")
    case (Some p)
    then show ?thesis
      using PoolCloseOp dialer_inv_pool [OF inv Some] pool_fine_Close [OF dialer_inv_fine [OF inv Some]] by simp
  qed (use inv PoolCloseOp in \<open>simp add: dialer_inv_def connected_def pooled_def\<close>)
qed (simp_all add: Warm_inv spawned_dial_inv spawned_put_inv)

interpretation dialer_machine: invariant_machine dialer_step "\<lambda>_. True"
  "\<lambda>h. dialer_inv (callers h) {#} (the_dialer h)"
  by unfold_locales (rule dialer_inv_step)


text \<open>The options of the pool never change, and only closing the pool closes it.\<close>

definition dialer_options :: "NetDialer \<Rightarrow> (PoolOptions \<times> bool) option" where
  "dialer_options d = map_option (\<lambda>p. (pool_options p, pool_closed p)) (d_pool d)"

lemma pool_options_ops [simp]:
  "pool_options (snd (Pool_Get p addr now)) = pool_options p"
  "pool_options (snd (NeedsConn p addr now)) = pool_options p"
  "pool_options (Put p addr (Some c) now) = pool_options p"
  "pool_options (ClosePool p) = pool_options p"
  using pool_options_step [of "GetOp addr now" "\<lparr>the_pool = p, given = [], handed_out = []\<rparr>"]
    pool_options_step [of "NeedsConnOp addr now" "\<lparr>the_pool = p, given = [], handed_out = []\<rparr>"]
    pool_options_step [of "PutOp addr c now" "\<lparr>the_pool = p, given = [], handed_out = []\<rparr>"]
    pool_options_step [of "CloseOp" "\<lparr>the_pool = p, given = [], handed_out = []\<rparr>"]
  by (auto split: prod.splits option.splits)

lemma pool_closed_ops [simp]:
  "pool_closed (snd (Pool_Get p addr now)) = pool_closed p"
  "pool_closed (snd (NeedsConn p addr now)) = pool_closed p"
  "pool_closed (Put p addr (Some c) now) = pool_closed p"
  "pool_closed (ClosePool p)"
  using pool_closed_step [of "GetOp addr now" "\<lparr>the_pool = p, given = [], handed_out = []\<rparr>"]
    pool_closed_step [of "NeedsConnOp addr now" "\<lparr>the_pool = p, given = [], handed_out = []\<rparr>"]
    pool_closed_step [of "PutOp addr c now" "\<lparr>the_pool = p, given = [], handed_out = []\<rparr>"]
    pool_closed_step [of "CloseOp" "\<lparr>the_pool = p, given = [], handed_out = []\<rparr>"]
  by (auto split: prod.splits option.splits)

lemma dialer_options_fresh: "dialer_options (snd (dialFresh d b)) = dialer_options d"
  by (simp add: dialFresh_def dialer_options_def Let_def)

lemma dialer_options_refill_dial: "dialer_options (snd (refill_dial d b)) = dialer_options d"
proof (cases "d_pool d")
  case (Some p)
  obtain now d1 where d1: "d_now d = (now, d1)" by fastforce
  obtain needs p2 where p2: "NeedsConn p (Addr b) now = (needs, p2)" by fastforce
  have "pool_options p2 = pool_options p" "pool_closed p2 = pool_closed p"
    using pool_options_ops(2) [of p "Addr b" now] pool_closed_ops(2) [of p "Addr b" now] p2 by simp_all
  then have same: "dialer_options (d1\<lparr>d_pool := Some p2\<rparr>) = dialer_options d" using Some by (simp add: dialer_options_def)
  obtain r d3 where "dialFresh (d1\<lparr>d_pool := Some p2\<rparr>) b = (r, d3)" by fastforce
  with same dialer_options_fresh [of "d1\<lparr>d_pool := Some p2\<rparr>" b] show ?thesis
    by (cases r) (simp_all add: refill_dial_def Some d1 p2 Let_def)
qed (simp add: refill_dial_def)

lemma dialer_options_refill_put: "dialer_options (refill_put d b c) = dialer_options d"
  by (cases "d_pool d") (auto simp: refill_put_def dialer_options_def split: prod.split)

lemma dialer_options_Refill: "dialer_options (Refill d b) = dialer_options d"
  using dialer_options_refill_dial [of d b] dialer_options_refill_put
  by (auto simp: Refill_def split: prod.split option.split)

lemma dialer_options_DialStatus: "dialer_options (snd (NetDialer_DialStatus d b)) = dialer_options d"
proof (cases "d_pool d")
  case None
  then show ?thesis by (simp add: NetDialer_DialStatus_def dialer_options_fresh)
next
  case (Some p)
  obtain now d1 where d1: "d_now d = (now, d1)" by fastforce
  obtain r p2 where p2: "Pool_Get p (Addr b) now = (r, p2)" by fastforce
  have opts: "pool_options p2 = pool_options p" "pool_closed p2 = pool_closed p"
    using pool_options_ops(1) [of p "Addr b" now] pool_closed_ops(1) [of p "Addr b" now] p2 by simp_all
  obtain r3 d3 where d3: "dialFresh (d1\<lparr>d_pool := Some p2\<rparr>) b = (r3, d3)" by fastforce
  have "dialer_options d3 = dialer_options d"
    using dialer_options_fresh [of "d1\<lparr>d_pool := Some p2\<rparr>" b] d3 opts Some by (simp add: dialer_options_def)
  with opts show ?thesis
    by (cases r) (simp_all add: NetDialer_DialStatus_def Some d1 p2 d3 dialer_options_Refill, simp add: dialer_options_def Some)
qed

lemma dialer_options_hand_out: "dialer_options (the_dialer (hand_out h b res)) = dialer_options (snd res)"
  by (cases res; cases "fst res") (auto simp: hand_out_def)

lemma dialer_options_step:
  "x \<noteq> PoolCloseOp \<Longrightarrow> dialer_options (the_dialer (dialer_step x h)) = dialer_options (the_dialer h)"
proof (cases x)
  case (WarmOp backends)
  have "dialer_options (foldl Refill d backends) = dialer_options d" for d
    by (induction backends arbitrary: d) (simp_all add: dialer_options_Refill)
  with WarmOp show ?thesis by (simp add: Warm_def)
next
  case SpawnedDialOp
  let ?d = "the_dialer h"
  obtain res d1 where "refill_dial (?d\<lparr>d_spawned := tl (d_spawned ?d)\<rparr>) (hd (d_spawned ?d)) = (res, d1)" by fastforce
  with dialer_options_refill_dial [of "?d\<lparr>d_spawned := tl (d_spawned ?d)\<rparr>" "hd (d_spawned ?d)"] SpawnedDialOp show ?thesis
    by (cases "d_spawned ?d"; cases res) (auto simp: spawned_dial_def dialer_options_def)
next
  case (SpawnedPutOp i)
  then show ?thesis
    by (auto simp: spawned_put_def dialer_options_refill_put split: prod.split) (simp add: dialer_options_def)
qed (simp_all add: dialer_options_hand_out NetDialer_Dial_def dialer_options_fresh dialer_options_DialStatus)

lemma dialer_options_close:
  "dialer_options (the_dialer (dialer_step PoolCloseOp h)) = map_option (\<lambda>(opts, shut). (opts, True)) (dialer_options (the_dialer h))"
  by (simp add: dialer_options_def option.map_comp comp_def)


lemma distinct_connected: "distinct (connected d)"
  by (auto simp: connected_def distinct_map inj_on_def)

section \<open>Properties\<close>

text \<open>
  C20: The dialer never mixes connections up: however dials, pool hits, background refills and the
  closing of the pool interleave, a caller gets a connection to the backend it asked for, no connection
  is given to two callers or given out and closed or kept idle as well, every connection that was made is
  with a caller, in the pool, closed by it or on its way there, no backend has more
  idle connections than the pool's limit, and once the pool is closed none stays idle, whatever is still
  on its way.
\<close>

theorem dialer_keeps_connections_apart:
  assumes "h = run dialer_step ops \<lparr>the_dialer = NewNetDialer (Some (NewPool opts)) answers clk, callers = []\<rparr>"
    and "d_pool (the_dialer h) = Some p"
  shows "(\<forall>(addr, c) \<in> set (callers h). fst c = addr)
    \<and> distinct (map snd (callers h) @ idle_conns p @ closed_conns p)
    \<and> mset (connected (the_dialer h)) = mset (map snd (callers h)) + mset (idle_conns p) + mset (closed_conns p)
        + mset (map snd (d_inflight (the_dialer h)))
    \<and> int (length (idle_of p addr)) \<le> max 1 (MaxIdlePerBackend opts)
    \<and> (PoolCloseOp \<in> set ops \<longrightarrow> idle_conns p = [])"
proof -
  let ?h0 = "\<lparr>the_dialer = NewNetDialer (Some (NewPool opts)) answers clk, callers = []\<rparr>"
  have "dialer_inv [] {#} (the_dialer ?h0)"
    by (simp add: dialer_inv_def NewNetDialer_def connected_def pool_fine_New pooled_def)
      (simp add: NewPool_def Let_def idle_conns_def map_values_def)
  then have inv: "dialer_inv (callers h) {#} (the_dialer h)"
    unfolding assms(1) by (intro dialer_machine.inv_run) (simp_all add: list_all_iff)
  have conserved: "mset (connected (the_dialer h)) = mset (map snd (callers h) @ idle_conns p @ closed_conns p)
      + mset (map snd (d_inflight (the_dialer h)))"
    using inv assms(2) by (simp add: dialer_inv_def pool_conns_def ac_simps)
  then have "mset (connected (the_dialer h))
      = mset ((map snd (callers h) @ idle_conns p @ closed_conns p) @ map snd (d_inflight (the_dialer h)))"
    by simp
  then have "distinct ((map snd (callers h) @ idle_conns p @ closed_conns p) @ map snd (d_inflight (the_dialer h)))"
    using distinct_connected mset_eq_imp_distinct_iff by blast
  then have apart: "distinct (map snd (callers h) @ idle_conns p @ closed_conns p)"
    by (rule distinct_append [THEN iffD1, THEN conjunct1])
  have start: "dialer_options (the_dialer ?h0) = Some (pool_options (NewPool opts :: net_conn Pool), False)"
    by (simp add: dialer_options_def NewNetDialer_def NewPool_def Let_def)
  have "dialer_options (the_dialer (run dialer_step ops ?h0))
      = Some (pool_options (NewPool opts :: net_conn Pool), PoolCloseOp \<in> set ops)"
  proof (induction ops rule: rev_induct)
    case (snoc x ops)
    then show ?case
      using dialer_options_step [of x] dialer_options_close by (cases "x = PoolCloseOp") auto
  qed (use start in simp)
  then have "pool_options p = pool_options (NewPool opts :: net_conn Pool)" and shut: "pool_closed p \<longleftrightarrow> PoolCloseOp \<in> set ops"
    using assms by (simp_all add: dialer_options_def)
  then have limit: "MaxIdlePerBackend (pool_options p) = max 1 (MaxIdlePerBackend opts)"
    by (simp add: NewPool_def Let_def)
  obtain g out where "pool_inv \<lparr>the_pool = p, given = g, handed_out = out\<rparr>"
    using dialer_inv_fine [OF inv assms(2)] by (auto simp: pool_fine_def)
  then have "int (length (idle_of p addr)) \<le> MaxIdlePerBackend (pool_options p)" "pool_closed p \<Longrightarrow> idle_conns p = []"
    by (simp_all add: pool_bounded_idle_of pool_inv_def) (simp add: idle_conns_def map_values_def)
  with apart conserved limit shut inv show ?thesis by (simp add: dialer_inv_def ac_simps)
qed

text \<open>A pool that is warmed, a hit, and the refill that the hit has started.\<close>

lemma Pool_Get_single:
  "\<not> pool_closed p \<Longrightarrow> idle_of p addr = [x] \<Longrightarrow> usable p now x \<Longrightarrow>
     Pool_Get p addr now = (Some (pc_conn x), p\<lparr>idle := map_set (idle p) addr []\<rparr>)"
  using Get_loop_found [of p now x "[]" addr "[]"] by (simp add: Pool_Get_def mark_closed_def)

theorem dialer_keeps_connections_apart_witness:
  "let b = \<lparr>Name = ''lobby'', Addr = ''10.0.0.1:25565'', StatusCacheFlag = None\<rparr>;
       h = run dialer_step [WarmOp [b], DialStatusOp b, SpawnedDialOp, SpawnedPutOp 0]
         \<lparr>the_dialer = NewNetDialer (Some (NewPool \<lparr>MaxIdlePerBackend = 1, IdleTimeout = 10\<rparr>)) (\<lambda>_. None) (\<lambda>_. 7), callers = []\<rparr>
   in map_option idle_conns (d_pool (the_dialer h)) = Some [(''10.0.0.1:25565'', 1)]
      \<and> callers h = [(''10.0.0.1:25565'', (''10.0.0.1:25565'', 0))]
      \<and> (\<forall>(addr, c) \<in> set (callers h). fst c = addr)"
proof -
  let ?b = "\<lparr>Name = ''lobby'', Addr = ''10.0.0.1:25565'', StatusCacheFlag = None\<rparr>"
  let ?ops = "[WarmOp [?b], DialStatusOp ?b, SpawnedDialOp, SpawnedPutOp 0]"
  let ?h0 = "\<lparr>the_dialer = NewNetDialer (Some (NewPool \<lparr>MaxIdlePerBackend = 1, IdleTimeout = 10\<rparr>)) (\<lambda>_. None) (\<lambda>_. 7), callers = []\<rparr>"
  let ?p = "\<lparr>pool_options = \<lparr>MaxIdlePerBackend = 1, IdleTimeout = 10\<rparr>,
    idle = [(''10.0.0.1:25565'', [\<lparr>pc_conn = (''10.0.0.1:25565'', 1), addedAt = 7\<rparr>])], pool_closed = False, closed_conns = []\<rparr>"
  have run: "d_pool (the_dialer (run dialer_step ?ops ?h0)) = Some ?p"
    "callers (run dialer_step ?ops ?h0) = [(''10.0.0.1:25565'', (''10.0.0.1:25565'', 0))]"
    by (simp_all add: Warm_def Refill_def refill_dial_def refill_put_def d_now_def tick_def dialFresh_def Let_def
        NewNetDialer_def NewPool_def NeedsConn_eq Put_def idle_of_def mark_closed_def hand_out_def
        NetDialer_DialStatus_def Pool_Get_single usable_def spawned_dial_def spawned_put_def map_set_def map_get_def)
  from dialer_keeps_connections_apart [OF refl run(1)] run show ?thesis
    unfolding Let_def by (simp add: idle_conns_def map_values_def)
qed

end
