(* ===== verification/GoTime.thy ===== *)
theory GoTime
  imports GoText
begin

text \<open>
  \<^verbatim>\<open>time.ParseDuration\<close>, with which the configuration reads its durations: an optional sign and
  a sequence of decimal numbers with units.  The digits behind a decimal point are scaled by
  the unit in floating point; \<open>scaled f scale unit\<close>, the whole nanoseconds of that product, is an
  argument.
\<close>

section \<open>Definitions\<close>

definition digit_value :: "char \<Rightarrow> nat" where
  "digit_value c = code c - 48"

text \<open>\<^verbatim>\<open>leadingInt\<close>: \<open>None\<close> where the number leaves the range of a duration.\<close>

fun leadingInt :: "nat \<Rightarrow> string \<Rightarrow> (nat \<times> string) option" where
  "leadingInt x [] = Some (x, [])"
| "leadingInt x (c # s) =
     (if \<not> is_digit c then Some (x, c # s)
      else if x > 2 ^ 63 div 10 then None
      else (let x = x * 10 + digit_value c in if x > 2 ^ 63 then None else leadingInt x s))"

text \<open>\<^verbatim>\<open>leadingFraction\<close>: digits that no longer fit are skipped.\<close>

fun leadingFraction :: "nat \<Rightarrow> nat \<Rightarrow> bool \<Rightarrow> string \<Rightarrow> nat \<times> nat \<times> string" where
  "leadingFraction x scale overflow [] = (x, scale, [])"
| "leadingFraction x scale overflow (c # s) =
     (if \<not> is_digit c then (x, scale, c # s)
      else if overflow \<or> x > (2 ^ 63 - 1) div 10 then leadingFraction x scale True s
      else (let y = x * 10 + digit_value c in
            if y > 2 ^ 63 then leadingFraction x scale True s else leadingFraction y (scale * 10) False s))"

definition unitMap :: "string \<Rightarrow> nat option" where
  "unitMap u =
     map_of [(''ns'', 1), (''us'', 1000), ([CHR 0xC2, CHR 0xB5, CHR ''s''], 1000),
       ([CHR 0xCE, CHR 0xBC, CHR ''s''], 1000), (''ms'', 1000000), (''s'', 1000000000),
       (''m'', 60000000000), (''h'', 3600000000000)] u"

definition invalidDuration :: "string \<Rightarrow> go_error" where
  "invalidDuration s = Errorf (''time: invalid duration '' @ strconv_Quote s)"

definition unit_char :: "char \<Rightarrow> bool" where
  "unit_char c \<longleftrightarrow> c \<noteq> CHR ''.'' \<and> \<not> is_digit c"

text \<open>One number with its unit: the nanoseconds and the text behind it.\<close>

definition duration_part ::
  "(nat \<Rightarrow> nat \<Rightarrow> nat \<Rightarrow> nat) \<Rightarrow> string \<Rightarrow> string \<Rightarrow> go_error + nat \<times> string" where
  "duration_part scaled orig s =
     (if \<not> (hd s = CHR ''.'' \<or> is_digit (hd s)) then Inl (invalidDuration orig)
      else case leadingInt 0 s of
        None \<Rightarrow> Inl (invalidDuration orig)
      | Some (v, s1) \<Rightarrow>
          (let pre = (length s1 \<noteq> length s);
               (f, scale, s2, post) =
                 (if s1 \<noteq> [] \<and> hd s1 = CHR ''.''
                  then (let (f, scale, s2) = leadingFraction 0 1 False (tl s1) in (f, scale, s2, length s2 \<noteq> length (tl s1)))
                  else (0, 1, s1, False))
           in if \<not> pre \<and> \<not> post then Inl (invalidDuration orig)
              else (let u = takeWhile unit_char s2; s3 = dropWhile unit_char s2 in
                if u = [] then Inl (Errorf (''time: missing unit in duration '' @ strconv_Quote orig))
                else case unitMap u of
                  None \<Rightarrow> Inl (Errorf (''time: unknown unit '' @ strconv_Quote u @ '' in duration '' @ strconv_Quote orig))
                | Some unit \<Rightarrow>
                    if v > 2 ^ 63 div unit then Inl (invalidDuration orig)
                    else (let v = v * unit; v = (if f > 0 then v + scaled f scale unit else v)
                          in if f > 0 \<and> v > 2 ^ 63 then Inl (invalidDuration orig) else Inr (v, s3)))))"

text \<open>
  The loop over the parts, summed in a \<^verbatim>\<open>uint64\<close>; \<open>fuel\<close> is the length of the text, of which every
  part takes a byte.
\<close>

fun duration_parts ::
  "nat \<Rightarrow> (nat \<Rightarrow> nat \<Rightarrow> nat \<Rightarrow> nat) \<Rightarrow> string \<Rightarrow> nat \<Rightarrow> string \<Rightarrow> go_error + nat" where
  "duration_parts fuel scaled orig d s =
     (if s = [] then Inr d
      else case fuel of
        0 \<Rightarrow> Inl (invalidDuration orig)
      | Suc fuel \<Rightarrow>
          (case duration_part scaled orig s of
             Inl err \<Rightarrow> Inl err
           | Inr (v, s) \<Rightarrow>
               (let d = (d + v) mod 2 ^ 64 in
                if d > 2 ^ 63 then Inl (invalidDuration orig) else duration_parts fuel scaled orig d s)))"

declare duration_parts.simps [simp del]

definition ParseDuration :: "(nat \<Rightarrow> nat \<Rightarrow> nat \<Rightarrow> nat) \<Rightarrow> string \<Rightarrow> go_error + Duration" where
  "ParseDuration scaled orig =
     (let (neg, s) = (if orig \<noteq> [] \<and> (hd orig = CHR ''-'' \<or> hd orig = CHR ''+'')
                      then (hd orig = CHR ''-'', tl orig) else (False, orig)) in
      if s = ''0'' then Inr 0
      else if s = '''' then Inl (invalidDuration orig)
      else case duration_parts (length s) scaled orig 0 s of
        Inl err \<Rightarrow> Inl err
      | Inr d \<Rightarrow>
          if neg then Inr (- int d)
          else if d > 2 ^ 63 - 1 then Inl (invalidDuration orig)
          else Inr (int d))"

section \<open>Lemmas\<close>

lemma leadingInt_digits:
  assumes "list_all is_digit ds" "rest = [] \<or> \<not> is_digit (hd rest)"
    and "foldl (\<lambda>n c. 10 * n + digit_value c) x ds \<le> 2 ^ 63"
  shows "leadingInt x (ds @ rest) = Some (foldl (\<lambda>n c. 10 * n + digit_value c) x ds, rest)"
  using assms
proof (induction ds arbitrary: x)
  case Nil
  then show ?case by (cases rest) simp_all
next
  case (Cons c ds)
  have grows: "y \<le> foldl (\<lambda>n c. 10 * n + digit_value c) y ds" for y
  proof (induction ds arbitrary: y)
    case (Cons c ds)
    have "y \<le> 10 * y + digit_value c" by simp
    also have "\<dots> \<le> foldl (\<lambda>n c. 10 * n + digit_value c) (10 * y + digit_value c) ds" by (rule Cons.IH)
    finally show ?case by simp
  qed simp
  have "10 * x + digit_value c \<le> 2 ^ 63" using grows [of "10 * x + digit_value c"] Cons.prems(3) by simp
  with Cons show ?case by (simp add: Let_def mult.commute)
qed

lemma leadingInt_show_nat:
  assumes "n \<le> 2 ^ 63" "rest = [] \<or> \<not> is_digit (hd rest)"
  shows "leadingInt 0 (show_nat n @ rest) = Some (n, rest)"
proof -
  have "foldl (\<lambda>n c. 10 * n + digit_value c) 0 (show_nat n) = n"
    using read_show_nat [of n] by (simp add: read_nat_def digit_value_def)
  with leadingInt_digits [of "show_nat n" rest 0] assms show ?thesis
    by (simp add: list_all_iff show_nat_digits)
qed

lemma duration_part_length:
  "duration_part scaled orig s = Inr (v, t) \<Longrightarrow> s \<noteq> [] \<Longrightarrow> length t < length s"
proof -
  assume part: "duration_part scaled orig s = Inr (v, t)" and "s \<noteq> []"
  have int: "leadingInt x s = Some (n, t) \<Longrightarrow> length t \<le> length s" for x s n t
    by (induction x s rule: leadingInt.induct) (auto simp: Let_def split: if_splits intro: le_SucI)
  have frac: "leadingFraction x sc ov s = (f, sc', t) \<Longrightarrow> length t \<le> length s" for x sc ov s f sc' t
    by (induction x sc ov s rule: leadingFraction.induct) (auto simp: Let_def split: if_splits intro: le_SucI)
  obtain n s1 where s1: "leadingInt 0 s = Some (n, s1)" "length s1 \<le> length s"
    using part by (auto simp: duration_part_def split: if_splits option.splits dest: int)
  obtain s2 where s2: "length s2 \<le> length s1" "takeWhile unit_char s2 \<noteq> []" "t = dropWhile unit_char s2"
  proof (cases "s1 \<noteq> [] \<and> hd s1 = CHR ''.''")
    case True
    obtain f sc s2 where fr: "leadingFraction 0 1 False (tl s1) = (f, sc, s2)" by (cases "leadingFraction 0 1 False (tl s1)")
    have "length s2 \<le> length s1" using frac [OF fr] by simp
    then show thesis
      using part s1 True fr that [of s2] by (auto simp: duration_part_def Let_def split: if_splits option.splits)
  next
    case False
    then show thesis
      using part s1 that [of s1] by (auto simp: duration_part_def Let_def split: if_splits option.splits)
  qed
  have "length (takeWhile unit_char s2) + length (dropWhile unit_char s2) = length s2"
    by (metis length_append takeWhile_dropWhile_id)
  with s2 s1 show ?thesis by (cases "takeWhile unit_char s2") simp_all
qed

text \<open>Any fuel from the length of the text on gives the same result.\<close>

lemma duration_parts_fuel:
  "length s \<le> n \<Longrightarrow> length s \<le> m \<Longrightarrow> duration_parts n scaled orig d s = duration_parts m scaled orig d s"
proof (induction n arbitrary: m d s)
  case 0
  then show ?case by (simp add: duration_parts.simps)
next
  case (Suc n)
  show ?case
  proof (cases "s = []")
    case False
    with Suc.prems obtain m' where m: "m = Suc m'" by (cases m) auto
    show ?thesis
    proof (cases "duration_part scaled orig s")
      case (Inr r)
      obtain v t where r: "r = (v, t)" by fastforce
      have "length t < length s" using duration_part_length Inr r False by blast
      then have "duration_parts n scaled orig ((d + v) mod 2 ^ 64) t = duration_parts m' scaled orig ((d + v) mod 2 ^ 64) t"
        using Suc.prems m by (intro Suc.IH) simp_all
      with m False Inr r show ?thesis
        by (simp add: duration_parts.simps [of "Suc n"] duration_parts.simps [of "Suc m'"] Let_def)
    qed (simp add: m False duration_parts.simps)
  qed (simp add: duration_parts.simps)
qed

text \<open>A whole number of units, as durations are written in configurations, is read as that many.\<close>

lemma ParseDuration_whole:
  assumes "unitMap u = Some unit" "list_all unit_char u" "u \<noteq> []" "0 < unit" "n * unit < 2 ^ 63" "unit \<le> 2 ^ 63"
  shows "ParseDuration scaled (show_nat n @ u) = Inr (int (n * unit))"
proof -
  have "n \<le> (2 ^ 63) div unit" using assms(4,5) by (simp add: less_eq_div_iff_mult_less_eq)
  moreover have "n \<le> n * unit" using assms(4) by simp
  ultimately have n: "n \<le> (2 ^ 63) div unit" "n \<le> 2 ^ 63" using assms(5) by (simp, linarith)
  have hd_u: "\<not> is_digit (hd u)" "hd u \<noteq> CHR ''.''"
    using assms(2,3) by (cases u; auto simp: unit_char_def)+
  have hd_n: "is_digit (hd (show_nat n))" using show_nat_digits [of "hd (show_nat n)" n] by simp
  then have sign: "hd (show_nat n) \<noteq> CHR ''-''" "hd (show_nat n) \<noteq> CHR ''+''" by (auto simp: is_digit_def)
  have not_zero: "show_nat n @ u \<noteq> ''0''"
  proof
    assume "show_nat n @ u = ''0''"
    then have "length (show_nat n) + length u = 1" by (metis length_append length_Cons list.size(3) One_nat_def)
    moreover have "length (show_nat n) \<noteq> 0" "length u \<noteq> 0" using assms(3) by simp_all
    ultimately show False by linarith
  qed
  have u: "takeWhile unit_char u = u" "dropWhile unit_char u = []"
    using assms(2) by (simp_all add: takeWhile_eq_all_conv dropWhile_eq_Nil_conv list_all_iff)
  have part: "duration_part scaled orig (show_nat n @ u) = Inr (n * unit, [])" for orig
    using assms(1,3,4) n hd_u hd_n u leadingInt_show_nat [of n u] by (simp add: duration_part_def Let_def del: takeWhile_eq_all_conv dropWhile_eq_Nil_conv)
  obtain k where k: "length (show_nat n @ u) = Suc k" using assms(3) by (cases "length (show_nat n @ u)") simp_all
  have "duration_parts (Suc k) scaled (show_nat n @ u) 0 (show_nat n @ u) = Inr (n * unit)"
    using assms(3,5) by (simp add: duration_parts.simps [of "Suc k"] duration_parts.simps [of k] part Let_def)
  then show ?thesis
    using sign not_zero assms(3,5) k by (simp add: ParseDuration_def Let_def)
qed

end
