(* ===== verification/Config.thy ===== *)
theory Config
  imports Router GoTime
begin

text \<open>
  \<^verbatim>\<open>internal/config\<close>: the configuration, its defaults, its validation and what the other
  components take from it.  The YAML decoder is third-party code and the file system is outside the
  program, so that both are arguments of \<open>LoadFile\<close>; how a duration is read from a decoded scalar is
  the program's own and is modelled.  The fields carry a prefix that names their section.
\<close>

section \<open>The configuration\<close>

record Timeouts =
  to_Handshake :: Duration
  to_BackendDial :: Duration
  to_Idle :: Duration
  to_Shutdown :: Duration

record StatusCacheConfig =
  sc_Enabled :: bool
  sc_TTL :: Duration

record MOTDCacheConfig =
  mc_Enabled :: bool
  mc_FallbackTTL :: Duration

record StatusFallbackConfig =
  sf_VersionName :: string
  sf_PlayersMax :: int

record BackendHealth =
  bh_Enabled :: bool
  bh_Interval :: Duration
  bh_Timeout :: Duration
  bh_FailureThreshold :: int
  bh_SuccessThreshold :: int
  bh_ProbeProtocol :: int32
  bh_ProbeHost :: string
  bh_CircuitBreakerTTL :: Duration
  bh_StatusFallbackWhenUnhealthy :: bool

record Fail2BanConfig =
  fc_Enabled :: bool
  fc_MaxFailures :: int
  fc_Window :: Duration
  fc_BanDuration :: Duration
  fc_EarlyDisconnect :: Duration

record ManagementConfig =
  mg_Enabled :: bool
  mg_Address :: string

record PoolConfig =
  pl_Enabled :: bool
  pl_MaxIdlePerBackend :: int
  pl_IdleTimeout :: Duration

record RouteConfig =
  rc_Hosts :: "string list"
  rc_Backend :: string
  rc_StatusCache :: "bool option"

record LoggingFileConfig =
  lf_Path :: string
  lf_MaxSizeMB :: int
  lf_MaxBackups :: int
  lf_MaxAgeDays :: int
  lf_Compress :: bool

record LoggingConfig =
  lg_Level :: string
  lg_Format :: string
  lg_Output :: string
  lg_File :: LoggingFileConfig
  lg_AddSource :: bool

record Config =
  cfg_Listen :: string
  cfg_Timeouts :: Timeouts
  cfg_StatusCache :: StatusCacheConfig
  cfg_MOTDCache :: MOTDCacheConfig
  cfg_StatusFallback :: StatusFallbackConfig
  cfg_BackendHealth :: BackendHealth
  cfg_Fail2Ban :: Fail2BanConfig
  cfg_Management :: ManagementConfig
  cfg_Pool :: PoolConfig
  cfg_Routes :: "RouteConfig list"
  cfg_DefaultBackend :: string
  cfg_Logging :: LoggingConfig
  cfg_MaxHandshakeSize :: int
  cfg_MaxStatusResponseSize :: int

section \<open>Durations\<close>

text \<open>
  A scalar as the YAML decoder hands it over, or its error; \<open>scaled\<close> is the argument of
  \<open>ParseDuration\<close>.
\<close>

datatype yaml_scalar = YString string | YInt int | YInt64 int | YOther string

definition UnmarshalYAML :: "(nat \<Rightarrow> nat \<Rightarrow> nat \<Rightarrow> nat) \<Rightarrow> go_error + yaml_scalar \<Rightarrow> go_error + Duration" where
  "UnmarshalYAML scaled raw =
     (case raw of
        Inl err \<Rightarrow> Inl err
      | Inr v \<Rightarrow>
          (case v of
             YString s \<Rightarrow> (case ParseDuration scaled s of Inl err \<Rightarrow> Inl err | Inr parsed \<Rightarrow> Inr parsed)
           | YInt n \<Rightarrow> Inr n
           | YInt64 n \<Rightarrow> Inr n
           | YOther type_name \<Rightarrow> Inl (Errorf (''unsupported duration value '' @ type_name))))"

section \<open>Defaults\<close>

definition defaultMaxHandshakeSize :: int where "defaultMaxHandshakeSize = 64 * 1024"
definition defaultMaxStatusResponseSize :: int where "defaultMaxStatusResponseSize = 256 * 1024"

definition Default :: Config where
  "Default =
     \<lparr>cfg_Listen = '':25565'',
      cfg_Timeouts = \<lparr>to_Handshake = 3 * Second, to_BackendDial = 3 * Second, to_Idle = 10 * Minute,
        to_Shutdown = 10 * Second\<rparr>,
      cfg_StatusCache = \<lparr>sc_Enabled = True, sc_TTL = 5 * Second\<rparr>,
      cfg_MOTDCache = \<lparr>mc_Enabled = True, mc_FallbackTTL = 5 * Minute\<rparr>,
      cfg_StatusFallback = \<lparr>sf_VersionName = ''ciallo fallback'', sf_PlayersMax = 0\<rparr>,
      cfg_BackendHealth = \<lparr>bh_Enabled = True, bh_Interval = 10 * Second, bh_Timeout = 3 * Second,
        bh_FailureThreshold = 2, bh_SuccessThreshold = 1, bh_ProbeProtocol = 772, bh_ProbeHost = '''',
        bh_CircuitBreakerTTL = 30 * Second, bh_StatusFallbackWhenUnhealthy = True\<rparr>,
      cfg_Fail2Ban = \<lparr>fc_Enabled = False, fc_MaxFailures = 5, fc_Window = Minute,
        fc_BanDuration = 10 * Minute, fc_EarlyDisconnect = 5 * Second\<rparr>,
      cfg_Management = \<lparr>mg_Enabled = False, mg_Address = ''127.0.0.1:25575''\<rparr>,
      cfg_Pool = \<lparr>pl_Enabled = False, pl_MaxIdlePerBackend = 8, pl_IdleTimeout = 30 * Second\<rparr>,
      cfg_Routes = [], cfg_DefaultBackend = '''',
      cfg_Logging = \<lparr>lg_Level = ''info'', lg_Format = ''text'', lg_Output = ''stdout'',
        lg_File = \<lparr>lf_Path = '''', lf_MaxSizeMB = 100, lf_MaxBackups = 7, lf_MaxAgeDays = 14, lf_Compress = True\<rparr>,
        lg_AddSource = False\<rparr>,
      cfg_MaxHandshakeSize = defaultMaxHandshakeSize,
      cfg_MaxStatusResponseSize = defaultMaxStatusResponseSize\<rparr>"

text \<open>A value that was left at its zero takes the default.\<close>

definition or_default :: "'a::zero \<Rightarrow> 'a \<Rightarrow> 'a" where
  "or_default v d = (if v = 0 then d else v)"

definition or_default_text :: "string \<Rightarrow> string \<Rightarrow> string" where
  "or_default_text v d = (if v = '''' then d else v)"

definition default_Timeouts :: "Timeouts \<Rightarrow> Timeouts" where
  "default_Timeouts t =
     (let d = cfg_Timeouts Default in
      t\<lparr>to_Handshake := or_default (to_Handshake t) (to_Handshake d),
        to_BackendDial := or_default (to_BackendDial t) (to_BackendDial d),
        to_Idle := or_default (to_Idle t) (to_Idle d),
        to_Shutdown := or_default (to_Shutdown t) (to_Shutdown d)\<rparr>)"

definition default_BackendHealth :: "BackendHealth \<Rightarrow> BackendHealth" where
  "default_BackendHealth h =
     (let d = cfg_BackendHealth Default in
      h\<lparr>bh_Interval := or_default (bh_Interval h) (bh_Interval d),
        bh_Timeout := or_default (bh_Timeout h) (bh_Timeout d),
        bh_FailureThreshold := or_default (bh_FailureThreshold h) (bh_FailureThreshold d),
        bh_SuccessThreshold := or_default (bh_SuccessThreshold h) (bh_SuccessThreshold d),
        bh_ProbeProtocol := or_default (bh_ProbeProtocol h) (bh_ProbeProtocol d),
        bh_CircuitBreakerTTL := or_default (bh_CircuitBreakerTTL h) (bh_CircuitBreakerTTL d)\<rparr>)"

definition default_Fail2Ban :: "Fail2BanConfig \<Rightarrow> Fail2BanConfig" where
  "default_Fail2Ban f =
     (let d = cfg_Fail2Ban Default in
      f\<lparr>fc_MaxFailures := or_default (fc_MaxFailures f) (fc_MaxFailures d),
        fc_Window := or_default (fc_Window f) (fc_Window d),
        fc_BanDuration := or_default (fc_BanDuration f) (fc_BanDuration d),
        fc_EarlyDisconnect := or_default (fc_EarlyDisconnect f) (fc_EarlyDisconnect d)\<rparr>)"

definition default_Pool :: "PoolConfig \<Rightarrow> PoolConfig" where
  "default_Pool p =
     (let d = cfg_Pool Default in
      p\<lparr>pl_MaxIdlePerBackend := or_default (pl_MaxIdlePerBackend p) (pl_MaxIdlePerBackend d),
        pl_IdleTimeout := or_default (pl_IdleTimeout p) (pl_IdleTimeout d)\<rparr>)"

definition default_LoggingFile :: "LoggingFileConfig \<Rightarrow> LoggingFileConfig" where
  "default_LoggingFile f =
     (let d = lg_File (cfg_Logging Default) in
      f\<lparr>lf_MaxSizeMB := or_default (lf_MaxSizeMB f) (lf_MaxSizeMB d),
        lf_MaxBackups := or_default (lf_MaxBackups f) (lf_MaxBackups d),
        lf_MaxAgeDays := or_default (lf_MaxAgeDays f) (lf_MaxAgeDays d)\<rparr>)"

definition default_Logging :: "LoggingConfig \<Rightarrow> LoggingConfig" where
  "default_Logging l =
     (let d = cfg_Logging Default in
      l\<lparr>lg_Level := or_default_text (lg_Level l) (lg_Level d),
        lg_Format := or_default_text (lg_Format l) (lg_Format d),
        lg_Output := or_default_text (lg_Output l) (lg_Output d),
        lg_File := default_LoggingFile (lg_File l)\<rparr>)"

definition ApplyDefaults :: "Config \<Rightarrow> Config" where
  "ApplyDefaults c =
     (let d = Default in
      c\<lparr>cfg_Listen := or_default_text (cfg_Listen c) (cfg_Listen d),
        cfg_Timeouts := default_Timeouts (cfg_Timeouts c),
        cfg_StatusCache := (cfg_StatusCache c)\<lparr>sc_TTL := or_default (sc_TTL (cfg_StatusCache c)) (sc_TTL (cfg_StatusCache d))\<rparr>,
        cfg_MOTDCache := (cfg_MOTDCache c)
          \<lparr>mc_FallbackTTL := or_default (mc_FallbackTTL (cfg_MOTDCache c)) (mc_FallbackTTL (cfg_MOTDCache d))\<rparr>,
        cfg_StatusFallback := (cfg_StatusFallback c)
          \<lparr>sf_VersionName := or_default_text (sf_VersionName (cfg_StatusFallback c)) (sf_VersionName (cfg_StatusFallback d))\<rparr>,
        cfg_BackendHealth := default_BackendHealth (cfg_BackendHealth c),
        cfg_Fail2Ban := default_Fail2Ban (cfg_Fail2Ban c),
        cfg_Management := (cfg_Management c)
          \<lparr>mg_Address := or_default_text (mg_Address (cfg_Management c)) (mg_Address (cfg_Management d))\<rparr>,
        cfg_Pool := default_Pool (cfg_Pool c),
        cfg_Logging := default_Logging (cfg_Logging c),
        cfg_MaxHandshakeSize := or_default (cfg_MaxHandshakeSize c) (cfg_MaxHandshakeSize d),
        cfg_MaxStatusResponseSize := or_default (cfg_MaxStatusResponseSize c) (cfg_MaxStatusResponseSize d)\<rparr>)"


section \<open>Validation\<close>

definition validateAddr :: "string \<Rightarrow> go_error option" where
  "validateAddr addr =
     (case SplitHostPort addr of
        Inl err \<Rightarrow> Some err
      | Inr (host, port) \<Rightarrow>
          if TrimSpace host = '''' then Some (Errorf ''host is empty'')
          else if TrimSpace port = '''' then Some (Errorf ''port is empty'')
          else None)"

definition validateBackendHealth :: "BackendHealth \<Rightarrow> go_error option" where
  "validateBackendHealth health =
     (if bh_Interval health \<le> 0 then Some (Errorf ''interval must be positive'')
      else if bh_Timeout health \<le> 0 then Some (Errorf ''timeout must be positive'')
      else if bh_FailureThreshold health \<le> 0 then Some (Errorf ''failure_threshold must be positive'')
      else if bh_SuccessThreshold health \<le> 0 then Some (Errorf ''success_threshold must be positive'')
      else if sint (bh_ProbeProtocol health) \<le> 0 then Some (Errorf ''probe_protocol must be positive'')
      else if bh_CircuitBreakerTTL health \<le> 0 then Some (Errorf ''circuit_breaker_ttl must be positive'')
      else None)"

definition lowered :: "string \<Rightarrow> string" where
  "lowered s = ToLower (TrimSpace s)"

definition validateLogging :: "LoggingConfig \<Rightarrow> go_error option" where
  "validateLogging logging =
     (if lowered (lg_Level logging) \<notin> {''debug'', ''info'', ''warn'', ''warning'', ''error''}
      then Some (Errorf (''invalid level '' @ strconv_Quote (lg_Level logging)))
      else if lowered (lg_Format logging) \<notin> {''text'', ''json''}
      then Some (Errorf (''invalid format '' @ strconv_Quote (lg_Format logging)))
      else if lowered (lg_Output logging) \<notin> {''stdout'', ''stderr'', ''file''}
      then Some (Errorf (''invalid output '' @ strconv_Quote (lg_Output logging)))
      else if lowered (lg_Output logging) = ''file'' \<and> TrimSpace (lf_Path (lg_File logging)) = ''''
      then Some (Errorf ''file.path is required when output is file'')
      else if lf_MaxSizeMB (lg_File logging) \<le> 0 then Some (Errorf ''file.max_size_mb must be positive'')
      else if lf_MaxBackups (lg_File logging) < 0 then Some (Errorf ''file.max_backups cannot be negative'')
      else if lf_MaxAgeDays (lg_File logging) < 0 then Some (Errorf ''file.max_age_days cannot be negative'')
      else None)"

text \<open>The inner loop of \<^verbatim>\<open>Validate\<close>: the hosts of the route with index \<open>i\<close>, after the hosts \<open>seen\<close>.\<close>

fun validate_hosts :: "nat \<Rightarrow> string list \<Rightarrow> string set \<Rightarrow> go_error + string set" where
  "validate_hosts i [] seen = Inr seen"
| "validate_hosts i (host # hosts) seen =
     (let normalized = NormalizeHost host in
      if normalized = '''' then Inl (Errorf (''routes['' @ show_nat i @ ''].hosts contains an empty host''))
      else if normalized \<in> seen then Inl (Errorf (''duplicate route host '' @ strconv_Quote normalized))
      else validate_hosts i hosts (insert normalized seen))"

fun validate_routes :: "nat \<Rightarrow> RouteConfig list \<Rightarrow> string set \<Rightarrow> go_error option" where
  "validate_routes i [] seen = None"
| "validate_routes i (route # rs) seen =
     (if rc_Backend route = '''' then Some (Errorf (''routes['' @ show_nat i @ ''].backend is required''))
      else case validateAddr (rc_Backend route) of
        Some err \<Rightarrow> Some (Wrapf (''routes['' @ show_nat i @ ''].backend'') err)
      | None \<Rightarrow>
          (case validate_hosts i (rc_Hosts route) seen of
             Inl err \<Rightarrow> Some err
           | Inr seen \<Rightarrow> validate_routes (i + 1) rs seen))"

definition wrapped :: "string \<Rightarrow> go_error option \<Rightarrow> go_error option" where
  "wrapped p err = map_option (Wrapf p) err"

text \<open>The first of several checks that fails.\<close>

primrec first_error :: "go_error option list \<Rightarrow> go_error option" where
  "first_error [] = None"
| "first_error (e # es) = (case e of Some err \<Rightarrow> Some err | None \<Rightarrow> first_error es)"

definition require :: "bool \<Rightarrow> string \<Rightarrow> go_error option" where
  "require ok message = (if ok then None else Some (Errorf message))"

definition Validate :: "Config \<Rightarrow> go_error option" where
  "Validate c = first_error
     [require (cfg_Listen c \<noteq> '''') ''listen is required'',
      require (cfg_DefaultBackend c \<noteq> '''' \<or> cfg_Routes c \<noteq> []) ''at least one route or default_backend is required'',
      (if cfg_DefaultBackend c \<noteq> '''' then wrapped ''default_backend'' (validateAddr (cfg_DefaultBackend c)) else None),
      validate_routes 0 (cfg_Routes c) {},
      require (0 < cfg_MaxHandshakeSize c) ''max_handshake_size must be positive'',
      require (0 < cfg_MaxStatusResponseSize c) ''max_status_response_size must be positive'',
      require (0 \<le> sf_PlayersMax (cfg_StatusFallback c)) ''status_fallback.players_max cannot be negative'',
      wrapped ''backend_health'' (validateBackendHealth (cfg_BackendHealth c)),
      wrapped ''logging'' (validateLogging (cfg_Logging c))]"

section \<open>What the other components take\<close>

definition route_of :: "RouteConfig \<Rightarrow> Route" where
  "route_of route =
     \<lparr>Hosts = rc_Hosts route,
      RouteBackend = \<lparr>Name = rc_Backend route, Addr = rc_Backend route, StatusCacheFlag = rc_StatusCache route\<rparr>\<rparr>"

definition RouteBackends :: "Config \<Rightarrow> Route list" where
  "RouteBackends c = map route_of (cfg_Routes c)"

definition DefaultBackendConfig :: "Config \<Rightarrow> Backend option" where
  "DefaultBackendConfig c =
     (if cfg_DefaultBackend c = '''' then None
      else Some \<lparr>Name = cfg_DefaultBackend c, Addr = cfg_DefaultBackend c, StatusCacheFlag = None\<rparr>)"

definition add_backend :: "string set \<times> Backend list \<Rightarrow> Backend \<Rightarrow> string set \<times> Backend list" where
  "add_backend acc backend =
     (let (seen, backends) = acc in
      if Addr backend = '''' then acc
      else if Addr backend \<in> seen then acc
      else (insert (Addr backend) seen, backends @ [backend]))"

definition Backends :: "Config \<Rightarrow> Backend list" where
  "Backends c =
     (let acc = foldl add_backend ({}, []) (map RouteBackend (RouteBackends c));
          acc = (case DefaultBackendConfig c of None \<Rightarrow> acc | Some def \<Rightarrow> add_backend acc def)
      in snd acc)"

section \<open>Loading\<close>

text \<open>
  \<open>read_file\<close> is \<^verbatim>\<open>os.ReadFile\<close>; \<open>unmarshal\<close> is the YAML decoder, which fills in the configuration
  it is given.
\<close>

definition LoadFile ::
  "(string \<Rightarrow> go_error + byte list) \<Rightarrow> (byte list \<Rightarrow> Config \<Rightarrow> go_error + Config) \<Rightarrow> string \<Rightarrow> go_error + Config" where
  "LoadFile read_file unmarshal path =
     (case read_file path of
        Inl err \<Rightarrow> Inl err
      | Inr data \<Rightarrow>
          (case unmarshal data Default of
             Inl err \<Rightarrow> Inl (Wrapf ''parse yaml'' err)
           | Inr cfg \<Rightarrow>
               (let cfg = ApplyDefaults cfg in
                case Validate cfg of Some err \<Rightarrow> Inl err | None \<Rightarrow> Inr cfg)))"


section \<open>What a validated configuration promises\<close>

text \<open>
  The conditions that \<open>Validate\<close> checks one after the other, as one predicate: addresses with a host and a
  port, host names that are all different once normalised, positive sizes and health settings, and
  names of log levels, formats and outputs that are known.
\<close>

definition addr_ok :: "string \<Rightarrow> bool" where
  "addr_ok a \<longleftrightarrow> (case SplitHostPort a of Inl _ \<Rightarrow> False | Inr (h, p) \<Rightarrow> TrimSpace h \<noteq> '''' \<and> TrimSpace p \<noteq> '''')"

definition health_ok :: "BackendHealth \<Rightarrow> bool" where
  "health_ok h \<longleftrightarrow> 0 < bh_Interval h \<and> 0 < bh_Timeout h \<and> 0 < bh_FailureThreshold h \<and> 0 < bh_SuccessThreshold h
     \<and> 0 < sint (bh_ProbeProtocol h) \<and> 0 < bh_CircuitBreakerTTL h"

definition logging_ok :: "LoggingConfig \<Rightarrow> bool" where
  "logging_ok l \<longleftrightarrow> lowered (lg_Level l) \<in> {''debug'', ''info'', ''warn'', ''warning'', ''error''}
     \<and> lowered (lg_Format l) \<in> {''text'', ''json''} \<and> lowered (lg_Output l) \<in> {''stdout'', ''stderr'', ''file''}
     \<and> (lowered (lg_Output l) = ''file'' \<longrightarrow> TrimSpace (lf_Path (lg_File l)) \<noteq> '''')
     \<and> 0 < lf_MaxSizeMB (lg_File l) \<and> 0 \<le> lf_MaxBackups (lg_File l) \<and> 0 \<le> lf_MaxAgeDays (lg_File l)"

definition host_names :: "RouteConfig list \<Rightarrow> string list" where
  "host_names rs = concat (map (\<lambda>r. map NormalizeHost (rc_Hosts r)) rs)"

definition routes_ok :: "RouteConfig list \<Rightarrow> bool" where
  "routes_ok rs \<longleftrightarrow> list_all (\<lambda>r. addr_ok (rc_Backend r)) rs \<and> '''' \<notin> set (host_names rs) \<and> distinct (host_names rs)"

definition config_ok :: "Config \<Rightarrow> bool" where
  "config_ok c \<longleftrightarrow> cfg_Listen c \<noteq> '''' \<and> (cfg_DefaultBackend c \<noteq> '''' \<or> cfg_Routes c \<noteq> [])
     \<and> (cfg_DefaultBackend c \<noteq> '''' \<longrightarrow> addr_ok (cfg_DefaultBackend c)) \<and> routes_ok (cfg_Routes c)
     \<and> 0 < cfg_MaxHandshakeSize c \<and> 0 < cfg_MaxStatusResponseSize c \<and> 0 \<le> sf_PlayersMax (cfg_StatusFallback c)
     \<and> health_ok (cfg_BackendHealth c) \<and> logging_ok (cfg_Logging c)"

lemma addr_ok_Nil [simp]: "\<not> addr_ok ''''"
  by (simp add: addr_ok_def SplitHostPort_no_colon)

lemma validateAddr_None [simp]: "validateAddr a = None \<longleftrightarrow> addr_ok a"
  by (cases "SplitHostPort a") (auto simp: validateAddr_def addr_ok_def split: if_splits)

lemma validateBackendHealth_None [simp]: "validateBackendHealth h = None \<longleftrightarrow> health_ok h"
  by (auto simp: validateBackendHealth_def health_ok_def)

lemma validateLogging_None [simp]: "validateLogging l = None \<longleftrightarrow> logging_ok l"
  by (simp add: validateLogging_def logging_ok_def)

lemma validate_hosts_Inr:
  "validate_hosts i hosts seen = Inr seen' \<longleftrightarrow>
     (let names = map NormalizeHost hosts in
      '''' \<notin> set names \<and> distinct names \<and> set names \<inter> seen = {} \<and> seen' = seen \<union> set names)"
  by (induction i hosts seen rule: validate_hosts.induct) (auto simp: Let_def)

lemma host_names_Cons: "host_names (r # rs) = map NormalizeHost (rc_Hosts r) @ host_names rs"
  by (simp add: host_names_def)

lemma validate_routes_None:
  "validate_routes i rs seen = None \<longleftrightarrow> routes_ok rs \<and> set (host_names rs) \<inter> seen = {}"
proof (induction i rs seen rule: validate_routes.induct)
  case (2 i route rs seen)
  let ?names = "map NormalizeHost (rc_Hosts route)"
  have split: "routes_ok (route # rs) \<and> set (host_names (route # rs)) \<inter> seen = {} \<longleftrightarrow>
      addr_ok (rc_Backend route) \<and> ('''' \<notin> set ?names \<and> distinct ?names \<and> set ?names \<inter> seen = {})
      \<and> routes_ok rs \<and> set (host_names rs) \<inter> (seen \<union> set ?names) = {}"
    unfolding routes_ok_def host_names_Cons by (auto simp del: set_map)
  show ?case
  proof (cases "addr_ok (rc_Backend route)")
    case False
    with split show ?thesis by (auto split: option.splits)
  next
    case True
    then have addr: "rc_Backend route \<noteq> ''''" "validateAddr (rc_Backend route) = None" by auto
    show ?thesis
    proof (cases "validate_hosts i (rc_Hosts route) seen")
      case (Inl err)
      have "\<not> ('''' \<notin> set ?names \<and> distinct ?names \<and> set ?names \<inter> seen = {})"
        using validate_hosts_Inr [of i "rc_Hosts route" seen "seen \<union> set ?names"] Inl by (simp add: Let_def)
      with addr Inl True split show ?thesis by (auto simp del: validateAddr_None set_map)
    next
      case (Inr seen')
      then have "'''' \<notin> set ?names \<and> distinct ?names \<and> set ?names \<inter> seen = {}" "seen' = seen \<union> set ?names"
        using validate_hosts_Inr [of i "rc_Hosts route" seen seen'] by (simp_all add: Let_def)
      with 2 [OF addr Inr] addr True Inr split show ?thesis by (simp del: validateAddr_None)
    qed
  qed
qed (simp add: routes_ok_def host_names_def)

lemma first_error_None: "first_error es = None \<longleftrightarrow> list_all (\<lambda>e. e = None) es"
  by (induction es) (auto split: option.splits)


lemma Validate_None: "Validate c = None \<longleftrightarrow> config_ok c"
  unfolding Validate_def first_error_None
  by (auto simp: require_def wrapped_def validate_routes_None config_ok_def split: if_splits)

section \<open>What the defaults do\<close>

lemma or_default_idem [simp]: "or_default (or_default v d) d = or_default v d"
  by (simp add: or_default_def)

lemma or_default_text_idem [simp]: "or_default_text (or_default_text v d) d = or_default_text v d"
  by (simp add: or_default_text_def)

lemmas defaults_defs = ApplyDefaults_def default_Timeouts_def default_BackendHealth_def default_Fail2Ban_def
  default_Pool_def default_Logging_def default_LoggingFile_def Let_def

lemma ApplyDefaults_idem: "ApplyDefaults (ApplyDefaults c) = ApplyDefaults c"
  by (simp add: defaults_defs)

lemma ApplyDefaults_keeps [frame, simp]:
  "cfg_Routes (ApplyDefaults c) = cfg_Routes c" "cfg_DefaultBackend (ApplyDefaults c) = cfg_DefaultBackend c"
  "fc_Enabled (cfg_Fail2Ban (ApplyDefaults c)) = fc_Enabled (cfg_Fail2Ban c)"
  "pl_Enabled (cfg_Pool (ApplyDefaults c)) = pl_Enabled (cfg_Pool c)"
  by (simp_all add: defaults_defs)

text \<open>Settings that no condition of \<open>Validate\<close> covers, but that the defaults keep from being zero.\<close>

definition defaulted :: "Config \<Rightarrow> bool" where
  "defaulted c \<longleftrightarrow> to_Handshake (cfg_Timeouts c) \<noteq> 0 \<and> to_BackendDial (cfg_Timeouts c) \<noteq> 0
     \<and> to_Idle (cfg_Timeouts c) \<noteq> 0 \<and> to_Shutdown (cfg_Timeouts c) \<noteq> 0 \<and> sc_TTL (cfg_StatusCache c) \<noteq> 0
     \<and> mc_FallbackTTL (cfg_MOTDCache c) \<noteq> 0 \<and> sf_VersionName (cfg_StatusFallback c) \<noteq> ''''
     \<and> fc_MaxFailures (cfg_Fail2Ban c) \<noteq> 0 \<and> fc_Window (cfg_Fail2Ban c) \<noteq> 0 \<and> fc_BanDuration (cfg_Fail2Ban c) \<noteq> 0
     \<and> fc_EarlyDisconnect (cfg_Fail2Ban c) \<noteq> 0 \<and> mg_Address (cfg_Management c) \<noteq> ''''
     \<and> pl_MaxIdlePerBackend (cfg_Pool c) \<noteq> 0 \<and> pl_IdleTimeout (cfg_Pool c) \<noteq> 0"

lemma defaulted_ApplyDefaults: "defaulted (ApplyDefaults c)"
  by (simp add: defaulted_def defaults_defs or_default_def or_default_text_def Default_def
      Minute_def Second_def Millisecond_def)

lemma LoadFile_Inr:
  "LoadFile read_file unmarshal path = Inr cfg \<longleftrightarrow>
     (\<exists>data raw. read_file path = Inr data \<and> unmarshal data Default = Inr raw \<and> cfg = ApplyDefaults raw \<and> config_ok cfg)"
  by (auto simp: LoadFile_def Let_def simp flip: Validate_None split: sum.splits option.splits)

text \<open>No condition looks at the timeouts, so that a negative one is accepted too.\<close>

lemma timeouts_unchecked: "Validate (c\<lparr>cfg_Timeouts := t\<rparr>) = None \<longleftrightarrow> Validate c = None"
  by (simp add: Validate_None config_ok_def)

section \<open>Properties\<close>

text \<open>
  C27: A configuration file is accepted exactly when what it says, completed by the defaults, is
  valid: addresses with host and port, different host names, positive limits, known log settings.  An
  accepted configuration keeps its routes, is not changed by applying the defaults again, and leaves
  no duration or limit at zero.
\<close>

theorem load_file_validates:
  "(LoadFile read_file unmarshal path = Inr cfg \<longleftrightarrow>
     (\<exists>data raw. read_file path = Inr data \<and> unmarshal data Default = Inr raw \<and> cfg = ApplyDefaults raw \<and> config_ok cfg))
   \<and> (LoadFile read_file unmarshal path = Inr cfg \<longrightarrow> ApplyDefaults cfg = cfg \<and> defaulted cfg)"
  using LoadFile_Inr [of read_file unmarshal path cfg] ApplyDefaults_idem defaulted_ApplyDefaults by auto

text \<open>A file that only names a default backend, with a port in the client's default range.\<close>

theorem load_file_validates_witness:
  "\<exists>cfg. LoadFile (\<lambda>_. Inr []) (\<lambda>_ c. Inr (c\<lparr>cfg_DefaultBackend := ''127.0.0.1:25566''\<rparr>)) ''config.yaml'' = Inr cfg
     \<and> defaulted cfg"
proof -
  let ?load = "LoadFile (\<lambda>_. Inr []) (\<lambda>_ c. Inr (c\<lparr>cfg_DefaultBackend := ''127.0.0.1:25566''\<rparr>)) ''config.yaml''"
  let ?cfg = "ApplyDefaults (Default\<lparr>cfg_DefaultBackend := ''127.0.0.1:25566''\<rparr>)"
  have "addr_ok ''127.0.0.1:25566''"
    using SplitHostPort_plain [of "''127.0.0.1''" "''25566''"]
    by (simp add: addr_ok_def TrimSpace_none_ascii IsSpace_def)
  moreover have "lowered ''info'' = ''info''" "lowered ''text'' = ''text''" "lowered ''stdout'' = ''stdout''"
    by (simp_all add: lowered_def TrimSpace_none_ascii IsSpace_def ToLower_ascii lower_char_def ascii_lower_def char_of_eq_iff)
  ultimately have "config_ok ?cfg"
    by (simp add: config_ok_def routes_ok_def host_names_def health_ok_def logging_ok_def defaults_defs Default_def
        or_default_def or_default_text_def Minute_def Second_def Millisecond_def
        defaultMaxHandshakeSize_def defaultMaxStatusResponseSize_def)
  then show ?thesis
    using load_file_validates [of "\<lambda>_. Inr []" "\<lambda>_ c. Inr (c\<lparr>cfg_DefaultBackend := ''127.0.0.1:25566''\<rparr>)" "''config.yaml''" ?cfg]
    by auto
qed

end
