(* ===== verification/Logging.thy ===== *)
theory Logging
  imports Config
begin

text \<open>
  \<^verbatim>\<open>internal/logging/logging.go\<close>: from the logging section of the configuration to a logger.  A logger
  is its handler with its options; a log file is the settings of the rotating writer of the third-party
  package, which is not opened before the first line is written.  What is closed on the way is listed.
\<close>

section \<open>Definitions\<close>

text \<open>The levels of \<^verbatim>\<open>log/slog\<close>, with the order of their numbers.\<close>

datatype Level = LevelDebug | LevelInfo | LevelWarn | LevelError

primrec level_number :: "Level \<Rightarrow> int" where
  "level_number LevelDebug = - 4"
| "level_number LevelInfo = 0"
| "level_number LevelWarn = 4"
| "level_number LevelError = 8"

instantiation Level :: linorder
begin

definition less_eq_Level :: "Level \<Rightarrow> Level \<Rightarrow> bool" where
  "less_eq_Level l m \<longleftrightarrow> level_number l \<le> level_number m"

definition less_Level :: "Level \<Rightarrow> Level \<Rightarrow> bool" where
  "less_Level l m \<longleftrightarrow> level_number l < level_number m"

lemma level_number_inj: "level_number l = level_number m \<Longrightarrow> l = m"
  by (cases l; cases m) simp_all

instance
  by standard (auto simp: less_eq_Level_def less_Level_def dest: level_number_inj)

end

datatype Writer = Stdout | Stderr | LogFile LoggingFileConfig

datatype Closer = nopCloser | FileCloser LoggingFileConfig

datatype Handler = JSONHandler Writer Level bool | TextHandler Writer Level bool

definition logging_normalize :: "string \<Rightarrow> string" where
  "logging_normalize v = ToLower (TrimSpace v)"

definition parseLevel :: "string \<Rightarrow> go_error + Level" where
  "parseLevel raw =
     (let s = logging_normalize raw in
      if s = ''debug'' then Inr LevelDebug
      else if s = ''info'' \<or> s = '''' then Inr LevelInfo
      else if s = ''warn'' \<or> s = ''warning'' then Inr LevelWarn
      else if s = ''error'' then Inr LevelError
      else Inl (Errorf (''invalid log level '' @ strconv_Quote raw)))"

definition writer :: "LoggingConfig \<Rightarrow> go_error + Writer \<times> Closer" where
  "writer cfg =
     (let s = logging_normalize (lg_Output cfg) in
      if s = ''stdout'' \<or> s = '''' then Inr (Stdout, nopCloser)
      else if s = ''stderr'' then Inr (Stderr, nopCloser)
      else if s = ''file'' then
        (if TrimSpace (lf_Path (lg_File cfg)) = '''' then Inl (Errorf ''log file path is required'')
         else Inr (LogFile (lg_File cfg), FileCloser (lg_File cfg)))
      else Inl (Errorf (''invalid log output '' @ strconv_Quote (lg_Output cfg))))"

definition NewLogger :: "LoggingConfig \<Rightarrow> (go_error + Handler \<times> Closer) \<times> Closer list" where
  "NewLogger cfg =
     (case parseLevel (lg_Level cfg) of
        Inl err \<Rightarrow> (Inl err, [])
      | Inr level \<Rightarrow>
          (case writer cfg of
             Inl err \<Rightarrow> (Inl err, [])
           | Inr (w, closer) \<Rightarrow>
               (let format = logging_normalize (lg_Format cfg) in
                if format = ''json'' then (Inr (JSONHandler w level (lg_AddSource cfg), closer), [])
                else if format = ''text'' \<or> format = '''' then (Inr (TextHandler w level (lg_AddSource cfg), closer), [])
                else (Inl (Errorf (''invalid log format '' @ strconv_Quote (lg_Format cfg))), [closer]))))"

section \<open>Lemmas\<close>

primrec handler_level :: "Handler \<Rightarrow> Level" where
  "handler_level (JSONHandler w l a) = l"
| "handler_level (TextHandler w l a) = l"

primrec handler_writer :: "Handler \<Rightarrow> Writer" where
  "handler_writer (JSONHandler w l a) = w"
| "handler_writer (TextHandler w l a) = w"

definition level_names :: "Level \<Rightarrow> string set" where
  "level_names l = (case l of
     LevelDebug \<Rightarrow> {''debug''} | LevelInfo \<Rightarrow> {''info'', ''''} | LevelWarn \<Rightarrow> {''warn'', ''warning''} | LevelError \<Rightarrow> {''error''})"

lemma parseLevel_Inr: "parseLevel raw = Inr l \<longleftrightarrow> logging_normalize raw \<in> level_names l"
  by (cases l) (auto simp: parseLevel_def level_names_def Let_def)

lemma writer_Inr:
  "writer cfg = Inr (w, closer) \<longleftrightarrow>
     (case w of
        Stdout \<Rightarrow> logging_normalize (lg_Output cfg) \<in> {''stdout'', ''''} \<and> closer = nopCloser
      | Stderr \<Rightarrow> logging_normalize (lg_Output cfg) = ''stderr'' \<and> closer = nopCloser
      | LogFile f \<Rightarrow> logging_normalize (lg_Output cfg) = ''file'' \<and> f = lg_File cfg \<and> TrimSpace (lf_Path f) \<noteq> ''''
          \<and> closer = FileCloser f)"
  by (cases w) (auto simp: writer_def Let_def)

lemma NewLogger_Inr:
  "fst (NewLogger cfg) = Inr (h, closer) \<longleftrightarrow>
     parseLevel (lg_Level cfg) = Inr (handler_level h) \<and> writer cfg = Inr (handler_writer h, closer)
     \<and> (case h of
          JSONHandler w l a \<Rightarrow> logging_normalize (lg_Format cfg) = ''json'' \<and> a = lg_AddSource cfg
        | TextHandler w l a \<Rightarrow> logging_normalize (lg_Format cfg) \<in> {''text'', ''''} \<and> a = lg_AddSource cfg)"
  by (cases h) (auto simp: NewLogger_def Let_def split: sum.splits)

section \<open>What validation promises\<close>

text \<open>
  Whatever logging section passes validation can be set up: the logger then has the level that is
  named, writes where the configuration says, and nothing was closed.  When it cannot be set up, a
  writer that was already made is closed.
\<close>

lemma valid_logging_starts:
  "(logging_ok cfg \<longrightarrow>
      (\<exists>h closer. NewLogger cfg = (Inr (h, closer), [])
        \<and> lowered (lg_Level cfg) \<in> level_names (handler_level h)
        \<and> (handler_writer h = LogFile (lg_File cfg) \<longleftrightarrow> lowered (lg_Output cfg) = ''file'')))
   \<and> (fst (NewLogger cfg) = Inl err \<longrightarrow>
        snd (NewLogger cfg) = (case (parseLevel (lg_Level cfg), writer cfg) of (Inr _, Inr (_, closer)) \<Rightarrow> [closer] | _ \<Rightarrow> []))"
proof (intro conjI impI)
  assume ok: "logging_ok cfg"
  have same: "lowered = logging_normalize" by (simp add: fun_eq_iff lowered_def logging_normalize_def)
  obtain l where l: "parseLevel (lg_Level cfg) = Inr l"
    using ok by (auto simp: logging_ok_def same parseLevel_def)
  obtain w closer where w: "writer cfg = Inr (w, closer)"
    using ok by (auto simp: logging_ok_def same writer_def)
  obtain h where h: "NewLogger cfg = (Inr (h, closer), [])" "handler_level h = l" "handler_writer h = w"
    using ok l w by (auto simp: logging_ok_def same NewLogger_def Let_def)
  have "w = LogFile (lg_File cfg) \<longleftrightarrow> logging_normalize (lg_Output cfg) = ''file''"
    using w ok by (auto simp: writer_Inr logging_ok_def same split: Writer.splits)
  with h l show "\<exists>h closer. NewLogger cfg = (Inr (h, closer), [])
        \<and> lowered (lg_Level cfg) \<in> level_names (handler_level h)
        \<and> (handler_writer h = LogFile (lg_File cfg) \<longleftrightarrow> lowered (lg_Output cfg) = ''file'')"
    by (auto simp: same parseLevel_Inr)
next
  assume "fst (NewLogger cfg) = Inl err"
  then show "snd (NewLogger cfg) = (case (parseLevel (lg_Level cfg), writer cfg) of (Inr _, Inr (_, closer)) \<Rightarrow> [closer] | _ \<Rightarrow> [])"
    by (auto simp: NewLogger_def Let_def split: sum.splits if_splits)
qed

end
