(* ===== verification/JsonDecode.thy ===== *)
theory JsonDecode
  imports JsonCompact
begin

text \<open>
  What the decoder makes of a text: its values are trees that can be written again, under the limit
  they were read with, and what the encoder writes is read back.
\<close>

section \<open>Decoded values can be written\<close>

lemma elements_raw: "raw \<in> set (elements fuel depth s) \<Longrightarrow> json_skip depth raw = Some []"
proof (induction fuel depth s rule: elements.induct)
  case (2 fuel depth s)
  obtain s1 where s1: "json_skip depth s = Some s1"
    using 2(2) by (cases "json_skip depth s") simp_all
  from 2(2) consider "raw = before s s1"
    | s2 where "skip_ws s1 = CHR '','' # s2" "raw \<in> set (elements fuel depth (skip_ws s2))"
    by (cases "skip_ws s1") (auto simp: s1 split: if_splits)
  then show ?case
  proof cases
    case 1
    then show ?thesis using raw_value [OF s1] by simp
  next
    case 2
    then show ?thesis using "2.IH" [OF s1] by simp
  qed
qed simp

text \<open>The text of a number is a numeral.\<close>

lemma json_skip_numeral:
  assumes "json_skip depth (c # s) = Some []"
    and "c \<notin> {CHR ''{'', CHR ''['', CHR 0x22, CHR ''t'', CHR ''f'', CHR ''n''}"
  shows "numeral_text (c # s)"
proof -
  have num: "skip_number (c # s) = Some []" using assms by (simp add: json_skip_def)
  have "is_digit c \<or> c = CHR ''-''"
  proof (rule ccontr)
    assume "\<not> (is_digit c \<or> c = CHR ''-'')"
    then have "skip_int (c # s) = None" "c \<noteq> CHR ''-''" by (auto simp: skip_int_def skip_digits_def is_digit_def)
    with num show False by (simp add: skip_number_def)
  qed
  with num show ?thesis by (simp add: numeral_text_def)
qed

lemma last_of_each_subset: "m \<in> set (last_of_each ms) \<Longrightarrow> m \<in> set ms"
proof -
  assume "m \<in> set (last_of_each ms)"
  then obtain k where k: "k \<in> fst ` set ms" "m = (k, the (map_of (rev ms) k))" by (auto simp: last_of_each_def)
  then have "map_of (rev ms) k \<noteq> None" by (simp add: map_of_eq_None_iff)
  with k(2) show "m \<in> set ms" using map_of_SomeD [of "rev ms" k] by auto
qed

lemma encodable_members:
  assumes "0 < depth" "\<And>k v. (k, v) \<in> set ms \<Longrightarrow> encodable (depth - 1) (any_encodable number v)"
  shows "encodable depth (any_encodable number (JObject ms))"
  using assms by (auto simp: list_all_iff dest!: last_of_each_subset)

text \<open>What the decoder makes of the text of a value: the parts of an array or object are texts of values again.\<close>

lemma decode_any_cases:
  assumes "json_skip depth s = Some []"
  obtains (obj) ms where "0 < depth" "\<forall>(k, raw) \<in> set ms. json_skip (depth - 1) raw = Some []"
      "decode_any (Suc fuel) depth s = JObject (map (\<lambda>(k, raw). (k, decode_any fuel (depth - 1) raw)) ms)"
  | (arr) es where "0 < depth" "\<forall>raw \<in> set es. json_skip (depth - 1) raw = Some []"
      "decode_any (Suc fuel) depth s = JArray (map (decode_any fuel (depth - 1)) es)"
  | (num) "numeral_text s" "decode_any (Suc fuel) depth s = JNumber s"
  | (scalar) "decode_any (Suc fuel) depth s \<in> {JNull, JBool True, JBool False} \<union> range JString"
proof -
  obtain c s1 where s: "s = c # s1" using assms by (cases s) (simp_all add: json_skip_def)
  let ?u = "skip_ws s1"
  consider "c = CHR ''{''" | "c = CHR ''[''" | "c \<in> {CHR 0x22, CHR ''t'', CHR ''f'', CHR ''n''}"
    | "c \<notin> {CHR ''{'', CHR ''['', CHR 0x22, CHR ''t'', CHR ''f'', CHR ''n''}" by blast
  then show thesis
  proof cases
    case 1
    then have "0 < depth" using assms by (auto simp: s json_skip_def split: if_splits)
    moreover have "\<forall>(k, raw) \<in> set (members (length ?u) (depth - 1) ?u). json_skip (depth - 1) raw = Some []"
      using members_raw by blast
    ultimately show thesis
      using 1 obj [of "[]"] obj [of "members (length ?u) (depth - 1) ?u"] unfolding s
      by (cases "?u = [] \<or> hd ?u = CHR ''}''") (simp_all add: Let_def)
  next
    case 2
    then have "0 < depth" using assms by (auto simp: s json_skip_def split: if_splits)
    moreover have "\<forall>raw \<in> set (elements (length ?u) (depth - 1) ?u). json_skip (depth - 1) raw = Some []"
      using elements_raw by blast
    ultimately show thesis
      using 2 arr [of "[]"] arr [of "elements (length ?u) (depth - 1) ?u"] unfolding s
      by (cases "?u = [] \<or> hd ?u = CHR '']''") (simp_all add: Let_def)
  next
    case 3
    then show thesis by (intro scalar) (auto simp: s)
  next
    case 4
    with assms json_skip_numeral [of depth c s1] show thesis by (intro num) (simp_all add: s)
  qed
qed

lemma decode_any_encodable:
  assumes "json_skip depth s = Some []"
    and "\<And>n. n \<in> set (numbers (decode_any fuel depth s)) \<Longrightarrow> numeral_text n \<Longrightarrow> numeral_text (number n)"
  shows "encodable depth (any_encodable number (decode_any fuel depth s))"
  using assms
proof (induction fuel arbitrary: depth s)
  case (Suc fuel)
  from Suc.prems(1) show ?case
  proof (cases rule: decode_any_cases [where fuel = fuel])
    case (obj ms)
    have "encodable (depth - 1) (any_encodable number (decode_any fuel (depth - 1) raw))" if "(k, raw) \<in> set ms" for k raw
      using Suc.IH [of "depth - 1" raw] Suc.prems(2) obj(2) that unfolding obj(3) by fastforce
    then show ?thesis unfolding obj(3) by (intro encodable_members [OF obj(1)]) auto
  next
    case (arr es)
    have "encodable (depth - 1) (any_encodable number (decode_any fuel (depth - 1) raw))" if "raw \<in> set es" for raw
      using Suc.IH [of "depth - 1" raw] Suc.prems(2) arr(2) that unfolding arr(3) by fastforce
    then show ?thesis using arr(1) unfolding arr(3) by (simp add: list_all_iff)
  next
    case num
    with Suc.prems(2) show ?thesis by simp
  next
    case scalar
    then show ?thesis by auto
  qed
qed simp

text \<open>The values of an object, those that a later member replaces included.\<close>

lemma decode_any_object:
  assumes "json_skip depth s = Some []" "decode_any (Suc fuel) depth s = JObject ms"
    and "\<And>n. n \<in> set (numbers (JObject ms)) \<Longrightarrow> numeral_text n \<Longrightarrow> numeral_text (number n)"
  shows "0 < depth \<and> (\<forall>(k, v) \<in> set ms. encodable (depth - 1) (any_encodable number v))"
  using assms(1)
proof (cases rule: decode_any_cases [where fuel = fuel])
  case (obj raws)
  have "encodable (depth - 1) (any_encodable number v)" if m: "(k, v) \<in> set ms" for k v
  proof -
    from m assms(2) obj(3) obtain raw where raw: "(k, raw) \<in> set raws" "v = decode_any fuel (depth - 1) raw" by auto
    have "set (numbers v) \<subseteq> set (numbers (JObject ms))" using m by fastforce
    with decode_any_encodable [of "depth - 1" raw fuel number] obj(2) raw assms(3) show ?thesis by blast
  qed
  with obj(1) show ?thesis by blast
qed (use assms(2) in auto)

section \<open>Strings are read back\<close>

text \<open>A string as the decoder returns it: a byte that is no UTF-8 becomes U+FFFD.\<close>

definition to_valid :: "string \<Rightarrow> string" where
  "to_valid s = concat (map (\<lambda>(r, seg). utf8_encode r) (utf8_segs s))"

lemma digits64: "y < 64 \<Longrightarrow> (x * 64 + y) div 64 = x \<and> (x * 64 + y) mod 64 = (y :: nat)"
  by simp

lemma char_code: "code c = k \<Longrightarrow> char_of k = c"
  by (metis char_of_char)

lemma utf8_encode_2:
  assumes "code c0 = 192 + x" "2 \<le> x" "x < 32" "code c1 = 128 + y" "y < 64"
  shows "utf8_encode (x * 64 + y) = [c0, c1]"
  using assms char_code [OF assms(1)] char_code [OF assms(4)] by (simp add: utf8_encode_def)

lemma utf8_encode_3:
  assumes "code c0 = 224 + x" "x < 16" "code c1 = 128 + y" "y < 64" "code c2 = 128 + z" "z < 64" "x = 0 \<Longrightarrow> 32 \<le> y"
    and r: "r = (x * 64 + y) * 64 + z"
  shows "utf8_encode r = [c0, c1, c2]"
proof -
  have "r div 64 = x * 64 + y" "r mod 64 = z" "r div 4096 = x"
    using digits64 [OF assms(6), of "x * 64 + y"] digits64 [OF assms(4), of x] div_mult2_eq [of r 64 64] by (simp_all add: r)
  moreover have "2048 \<le> r" "r < 65536" using r assms by (cases x; simp)+
  ultimately show ?thesis
    using assms(4) char_code [OF assms(1)] char_code [OF assms(3)] char_code [OF assms(5)] by (simp add: utf8_encode_def)
qed

lemma utf8_encode_4:
  assumes "code c0 = 240 + x" "code c1 = 128 + y" "y < 64" "code c2 = 128 + z" "z < 64" "code c3 = 128 + v" "v < 64"
    and "x = 0 \<Longrightarrow> 16 \<le> y" and r: "r = ((x * 64 + y) * 64 + z) * 64 + v"
  shows "utf8_encode r = [c0, c1, c2, c3]"
proof -
  have "r div 64 = (x * 64 + y) * 64 + z" "r mod 64 = v"
    using digits64 [OF assms(7), of "(x * 64 + y) * 64 + z"] unfolding r by blast+
  moreover from this have "r div 4096 = x * 64 + y" "r div 64 mod 64 = z"
    using digits64 [OF assms(5), of "x * 64 + y"] div_mult2_eq [of r 64 64] by simp_all
  moreover from this have "r div 262144 = x" "r div 4096 mod 64 = y"
    using digits64 [OF assms(3), of x] div_mult2_eq [of r 4096 64] by simp_all
  moreover have "65536 \<le> r" using r assms(8) by (cases x) simp_all
  ultimately show ?thesis
    using char_code [OF assms(1)] char_code [OF assms(2)] char_code [OF assms(4)] char_code [OF assms(6)]
    by (simp add: utf8_encode_def)
qed

lemma is_cont_code: "is_cont c \<Longrightarrow> \<exists>y < 64. code c = 128 + y"
  using le_Suc_ex [of 128 "code c"] by (fastforce simp: is_cont_def)

lemma DecodeRune_encode:
  assumes "s \<noteq> []" "DecodeRune s = (r, n)" "\<not> (r = RuneError \<and> n = 1)"
  shows "utf8_encode r = take n s \<and> DecodeRune (take n s @ t) = (r, n) \<and> n = length (take n s)"
proof -
  obtain c0 s1 where s: "s = c0 # s1" using assms(1) by (cases s) auto
  consider (one) "code c0 < 128" "r = code c0" "n = 1"
    | (two) c1 u where "194 \<le> code c0" "code c0 \<le> 223" "s1 = c1 # u" "is_cont c1"
        "r = (code c0 - 192) * 64 + (code c1 - 128)" "n = 2"
    | (three) c1 c2 u where "224 \<le> code c0" "code c0 \<le> 239" "s1 = c1 # c2 # u" "is_cont c1" "is_cont c2"
        "code c0 = 224 \<longrightarrow> 160 \<le> code c1" "code c0 = 237 \<longrightarrow> code c1 \<le> 159"
        "r = (code c0 - 224) * 4096 + (code c1 - 128) * 64 + (code c2 - 128)" "n = 3"
    | (four) c1 c2 c3 u where "240 \<le> code c0" "code c0 \<le> 244" "s1 = c1 # c2 # c3 # u" "is_cont c1" "is_cont c2" "is_cont c3"
        "code c0 = 240 \<longrightarrow> 144 \<le> code c1" "code c0 = 244 \<longrightarrow> code c1 \<le> 143"
        "r = (code c0 - 240) * 262144 + (code c1 - 128) * 4096 + (code c2 - 128) * 64 + (code c3 - 128)" "n = 4"
    using assms(2,3) s by (auto simp: DecodeRune_def Let_def split: if_splits list.splits)
  then show ?thesis
  proof cases
    case one
    then show ?thesis using s by (simp add: utf8_encode_def DecodeRune_def)
  next
    case two
    obtain y where y: "code c1 = 128 + y" "y < 64" using is_cont_code [OF two(4)] by auto
    have "utf8_encode r = [c0, c1]"
      unfolding two(5) using two(1,2) y by (intro utf8_encode_2) simp_all
    then show ?thesis using two s by (simp add: DecodeRune_def Let_def)
  next
    case three
    obtain y z where y: "code c1 = 128 + y" "y < 64" and z: "code c2 = 128 + z" "z < 64"
      using is_cont_code [OF three(4)] is_cont_code [OF three(5)] by auto
    have "utf8_encode r = [c0, c1, c2]"
      using three(1,2,6,8) y z by (intro utf8_encode_3 [of c0 "code c0 - 224" c1 y c2 z]) simp_all
    then show ?thesis using three s by (simp add: DecodeRune_def Let_def)
  next
    case four
    obtain y z v where y: "code c1 = 128 + y" "y < 64" and z: "code c2 = 128 + z" "z < 64" and v: "code c3 = 128 + v" "v < 64"
      using is_cont_code [OF four(4)] is_cont_code [OF four(5)] is_cont_code [OF four(6)] by auto
    have "utf8_encode r = [c0, c1, c2, c3]"
      using four(1,2,7,9) y z v by (intro utf8_encode_4 [of c0 "code c0 - 240" c1 y c2 z c3 v]) simp_all
    then show ?thesis using four s by (simp add: DecodeRune_def Let_def)
  qed
qed

text \<open>The segments of a string are encodings of their runes, or single bytes that are none.\<close>

lemma utf8_segs_encode:
  "(r, seg) \<in> set (utf8_segs s) \<Longrightarrow>
     r = RuneError \<and> length seg = 1 \<or>
     utf8_encode r = seg \<and> seg \<noteq> [] \<and> (\<forall>t. DecodeRune (seg @ t) = (r, length seg))"
proof (induction s rule: utf8_segs.induct)
  case (1 s)
  show ?case
  proof (cases "s = []")
    case False
    obtain r' n where d: "DecodeRune s = (r', n)" by (rule prod.exhaust)
    with 1(2) False have "(r, seg) = (r', take n s) \<or> (r, seg) \<in> set (utf8_segs (drop n s))"
      by (simp add: utf8_segs.simps [of s])
    moreover have "length (take n s) = 1" if "n = 1" using that False by (cases s) simp_all
    moreover have "0 < n" using DecodeRune_size [OF False] d by simp
    ultimately show ?thesis using 1(1) [OF False d [symmetric] refl] DecodeRune_encode [OF False d] False by fastforce
  qed (use 1 in simp)
qed

lemma to_valid_id:
  assumes "utf8_Valid (bytes_of_string s)"
  shows "to_valid s = s"
proof -
  have "map (\<lambda>(r, seg). utf8_encode r) (utf8_segs s) = map snd (utf8_segs s)"
    using assms utf8_segs_encode [of _ _ s] by (fastforce simp: utf8_Valid_def list_all_iff)
  then show ?thesis unfolding to_valid_def by (simp only: concat_utf8_segs)
qed

lemma hex_value_digit: "m < 16 \<Longrightarrow> hex_value (digit_char m) = m"
  by (auto simp: hex_value_def digit_char_def is_digit_def)

lemma getu4_escape: "r < 65536 \<Longrightarrow> getu4 (unicode_escape r @ t) = Some r"
proof -
  assume r: "r < 65536"
  have digit: "hex_value (hex_digit m) = m mod 16" for m by (simp add: hex_digit_def hex_value_digit)
  have "r div 4096 = r div 256 div 16" "r div 256 = r div 16 div 16"
    using div_mult2_eq [of r 256 16] div_mult2_eq [of r 16 16] by simp_all
  then have "((r div 4096 * 16 + r div 256 mod 16) * 16 + r div 16 mod 16) * 16 + r mod 16 = r"
    by (metis div_mult_mod_eq)
  moreover have "hex_value (hex_digit (r div 4096)) = r div 4096" unfolding digit using r by simp
  ultimately show ?thesis by (simp add: getu4_def unicode_escape_def digit)
qed

lemma unquote_escape:
  assumes "r < 65536" "\<not> is_surrogate r"
  shows "unquote_fuel (Suc f) (unicode_escape r @ t) = utf8_encode r @ unquote_fuel f t"
proof -
  obtain u where u: "unicode_escape r @ t = CHR 0x5C # CHR ''u'' # u" "drop 4 u = t"
    by (simp add: unicode_escape_def)
  show ?thesis using getu4_escape [OF assms(1), of t] assms(2) u(2) unfolding u(1) by simp
qed

lemma unquote_seg:
  assumes "seg \<noteq> []" "DecodeRune (seg @ t) = (r, length seg)" "128 \<le> r" "\<forall>c \<in> set seg. 128 \<le> code c"
  shows "unquote_fuel (Suc f) (seg @ t) = utf8_encode r @ unquote_fuel f t"
  using assms by (cases seg) auto


text \<open>Quoting and unquoting a string.\<close>

lemma unquote_quote_rune:
  assumes "(r, seg) \<in> set (utf8_segs s)"
  shows "unquote_fuel (Suc f) (quote_rune (r, seg) @ t) = utf8_encode r @ unquote_fuel f t"
proof -
  have plain: "\<not> is_surrogate RuneError" "RuneError < 65536" "\<not> is_surrogate 8232" "\<not> is_surrogate 8233"
    by (simp_all add: is_surrogate_def RuneError_def)
  consider (ascii) c where "seg = [c]" "r = code c" "code c < 128"
    | (bad) "r = RuneError" "length seg = 1" "128 \<le> r"
    | (high) "128 \<le> r" "\<forall>c \<in> set seg. 128 \<le> code c" "seg \<noteq> []" "DecodeRune (seg @ t) = (r, length seg)"
        "\<not> (r = RuneError \<and> length seg = 1)"
    using utf8_segs_seg [OF assms] utf8_segs_encode [OF assms] by blast
  then show ?thesis
  proof cases
    case ascii
    have r: "r < 65536" "\<not> is_surrogate r" "utf8_encode r = [c]" using ascii by (simp_all add: is_surrogate_def utf8_encode_def)
    have eq: "c = char_of k" if "code c = k" for k :: nat using that by (metis char_of_char)
    consider "r \<in> {92, 34, 8, 12, 10, 13, 9}" | "r \<notin> {92, 34, 8, 12, 10, 13, 9}" "r < 32 \<or> r = 60 \<or> r = 62 \<or> r = 38"
      | "r \<notin> {92, 34, 8, 12, 10, 13, 9}" "\<not> (r < 32 \<or> r = 60 \<or> r = 62 \<or> r = 38)" by blast
    then show ?thesis
    proof cases
      case 1
      then have "c \<in> {CHR 0x5C, CHR 0x22, CHR 0x08, CHR 0x0C, CHR 0x0A, CHR 0x0D, CHR 0x09}"
        using eq unfolding ascii(2) by (elim insertE emptyE) (simp_all add: char_of_eq_iff)
      then show ?thesis using r(3) unfolding ascii(1,2)
        by (elim insertE emptyE) (simp_all add: quote_rune_def escape_value_def)
    next
      case 2
      then show ?thesis using unquote_escape [OF r(1,2)] ascii by (simp add: quote_rune_def)
    next
      case 3
      then have "quote_rune (r, seg) = [c]" "c \<noteq> CHR 0x5C" using ascii by (auto simp: quote_rune_def)
      then show ?thesis using ascii r(3) by simp
    qed
  next
    case bad
    then show ?thesis using unquote_escape [OF plain(2,1)] by (simp add: quote_rune_def)
  next
    case high
    then show ?thesis using unquote_escape [OF _ plain(3)] unquote_escape [OF _ plain(4)] unquote_seg [OF high(3,4,1,2)]
      by (auto simp: quote_rune_def)
  qed
qed

lemma unquote_quoted: "unquote (concat (map quote_rune (utf8_segs s))) = to_valid s"
proof -
  have "set xs \<subseteq> set (utf8_segs s) \<Longrightarrow> length (concat (map quote_rune xs)) \<le> f \<Longrightarrow>
      unquote_fuel f (concat (map quote_rune xs)) = concat (map (\<lambda>(r, seg). utf8_encode r) xs)" for xs f
  proof (induction xs arbitrary: f)
    case Nil
    show ?case by (cases f) simp_all
  next
    case (Cons x xs)
    obtain r seg where x: "x = (r, seg)" by (rule prod.exhaust)
    with Cons.prems(1) have mem: "(r, seg) \<in> set (utf8_segs s)" by simp
    have "quote_rune x \<noteq> []"
      using utf8_segs_encode [OF mem] by (auto simp: quote_rune_def x unicode_escape_def)
    with Cons.prems(2) obtain g where g: "f = Suc g" "length (concat (map quote_rune xs)) \<le> g"
      by (cases f; cases "quote_rune x") auto
    show ?case using Cons.IH [OF _ g(2)] Cons.prems(1) unquote_quote_rune [OF mem, of g] by (simp add: x g(1))
  qed
  from this [of "utf8_segs s"] show ?thesis by (simp add: unquote_def to_valid_def)
qed

lemma quotable_quoted: "quotable (concat (map quote_rune (utf8_segs s)))"
  using skip_Marshal_string [of s] by (simp add: quotable_def Marshal_string_def)


section \<open>Trees are read back\<close>

fun clean :: "json \<Rightarrow> json" where
  "clean (JString s) = JString (to_valid s)"
| "clean (JArray vs) = JArray (map clean vs)"
| "clean (JObject ms) = JObject (map (\<lambda>(k, v). (to_valid k, clean v)) ms)"
| "clean v = v"

lemma raw_elements:
  assumes "es \<noteq> []" "\<forall>e \<in> set es. raw_ok depth e" "length es \<le> g"
  shows "elements g depth (join_with '','' es @ CHR '']'' # t) = es"
  using assms
proof (induction es arbitrary: g)
  case (Cons e es)
  obtain g' where g: "g = Suc g'" "length es \<le> g'" using Cons.prems(3) by (cases g) auto
  let ?more = "join_with '','' es @ CHR '']'' # t"
  let ?t = "if es = [] then CHR '']'' # t else CHR '','' # ?more"
  have shape: "join_with '','' (e # es) @ CHR '']'' # t = e @ ?t" by (cases es) simp_all
  have "delimits ?t" by (simp add: delimits_closing)
  then have skip: "json_skip depth (e @ ?t) = Some ?t" using Cons.prems(2) by (simp add: raw_ok_def)
  have "skip_ws ?more = ?more" if "es \<noteq> []"
    using that Cons.prems(2) solid_skip [of "hd es"] join_with_Cons [of "'',''" "hd es" "tl es"]
    by (cases es) (auto simp: raw_ok_def)
  then show ?case unfolding shape g(1)
    using skip Cons.IH [of g'] Cons.prems(2) g(2) by (auto simp: structural_skip)
qed simp

lemma json_encode_object:
  "json_encode (JObject ms) = raw_object (map (\<lambda>(k, v). (concat (map quote_rune (utf8_segs k)), json_encode v)) ms)"
proof -
  have "(\<lambda>(k, v). Marshal_string k @ '':'' @ json_encode v) = raw_member \<circ> (\<lambda>(k, v). (concat (map quote_rune (utf8_segs k)), json_encode v))"
    by (auto simp: fun_eq_iff raw_member_def Marshal_string_def)
  then show ?thesis by (simp add: raw_object_def)
qed

text \<open>An opening bracket in front of something that is there.\<close>

lemma tl_raw_object:
  assumes "ms \<noteq> []"
  shows "raw_object ms = CHR ''{'' # tl (raw_object ms)" "skip_ws (tl (raw_object ms)) = tl (raw_object ms)"
    "tl (raw_object ms) \<noteq> []" "hd (tl (raw_object ms)) = CHR 0x22"
  using assms join_with_Cons [of "'',''" "raw_member (hd ms)" "map raw_member (tl ms)"]
  by (cases ms; auto simp: raw_object_def raw_member_def skip_ws_def is_ws_def)+

lemma length_join_with: "x \<in> set xs \<Longrightarrow> length x \<le> length (join_with sep xs)"
proof (induction xs)
  case (Cons y ys)
  then show ?case using join_with_Cons [of sep y ys] by (cases ys) auto
qed simp

lemma decode_object:
  assumes "ms \<noteq> []" "\<forall>m \<in> set ms. quotable (fst m) \<and> raw_ok depth (snd m)"
  shows "decode_any (Suc fuel) (Suc depth) (raw_object ms) = JObject (map (\<lambda>(k, raw). (unquote k, decode_any fuel depth raw)) ms)"
proof -
  note tl = tl_raw_object [OF assms(1)]
  show ?thesis
    by (subst tl(1)) (use raw_object_skip(2) [OF assms] tl(2-) in \<open>auto simp: Let_def\<close>)
qed


lemma decode_array:
  assumes "es \<noteq> []" "\<forall>e \<in> set es. raw_ok depth e" "\<forall>e \<in> set es. hd e \<noteq> CHR '']''"
  shows "decode_any (Suc fuel) (Suc depth) (''['' @ join_with '','' es @ '']'') = JArray (map (decode_any fuel depth) es)"
proof -
  let ?u = "join_with '','' es @ '']''"
  obtain e es' where es: "es = e # es'" using assms(1) by (cases es) auto
  have e: "e \<noteq> []" "\<not> is_ws (hd e)" using assms(2) by (simp_all add: es raw_ok_def)
  obtain v where v: "?u = e @ v" by (cases es') (simp_all add: es)
  have "skip_ws ?u = ?u" unfolding v by (rule solid_skip [OF e])
  moreover have "hd ?u \<noteq> CHR '']''" unfolding v using assms(3) e(1) by (simp add: es)
  moreover have "?u \<noteq> []" by simp
  moreover have "length es \<le> length ?u"
  proof -
    have "list_all (\<lambda>e. e \<noteq> []) xs \<Longrightarrow> length xs \<le> length (join_with '','' xs) + 1" for xs :: "string list"
      by (induction xs rule: induct_list012) (auto simp: neq_Nil_conv)
    with assms(2) show ?thesis by (simp add: raw_ok_def list_all_iff)
  qed
  then have "elements (length ?u) depth ?u = es" by (rule raw_elements [OF assms(1,2)])
  ultimately show ?thesis by (simp add: Let_def)
qed

text \<open>An array and an object are read back when their parts are.\<close>

lemma decode_encode_array:
  assumes "\<forall>v \<in> set vs. encodable depth v \<and> decode_any fuel depth (json_encode v) = clean v"
  shows "decode_any (Suc fuel) (Suc depth) (json_encode (JArray vs)) = clean (JArray vs)"
proof (cases "vs = []")
  case False
  have "\<forall>e \<in> set (map json_encode vs). raw_ok depth e" using assms raw_ok_encode by auto
  moreover have "hd (json_encode v) \<noteq> CHR '']''" if "v \<in> set vs" for v
    using assms that json_encode_hd [of depth v] by (metis list.sel(1))
  ultimately show ?thesis using decode_array [of "map json_encode vs" depth fuel] assms False by simp
qed (simp add: skip_ws_def is_ws_def)

lemma decode_encode_object:
  assumes "\<forall>(k, v) \<in> set ms. encodable depth v \<and> decode_any fuel depth (json_encode v) = clean v"
  shows "decode_any (Suc fuel) (Suc depth) (json_encode (JObject ms)) = clean (JObject ms)"
proof (cases "ms = []")
  case False
  let ?raws = "map (\<lambda>(k, v). (concat (map quote_rune (utf8_segs k)), json_encode v)) ms"
  have "map (\<lambda>(k, raw). (unquote k, decode_any fuel depth raw)) ?raws = map (\<lambda>(k, v). (to_valid k, clean v)) ms"
    using assms by (auto simp: unquote_quoted)
  moreover have "\<forall>m \<in> set ?raws. quotable (fst m) \<and> raw_ok depth (snd m)"
    using assms raw_ok_encode quotable_quoted by auto
  ultimately show ?thesis using decode_object [of ?raws depth fuel] False unfolding json_encode_object by simp
qed (simp add: skip_ws_def is_ws_def)

text \<open>What the encoder writes, the decoder reads back, up to the bytes that are no UTF-8.\<close>

lemma decode_encode:
  assumes "encodable depth v" "length (json_encode v) < fuel"
  shows "decode_any fuel depth (json_encode v) = clean v"
  using assms
proof (induction v arbitrary: depth fuel)
  case JNull
  then show ?case by (cases fuel) simp_all
next
  case (JBool b)
  then show ?case by (cases fuel; cases b) (simp_all add: FormatBool_def)
next
  case (JNumber n)
  then obtain c s g where n: "n = c # s" "is_digit c \<or> c = CHR ''-''" "fuel = Suc g"
    by (cases n; cases fuel) (auto simp: numeral_text_def)
  then have "c \<notin> {CHR ''{'', CHR ''['', CHR 0x22, CHR ''t'', CHR ''f'', CHR ''n''}" using numeral_char [of c] by blast
  then show ?case by (simp add: n)
next
  case (JString s)
  then show ?case by (cases fuel) (simp_all add: Marshal_string_def unquote_quoted butlast_append)
next
  case (JArray vs)
  obtain g d where gd: "fuel = Suc g" "depth = Suc d" using JArray.prems by (cases fuel; cases depth) auto
  have "encodable d v \<and> length (json_encode v) < g" if "v \<in> set vs" for v
    using JArray.prems length_join_with [of "json_encode v" "map json_encode vs" "'',''"] that by (simp add: gd list_all_iff)
  with JArray.IH show ?case unfolding gd by (intro decode_encode_array) blast
next
  case (JObject ms)
  obtain g d where gd: "fuel = Suc g" "depth = Suc d" using JObject.prems by (cases fuel; cases depth) auto
  have "encodable d v \<and> length (json_encode v) < g" if m: "(k, v) \<in> set ms" for k v
  proof -
    let ?text = "Marshal_string k @ '':'' @ json_encode v"
    have "?text \<in> set (map (\<lambda>(k, v). Marshal_string k @ '':'' @ json_encode v) ms)" using m by force
    from length_join_with [OF this, of "'',''"] JObject.prems m show ?thesis by (auto simp: gd list_all_iff)
  qed
  with JObject.IH show ?case unfolding gd by (intro decode_encode_object) fastforce
qed

lemma json_decode_encode: "encodable depth v \<Longrightarrow> json_decode depth (json_encode v) = clean v"
  unfolding json_decode_def by (rule decode_encode) simp_all


lemma to_valid_ascii: "ascii s \<Longrightarrow> to_valid s = s"
  by (rule to_valid_id [OF utf8_Valid_ascii])

section \<open>One line\<close>

text \<open>The encoder writes no control characters, whatever the strings hold: a document is one line.\<close>

definition printable :: "string \<Rightarrow> bool" where
  "printable s \<longleftrightarrow> (\<forall>c \<in> set s. 32 \<le> code c)"

lemma printable_simps [simp]:
  "printable []" "printable (c # s) \<longleftrightarrow> 32 \<le> code c \<and> printable s" "printable (s @ t) \<longleftrightarrow> printable s \<and> printable t"
  "printable (concat ss) \<longleftrightarrow> (\<forall>s \<in> set ss. printable s)"
  by (auto simp: printable_def)

lemma printable_join_with: "printable sep \<Longrightarrow> \<forall>s \<in> set ss. printable s \<Longrightarrow> printable (join_with sep ss)"
  by (induction ss rule: induct_list012) auto

lemma printable_numeral: "numeral_text n \<Longrightarrow> printable n"
proof -
  assume "numeral_text n"
  then have "skip_number n = Some []" by (simp add: numeral_text_def)
  then obtain x where "n = x @ []" "numeral_chars x" by (rule skip_number_prefix)
  then show ?thesis by (auto simp: numeral_chars_def printable_def is_digit_def)
qed

lemma printable_quote_rune:
  assumes "(r, seg) \<in> set (utf8_segs s)"
  shows "printable (quote_rune (r, seg))"
proof -
  have hex: "32 \<le> code (hex_digit n)" for n
    using is_hex_digit [of n] by (auto simp: is_hex_def is_digit_def)
  have esc: "printable (unicode_escape n)" for n by (simp add: unicode_escape_def hex)
  have "r < 128 \<Longrightarrow> \<exists>c. seg = [c] \<and> r = code c" "128 \<le> r \<Longrightarrow> printable seg"
    using utf8_segs_seg [OF assms] by (auto simp: printable_def)
  then show ?thesis by (auto simp: quote_rune_def esc)
qed

lemma printable_Marshal_string: "printable (Marshal_string s)"
  using printable_quote_rune by (auto simp: Marshal_string_def)

lemma printable_encode: "encodable depth v \<Longrightarrow> printable (json_encode v)"
proof (induction v arbitrary: depth)
  case (JArray vs)
  then have "printable (json_encode v)" if "v \<in> set vs" for v
    using that by (fastforce simp: list_all_iff)
  then show ?case by (auto intro!: printable_join_with)
next
  case (JObject ms)
  then have "printable (json_encode v)" if "(k, v) \<in> set ms" for k v
    using that by (fastforce simp: list_all_iff)
  then show ?case by (auto simp: printable_Marshal_string intro!: printable_join_with)
next
  case (JBool b)
  show ?case by (cases b) (simp_all add: FormatBool_def)
qed (simp_all add: printable_numeral printable_Marshal_string)


end
