(* ===== verification/Management.thy ===== *)
theory Management
  imports Sessions JsonDecode
begin

text \<open>
  \<^verbatim>\<open>internal/management/server.go\<close>: the operator's HTTP server.  The handlers work on the shared
  components of the \<open>World\<close>, where \<open>None\<close> is a component that is nil.  A request is its method, its
  path, the decoded pairs of its query and the peer's address; the multiplexer of \<^verbatim>\<open>net/http\<close> picks the
  handler of an exactly matching path, and what it does with other paths (not found, redirect to a clean path)
  is an argument.  The rendering of an instant in JSON is an argument too.
\<close>

section \<open>Requests and responses\<close>

record http_request =
  req_Method :: string
  req_Path :: string
  req_Query :: "(string \<times> string) list"
  req_RemoteAddr :: string

record http_response =
  resp_status :: int
  resp_header :: "(string \<times> string) list"
  resp_body :: string

definition MethodGet :: string where "MethodGet = ''GET''"
definition MethodDelete :: string where "MethodDelete = ''DELETE''"
definition StatusOK :: int where "StatusOK = 200"
definition StatusNoContent :: int where "StatusNoContent = 204"
definition StatusBadRequest :: int where "StatusBadRequest = 400"
definition StatusMethodNotAllowed :: int where "StatusMethodNotAllowed = 405"
definition StatusServiceUnavailable :: int where "StatusServiceUnavailable = 503"

definition query_Get :: "http_request \<Rightarrow> string \<Rightarrow> string" where
  "query_Get r k = (case map_of (req_Query r) k of Some v \<Rightarrow> v | None \<Rightarrow> '''')"

text \<open>\<^verbatim>\<open>http.Error\<close>.\<close>

definition http_Error :: "string \<Rightarrow> int \<Rightarrow> http_response" where
  "http_Error message status =
     \<lparr>resp_status = status,
      resp_header = [(''Content-Type'', ''text/plain; charset=utf-8''), (''X-Content-Type-Options'', ''nosniff'')],
      resp_body = message @ newline\<rparr>"

definition writeJSON :: "int \<Rightarrow> json \<Rightarrow> http_response" where
  "writeJSON status v =
     \<lparr>resp_status = status, resp_header = [(''Content-Type'', ''application/json'')], resp_body = json_encode v @ newline\<rparr>"

section \<open>The server\<close>

record ManagementOptions =
  mo_Enabled :: bool
  mo_Address :: string
  mo_Version :: string

definition NewManagement :: "ManagementOptions \<Rightarrow> ManagementOptions" where
  "NewManagement opts = (if mo_Address opts = '''' then opts\<lparr>mo_Address := ''127.0.0.1:25575''\<rparr> else opts)"

definition versionOrDefault :: "string \<Rightarrow> string" where
  "versionOrDefault version = (if version = '''' then ''0.0.6'' else version)"

text \<open>A snapshot reads the clock once for each backend, in the order in which it visits them.\<close>

definition snapshot_times :: "World \<Rightarrow> (string \<Rightarrow> Time) \<times> World" where
  "snapshot_times w =
     (case w_health w of
        None \<Rightarrow> (\<lambda>_. zero_time, w)
      | Some h \<Rightarrow>
          (\<lambda>addr. w_clock w (length (takeWhile (\<lambda>e. fst e \<noteq> addr) (entries h))),
           w\<lparr>w_clock := \<lambda>n. w_clock w (length (entries h) + n)\<rparr>))"

definition status_json :: "(Time \<Rightarrow> string) \<Rightarrow> BackendStatus \<Rightarrow> json" where
  "status_json time_text b = JObject
     ([(''backend'', JString (bs_Backend b)), (''probe_host'', JString (bs_ProbeHost b)),
       (''healthy'', JBool (bs_Healthy b)), (''circuit_open'', JBool (bs_CircuitOpen b)),
       (''circuit_open_until'', JString (time_text (bs_CircuitOpenUntil b))),
       (''last_checked'', JString (time_text (bs_LastChecked b)))]
      @ (if bs_LastError b = '''' then [] else [(''last_error'', JString (bs_LastError b))])
      @ [(''consecutive_failures'', int_json (bs_ConsecutiveFails b)), (''consecutive_successes'', int_json (bs_ConsecutiveOKs b)),
         (''check_successes'', int_json (bs_CheckSuccesses b)), (''check_failures'', int_json (bs_CheckFailures b)),
         (''circuit_trips'', int_json (bs_CircuitTrips b))])"

definition snapshot_json :: "(Time \<Rightarrow> string) \<Rightarrow> HealthCheckerSnapshot \<Rightarrow> json" where
  "snapshot_json time_text s = JObject
     [(''enabled'', JBool (snap_Enabled s)), (''total'', int_json (snap_Total s)), (''healthy'', int_json (snap_Healthy s)),
      (''unhealthy'', int_json (snap_Unhealthy s)),
      (''backends'', if snap_Backends s = [] then JNull else JArray (map (status_json time_text) (snap_Backends s)))]"

definition healthSnapshot :: "(Time \<Rightarrow> string) \<Rightarrow> World \<Rightarrow> json \<times> World" where
  "healthSnapshot time_text w =
     (case w_health w of
        None \<Rightarrow> (JNull, w)
      | Some h \<Rightarrow> (let (now, w) = snapshot_times w in (snapshot_json time_text (checker_Snapshot now (Some h)), w)))"

definition handleHealthz :: "http_request \<Rightarrow> World \<Rightarrow> http_response \<times> World" where
  "handleHealthz r w =
     (if req_Method r \<noteq> MethodGet then (http_Error ''method not allowed'' StatusMethodNotAllowed, w)
      else (\<lparr>resp_status = StatusNoContent, resp_header = [], resp_body = ''''\<rparr>, w))"

text \<open>The keys of a \<^verbatim>\<open>map[string]any\<close> are written in order; \<open>ready\<close> is the answer of the proxy, if there is one.\<close>

definition handleReadyz ::
  "(Time \<Rightarrow> string) \<Rightarrow> ManagementOptions \<Rightarrow> bool option \<Rightarrow> http_request \<Rightarrow> World \<Rightarrow> http_response \<times> World" where
  "handleReadyz time_text opts ready r w =
     (if req_Method r \<noteq> MethodGet then (http_Error ''method not allowed'' StatusMethodNotAllowed, w)
      else (let ready = (case ready of Some b \<Rightarrow> b | None \<Rightarrow> True);
                (health, w) = healthSnapshot time_text w
            in (writeJSON (if ready then StatusOK else StatusServiceUnavailable)
                  (JObject [(''health'', health), (''management'', JBool True), (''ready'', JBool ready),
                            (''version'', JString (mo_Version opts))]), w)))"

text \<open>The body is written with the first \<^verbatim>\<open>Write\<close>, which sends the status 200.\<close>

definition handleMetrics :: "ManagementOptions \<Rightarrow> http_request \<Rightarrow> World \<Rightarrow> http_response \<times> World" where
  "handleMetrics opts r w =
     (if req_Method r \<noteq> MethodGet then (http_Error ''method not allowed'' StatusMethodNotAllowed, w)
      else (let header = [(''Content-Type'', ''text/plain; version='' @ versionOrDefault (mo_Version opts))] in
        case w_metrics w of
          None \<Rightarrow> (\<lparr>resp_status = StatusOK, resp_header = header, resp_body = ''''\<rparr>, w)
        | Some m \<Rightarrow>
            (let (now, w) = (if has_health m then snapshot_times w else (\<lambda>_. zero_time, w))
             in (\<lparr>resp_status = StatusOK, resp_header = header,
                  resp_body = WritePrometheus (checker_MetricsSnapshot now (w_health w)) (Some m)\<rparr>, w))))"

definition ban_json :: "(Time \<Rightarrow> string) \<Rightarrow> Ban \<Rightarrow> json" where
  "ban_json time_text b = JObject
     [(''Route'', JString (ban_Route b)), (''Kind'', JString (ban_Kind b)), (''Value'', JString (ban_Value b)),
      (''Failures'', int_json (ban_Failures b)), (''BannedUntil'', JString (time_text (ban_BannedUntil b)))]"

definition handleBans :: "(Time \<Rightarrow> string) \<Rightarrow> http_request \<Rightarrow> World \<Rightarrow> http_response \<times> World" where
  "handleBans time_text r w =
     (if req_Method r = MethodGet then
        (case w_guard w of
           None \<Rightarrow> (writeJSON StatusOK (JObject [(''bans'', JNull)]), w)
         | Some g \<Rightarrow>
             (let (now, w) = w_now w
              in (writeJSON StatusOK (JObject [(''bans'', JArray (map (ban_json time_text) (guard_Snapshot g now)))]), w)))
      else if req_Method r = MethodDelete then
        (let route = query_Get r ''route''; kind = query_Get r ''kind''; val = query_Get r ''value'' in
         if route = '''' \<or> kind = '''' \<or> val = ''''
         then (http_Error ''route, kind, and value are required'' StatusBadRequest, w)
         else (case w_guard w of
             None \<Rightarrow> (writeJSON StatusOK (JObject [(''removed'', JBool False)]), w)
           | Some g \<Rightarrow>
               (let (removed, g) = Unban g route kind val
                in (writeJSON StatusOK (JObject [(''removed'', JBool removed)]), w\<lparr>w_guard := Some g\<rparr>))))
      else (http_Error ''method not allowed'' StatusMethodNotAllowed, w))"

text \<open>The routes of the multiplexer and the access log around it.\<close>

definition management_mux ::
  "(http_request \<Rightarrow> http_response) \<Rightarrow> (Time \<Rightarrow> string) \<Rightarrow> ManagementOptions \<Rightarrow> bool option \<Rightarrow> http_request \<Rightarrow> World
     \<Rightarrow> http_response \<times> World" where
  "management_mux other time_text opts ready r w =
     (if req_Path r = ''/healthz'' then handleHealthz r w
      else if req_Path r = ''/readyz'' then handleReadyz time_text opts ready r w
      else if req_Path r = ''/metrics'' then handleMetrics opts r w
      else if req_Path r = ''/fail2ban/bans'' then handleBans time_text r w
      else (other r, w))"

record management_access =
  ma_method :: string
  ma_path :: string
  ma_status :: int
  ma_remote_addr :: string

definition logRequests ::
  "(http_request \<Rightarrow> World \<Rightarrow> http_response \<times> World) \<Rightarrow> http_request \<Rightarrow> World \<Rightarrow> http_response \<times> management_access \<times> World" where
  "logRequests handler r w =
     (let (resp, w) = handler r w
      in (resp, \<lparr>ma_method = req_Method r, ma_path = req_Path r, ma_status = resp_status resp,
                 ma_remote_addr = req_RemoteAddr r\<rparr>, w))"


text \<open>
  \<^verbatim>\<open>ListenAndServe\<close>: what is asked of the server while it runs, one request after the other, and how it
  ends.  \<open>listen\<close> is \<^verbatim>\<open>net.Listen\<close>, \<open>serve_err\<close> the error that \<^verbatim>\<open>http.Server.Serve\<close> returns.
\<close>

definition ErrServerClosed :: go_error where
  "ErrServerClosed = Errorf ''http: Server closed''"

primrec serve_requests ::
  "(http_request \<Rightarrow> World \<Rightarrow> http_response \<times> management_access \<times> World) \<Rightarrow> http_request list \<Rightarrow> World \<Rightarrow>
     (http_response \<times> management_access) list \<times> World" where
  "serve_requests handler [] w = ([], w)"
| "serve_requests handler (r # rs) w =
     (let (resp, access, w) = handler r w; (rest, w) = serve_requests handler rs w in ((resp, access) # rest, w))"

definition management_ListenAndServe ::
  "(http_request \<Rightarrow> http_response) \<Rightarrow> (Time \<Rightarrow> string) \<Rightarrow> ManagementOptions \<Rightarrow> bool option \<Rightarrow> (string \<Rightarrow> go_error + string) \<Rightarrow>
     go_error \<Rightarrow> http_request list \<Rightarrow> World \<Rightarrow> go_error option \<times> (http_response \<times> management_access) list \<times> World" where
  "management_ListenAndServe other time_text opts ready listen serve_err requests w =
     (if \<not> mo_Enabled opts then (None, [], w)
      else case listen (mo_Address opts) of
        Inl err \<Rightarrow> (Some err, [], w)
      | Inr addr \<Rightarrow>
          (let (served, w) = serve_requests (logRequests (management_mux other time_text opts ready)) requests w
           in (if serve_err = ErrServerClosed then None else Some serve_err, served, w)))"

section \<open>Properties\<close>

lemma snapshot_times_frame: "snapshot_times w = (now, w') \<Longrightarrow> w'\<lparr>w_clock := w_clock w\<rparr> = w"
  by (auto simp: snapshot_times_def split: option.splits)

lemma healthSnapshot_frame: "healthSnapshot time_text w = (v, w') \<Longrightarrow> w'\<lparr>w_clock := w_clock w\<rparr> = w"
  by (auto simp: healthSnapshot_def split: option.splits prod.splits dest: snapshot_times_frame)

text \<open>Which ban a request asks to lift.\<close>

definition lifts :: "http_request \<Rightarrow> (string \<times> string \<times> string) option" where
  "lifts r = (if req_Path r = ''/fail2ban/bans'' \<and> req_Method r = MethodDelete
       \<and> query_Get r ''route'' \<noteq> '''' \<and> query_Get r ''kind'' \<noteq> '''' \<and> query_Get r ''value'' \<noteq> ''''
     then Some (query_Get r ''route'', query_Get r ''kind'', query_Get r ''value'') else None)"

lemma lifts_path: "req_Path r \<noteq> ''/fail2ban/bans'' \<Longrightarrow> lifts r = None"
  by (simp add: lifts_def)

lemma management_mux_frame:
  assumes "management_mux other time_text opts ready r w = (resp, w')"
  shows "w'\<lparr>w_clock := w_clock w\<rparr> = w\<lparr>w_guard := (case lifts r of
      None \<Rightarrow> w_guard w | Some (route, kind, v) \<Rightarrow> map_option (\<lambda>g. snd (Unban g route kind v)) (w_guard w))\<rparr>"
proof -
  consider "req_Path r = ''/readyz''" | "req_Path r = ''/metrics''" | "req_Path r = ''/fail2ban/bans''"
    | "req_Path r \<noteq> ''/readyz''" "req_Path r \<noteq> ''/metrics''" "req_Path r \<noteq> ''/fail2ban/bans''" by blast
  then show ?thesis
  proof cases
    case 1
    then have "w'\<lparr>w_clock := w_clock w\<rparr> = w"
      using assms by (auto simp: management_mux_def handleReadyz_def Let_def split: if_splits prod.splits
          dest: healthSnapshot_frame)
    with 1 show ?thesis by (simp add: lifts_path)
  next
    case 2
    then have "w'\<lparr>w_clock := w_clock w\<rparr> = w"
      using assms by (auto simp: management_mux_def handleMetrics_def Let_def split: if_splits prod.splits option.splits
          dest: snapshot_times_frame)
    with 2 show ?thesis by (simp add: lifts_path)
  next
    case 3
    with assms show ?thesis
      by (auto simp: management_mux_def handleBans_def lifts_def Let_def w_now_def tick_def MethodGet_def MethodDelete_def
          split: if_splits option.splits prod.splits)
  next
    case 4
    with assms show ?thesis
      by (auto simp: management_mux_def handleHealthz_def lifts_path split: if_splits)
  qed
qed

lemma world_eqD:
  assumes "w'\<lparr>w_clock := c\<rparr> = w\<lparr>w_guard := g\<rparr>"
  shows "w_guard w' = g" "w_cache w' = w_cache w" "w_health w' = w_health w" "w_metrics w' = w_metrics w"
    "w_client w' = w_client w" "w_backend w' = w_backend w" "w_dialed w' = w_dialed w"
  using arg_cong [OF assms, of w_guard] arg_cong [OF assms, of w_cache] arg_cong [OF assms, of w_health]
    arg_cong [OF assms, of w_metrics] arg_cong [OF assms, of w_client] arg_cong [OF assms, of w_backend]
    arg_cong [OF assms, of w_dialed]
  by simp_all

lemma snapshot_times_clock: "snapshot_times w = (now, w') \<Longrightarrow> clock_ok w \<Longrightarrow> clock_ok w'"
  by (auto simp: snapshot_times_def clock_ok_def split: option.splits)

lemma healthSnapshot_clock: "healthSnapshot time_text w = (v, w') \<Longrightarrow> clock_ok w \<Longrightarrow> clock_ok w'"
  by (auto simp: healthSnapshot_def split: option.splits prod.splits dest: snapshot_times_clock)

lemma management_mux_clock:
  assumes "management_mux other time_text opts ready r w = (resp, w')" "clock_ok w"
  shows "clock_ok w'"
proof -
  have "clock_ok (snd (handleBans time_text r w))"
    using assms(2) by (auto simp: handleBans_def Let_def w_now_def tick_def clock_ok_def split: option.splits prod.splits)
  moreover have "clock_ok (snd (handleMetrics opts r w))"
    using assms(2) by (auto simp: handleMetrics_def Let_def split: option.splits prod.splits dest: snapshot_times_clock)
  moreover have "clock_ok (snd (handleReadyz time_text opts ready r w))"
    using assms(2) by (auto simp: handleReadyz_def Let_def split: prod.splits dest: healthSnapshot_clock)
  moreover have "clock_ok (snd (handleHealthz r w))" using assms(2) by (simp add: handleHealthz_def)
  ultimately show ?thesis
    using assms by (auto simp: management_mux_def split: if_splits)
qed

text \<open>Serving the operator is one more machine that keeps the invariants of what is shared.\<close>

lemma guard_inv_Unban: "guard_inv g \<Longrightarrow> guard_inv (snd (Unban g route kind v))"
  using guard_machine.inv_step [of g "Op_Unban route kind v"] by simp

lemma management_mux_ok:
  assumes "management_mux other time_text opts ready r w = (resp, w')" "world_ok w"
  shows "world_ok w' \<and> active w' = active w"
proof -
  note frame = world_eqD [OF management_mux_frame [OF assms(1)]]
  have "pred_option guard_inv (w_guard w')"
    using assms(2) by (auto simp: frame(1) world_ok_def option.pred_map comp_def guard_inv_Unban pred_option_def
        split: option.splits)
  moreover have "clock_ok w'" using management_mux_clock [OF assms(1)] assms(2) by (simp add: world_ok_def)
  ultimately show ?thesis using assms(2) by (simp add: world_ok_def active_def frame)
qed

interpretation operator: invariant_machine "\<lambda>r w. snd (management_mux other time_text opts ready r w)" "\<lambda>_. True"
    "\<lambda>w. world_ok w \<and> active w = n"
  by unfold_locales (metis management_mux_ok prod.collapse)

lemma serve_requests_run:
  "snd (serve_requests (logRequests (management_mux other time_text opts ready)) requests w)
     = run (\<lambda>r w. snd (management_mux other time_text opts ready r w)) requests w"
  by (induction requests arbitrary: w) (simp_all add: logRequests_def Let_def split_beta)

lemma management_ListenAndServe_ok:
  assumes "management_ListenAndServe other time_text opts ready listen serve_err requests w = (err, served, w')" "world_ok w"
  shows "world_ok w' \<and> active w' = active w"
proof -
  have "w' = w \<or> w' = snd (serve_requests (logRequests (management_mux other time_text opts ready)) requests w)"
    using assms(1) by (auto simp: management_ListenAndServe_def Let_def split: if_splits sum.splits prod.splits)
  then show ?thesis
    using operator.inv_run [of w "active w" requests other time_text opts ready] assms(2)
    by (auto simp: serve_requests_run list_all_iff)
qed

lemma Unban_lifts: "\<not> fst (IsBanned (snd (Unban g route kind v)) now route kind v)"
  by (simp add: IsBanned_iff Unban_def Let_def)

lemma Unban_other:
  assumes "guard_key_of route' kind' v' \<noteq> guard_key_of route kind v"
  shows "fst (IsBanned (snd (Unban g route kind v)) now route' kind' v') = fst (IsBanned g now route' kind' v')"
  using guard.other_key [of "Op_Unban route kind v" "guard_key_of route' kind' v'" g] assms
  by (intro IsBanned_view) auto

text \<open>
  C16: The management server only looks, except for one request: a deletion on the list of bans that
  names a route, a kind and a value lifts exactly that ban, at once, and leaves every other ban, the
  caches, the health records, the counters and the connections as they are.  Every other request leaves
  the guard as it is, too.
\<close>

theorem management_lifts_one_ban:
  assumes "management_mux other time_text opts ready r w = (resp, w')"
  shows "w_cache w' = w_cache w \<and> w_health w' = w_health w \<and> w_metrics w' = w_metrics w
    \<and> w_client w' = w_client w \<and> w_backend w' = w_backend w \<and> w_dialed w' = w_dialed w
    \<and> (case lifts r of
         None \<Rightarrow> w_guard w' = w_guard w
       | Some (route, kind, v) \<Rightarrow>
           resp_status resp = StatusOK \<and>
           (case w_guard w of
              None \<Rightarrow> w_guard w' = None
            | Some g \<Rightarrow> \<exists>g'. w_guard w' = Some g' \<and> \<not> fst (IsBanned g' now route kind v)
                \<and> (guard_key_of route' kind' v' \<noteq> guard_key_of route kind v \<longrightarrow>
                     fst (IsBanned g' now route' kind' v') = fst (IsBanned g now route' kind' v'))))"
proof -
  note frame = world_eqD [OF management_mux_frame [OF assms]]
  have status: "resp_status resp = StatusOK" if "lifts r \<noteq> None"
    using assms that
    by (auto simp: management_mux_def handleBans_def lifts_def writeJSON_def Let_def MethodGet_def MethodDelete_def
        split: if_splits option.splits prod.splits)
  show ?thesis
    using frame status Unban_lifts Unban_other by (auto split: option.split)
qed

text \<open>An operator lifts the ban of an address.\<close>

theorem management_lifts_one_ban_witness:
  "let w = (new_world (\<lambda>n. 1000 + int n) (Some \<lparr>fb_Enabled = True, MaxFailures = 1, Window = 0, BanDuration = 0, EarlyDisconnect = 0\<rparr>) True None True)
             \<lparr>w_guard := Some (snd (RecordFailure (NewGuard \<lparr>fb_Enabled = True, MaxFailures = 1, Window = 0, BanDuration = 0, EarlyDisconnect = 0\<rparr>)
                900 ''lobby'' ''ip'' ''198.51.100.7''))\<rparr>;
       r = \<lparr>req_Method = ''DELETE'', req_Path = ''/fail2ban/bans'',
            req_Query = [(''route'', ''lobby''), (''kind'', ''ip''), (''value'', ''198.51.100.7'')], req_RemoteAddr = ''127.0.0.1:5''\<rparr>;
       g' = w_guard (snd (management_mux (\<lambda>_. http_Error ''404 page not found'' 404) (\<lambda>_. '''') \<lparr>mo_Enabled = True, mo_Address = '''', mo_Version = ''''\<rparr> None r w))
   in \<exists>g. g' = Some g \<and> \<not> fst (IsBanned g 1000 ''lobby'' ''ip'' ''198.51.100.7'')"
proof -
  let ?w = "(new_world (\<lambda>n. 1000 + int n) (Some \<lparr>fb_Enabled = True, MaxFailures = 1, Window = 0, BanDuration = 0, EarlyDisconnect = 0\<rparr>) True None True)
             \<lparr>w_guard := Some (snd (RecordFailure (NewGuard \<lparr>fb_Enabled = True, MaxFailures = 1, Window = 0, BanDuration = 0, EarlyDisconnect = 0\<rparr>)
                900 ''lobby'' ''ip'' ''198.51.100.7''))\<rparr>"
  let ?r = "\<lparr>req_Method = ''DELETE'', req_Path = ''/fail2ban/bans'',
            req_Query = [(''route'', ''lobby''), (''kind'', ''ip''), (''value'', ''198.51.100.7'')], req_RemoteAddr = ''127.0.0.1:5''\<rparr>"
  let ?run = "management_mux (\<lambda>_. http_Error ''404 page not found'' 404) (\<lambda>_. '''') \<lparr>mo_Enabled = True, mo_Address = '''', mo_Version = ''''\<rparr> None ?r ?w"
  have "lifts ?r = Some (''lobby'', ''ip'', ''198.51.100.7'')"
    by (simp add: lifts_def query_Get_def MethodDelete_def)
  moreover obtain resp w' where run: "management_mux (\<lambda>_. http_Error ''404 page not found'' 404) (\<lambda>_. '''')
      \<lparr>mo_Enabled = True, mo_Address = '''', mo_Version = ''''\<rparr> None ?r ?w = (resp, w')"
    by (rule prod.exhaust)
  ultimately have "\<exists>g'. w_guard w' = Some g' \<and> \<not> fst (IsBanned g' 1000 ''lobby'' ''ip'' ''198.51.100.7'')"
    using management_lifts_one_ban [OF run, where now = 1000 and route' = "[]" and kind' = "[]" and v' = "[]"] by auto
  then show ?thesis unfolding Let_def run by simp
qed


section \<open>The bodies\<close>

text \<open>Trees of strings, booleans and numerals, two brackets deep at most below the top level.\<close>

lemma status_json_encodable: "0 < depth \<Longrightarrow> encodable depth (status_json time_text b)"
  by (simp add: status_json_def)

lemma ban_json_encodable: "0 < depth \<Longrightarrow> encodable depth (ban_json time_text b)"
  by (simp add: ban_json_def)

lemma snapshot_json_encodable: "2 < depth \<Longrightarrow> encodable depth (snapshot_json time_text s)"
  by (auto simp: snapshot_json_def list_all_iff status_json_encodable)

lemma healthSnapshot_encodable: "2 < depth \<Longrightarrow> healthSnapshot time_text w = (v, w') \<Longrightarrow> encodable depth v"
  by (auto simp: healthSnapshot_def snapshot_json_encodable split: option.splits prod.splits)

definition is_json :: "http_response \<Rightarrow> bool" where
  "is_json resp \<longleftrightarrow> (''Content-Type'', ''application/json'') \<in> set (resp_header resp)"

lemma writeJSON_Valid: "encodable maxNestingDepth v \<Longrightarrow> json_Valid (resp_body (writeJSON status v))"
  unfolding writeJSON_def by (simp add: json_encode_Valid newline_def skip_ws_def is_ws_def)

definition answers_soundly :: "http_response \<Rightarrow> bool" where
  "answers_soundly resp \<longleftrightarrow> (is_json resp \<longrightarrow> json_Valid (resp_body resp))
    \<and> resp_status resp \<in> {StatusOK, StatusNoContent, StatusBadRequest, StatusMethodNotAllowed, StatusServiceUnavailable}"

lemma http_Error_sound:
  "status \<in> {StatusBadRequest, StatusMethodNotAllowed} \<Longrightarrow> answers_soundly (http_Error message status)"
  by (auto simp: answers_soundly_def http_Error_def is_json_def)

lemma writeJSON_sound:
  "encodable maxNestingDepth v \<Longrightarrow> status \<in> {StatusOK, StatusServiceUnavailable} \<Longrightarrow> answers_soundly (writeJSON status v)"
  using writeJSON_Valid [of v status] by (auto simp: answers_soundly_def writeJSON_def)

lemma handleReadyz_sound: "answers_soundly (fst (handleReadyz time_text opts ready r w))"
proof -
  have "encodable maxNestingDepth (JObject [(''health'', v), (''management'', JBool True), (''ready'', JBool b), (''version'', JString s)])"
    if "healthSnapshot time_text w = (v, w'')" for v w'' b s
    using healthSnapshot_encodable [OF _ that, of "maxNestingDepth - 1"] by (simp add: maxNestingDepth_def)
  then show ?thesis
    by (auto simp: handleReadyz_def Let_def http_Error_sound writeJSON_sound split: prod.splits)
qed

lemma handleMetrics_sound: "answers_soundly (fst (handleMetrics opts r w))"
  by (auto simp: handleMetrics_def Let_def http_Error_def answers_soundly_def is_json_def split: prod.splits option.splits)

lemma handleBans_sound: "answers_soundly (fst (handleBans time_text r w))"
proof -
  have "encodable maxNestingDepth (JObject [(''bans'', JArray (map (ban_json time_text) bs))])" for bs
    by (simp add: maxNestingDepth_def list_all_iff ban_json_encodable)
  moreover have "encodable maxNestingDepth (JObject [(k, JNull)])" "encodable maxNestingDepth (JObject [(k, JBool b)])" for k b
    by (simp_all add: maxNestingDepth_def)
  ultimately show ?thesis
    by (auto simp: handleBans_def Let_def http_Error_sound writeJSON_sound split: prod.splits option.splits)
qed

text \<open>The list of bans, as a reader of the answer decodes it.\<close>

definition ban_entry :: "(Time \<Rightarrow> string) \<Rightarrow> Ban \<Rightarrow> json" where
  "ban_entry time_text b = JObject
     [(''Route'', JString (to_valid (ban_Route b))), (''Kind'', JString (to_valid (ban_Kind b))),
      (''Value'', JString (to_valid (ban_Value b))), (''Failures'', int_json (ban_Failures b)),
      (''BannedUntil'', JString (to_valid (time_text (ban_BannedUntil b))))]"

lemma clean_ban_json: "clean (ban_json time_text b) = ban_entry time_text b"
  by (simp add: ban_json_def ban_entry_def int_json_def to_valid_ascii)

lemma handleBans_listed:
  assumes "req_Method r = MethodGet" "w_guard w = Some g" "fst (handleBans time_text r w) = resp"
  shows "json_decode maxNestingDepth (butlast (resp_body resp))
    = JObject [(''bans'', JArray (map (ban_entry time_text) (guard_Snapshot g (w_clock w 0))))]"
proof -
  let ?v = "JObject [(''bans'', JArray (map (ban_json time_text) (guard_Snapshot g (w_clock w 0))))]"
  have "encodable maxNestingDepth ?v"
    by (simp add: maxNestingDepth_def list_all_iff ban_json_encodable)
  from json_decode_encode [OF this]
  have "json_decode maxNestingDepth (json_encode ?v)
      = JObject [(''bans'', JArray (map (ban_entry time_text) (guard_Snapshot g (w_clock w 0))))]"
    by (simp add: to_valid_ascii clean_ban_json)
  moreover have "resp_body resp = json_encode ?v @ newline"
    using assms by (auto simp: handleBans_def w_now_def tick_def writeJSON_def Let_def)
  ultimately show ?thesis by (simp add: newline_def butlast_append)
qed

text \<open>
  C17: Whatever is in the guard and the health records, names and values that clients chose and error
  texts included, every document the management server answers with is JSON; the server answers
  every request for one of its paths with one of its five statuses; and who asks for the bans reads
  them back entry by entry, with their routes, kinds and values, up to the bytes that are no UTF-8.
\<close>

theorem management_answers_json:
  assumes "management_mux other time_text opts ready r w = (resp, w')"
    and "req_Path r \<in> {''/healthz'', ''/readyz'', ''/metrics'', ''/fail2ban/bans''}"
  shows "(is_json resp \<longrightarrow> json_Valid (resp_body resp))
    \<and> resp_status resp \<in> {StatusOK, StatusNoContent, StatusBadRequest, StatusMethodNotAllowed, StatusServiceUnavailable}
    \<and> (\<forall>g. req_Path r = ''/fail2ban/bans'' \<and> req_Method r = MethodGet \<and> w_guard w = Some g \<longrightarrow>
          json_decode maxNestingDepth (butlast (resp_body resp))
            = JObject [(''bans'', JArray (map (ban_entry time_text) (guard_Snapshot g (w_clock w 0))))])"
proof -
  have "\<forall>g. req_Path r = ''/fail2ban/bans'' \<and> req_Method r = MethodGet \<and> w_guard w = Some g \<longrightarrow>
          json_decode maxNestingDepth (butlast (resp_body resp))
            = JObject [(''bans'', JArray (map (ban_entry time_text) (guard_Snapshot g (w_clock w 0))))]"
    using handleBans_listed [of r w _ time_text resp] assms(1) by (auto simp: management_mux_def)
  moreover
  have "answers_soundly (fst (handleHealthz r w))"
    by (auto simp: handleHealthz_def http_Error_def answers_soundly_def is_json_def)
  with assms have "answers_soundly resp"
    using handleReadyz_sound [of time_text opts ready r w] handleMetrics_sound [of opts r w] handleBans_sound [of time_text r w]
    by (auto simp: management_mux_def split: if_splits)
  ultimately show ?thesis by (simp add: answers_soundly_def)
qed

text \<open>A ban under a route name with quotes and angle brackets in it.\<close>

theorem management_answers_json_witness:
  "let opts = \<lparr>fb_Enabled = True, MaxFailures = 1, Window = 0, BanDuration = 100, EarlyDisconnect = 0\<rparr>;
       w = (new_world (\<lambda>n. 1000 + int n) (Some opts) True None True)
             \<lparr>w_guard := Some (snd (RecordFailure (NewGuard opts) 990 [CHR 0x22, CHR ''<'', CHR 0x0A] ''ip'' ''198.51.100.7''))\<rparr>;
       resp = fst (management_mux (\<lambda>_. http_Error ''404 page not found'' 404) (\<lambda>_. ''1970-01-01T00:00:00Z'')
         \<lparr>mo_Enabled = True, mo_Address = '''', mo_Version = ''''\<rparr> None
         \<lparr>req_Method = ''GET'', req_Path = ''/fail2ban/bans'', req_Query = [], req_RemoteAddr = ''''\<rparr> w)
   in json_Valid (resp_body resp)"
proof -
  let ?opts = "\<lparr>fb_Enabled = True, MaxFailures = 1, Window = 0, BanDuration = 100, EarlyDisconnect = 0\<rparr>"
  let ?w = "(new_world (\<lambda>n. 1000 + int n) (Some ?opts) True None True)
      \<lparr>w_guard := Some (snd (RecordFailure (NewGuard ?opts) 990 [CHR 0x22, CHR ''<'', CHR 0x0A] ''ip'' ''198.51.100.7''))\<rparr>"
  let ?r = "\<lparr>req_Method = ''GET'', req_Path = ''/fail2ban/bans'', req_Query = [], req_RemoteAddr = ''''\<rparr>"
  obtain resp w' where run: "management_mux (\<lambda>_. http_Error ''404 page not found'' 404) (\<lambda>_. ''1970-01-01T00:00:00Z'')
      \<lparr>mo_Enabled = True, mo_Address = '''', mo_Version = ''''\<rparr> None ?r ?w = (resp, w')" by (rule prod.exhaust)
  then have "is_json resp"
    by (auto simp: management_mux_def handleBans_def MethodGet_def Let_def w_now_def tick_def is_json_def writeJSON_def)
  with management_answers_json [OF run] have "json_Valid (resp_body resp)" by simp
  then show ?thesis unfolding Let_def run by simp
qed

end
