(* ===== verification/Proxy.thy ===== *)
theory Proxy
  imports Scenario Dialer Logging Management
begin

text \<open>
  \<^verbatim>\<open>cmd/mcproxy/main.go\<close>: from a configuration file to the running proxy.  \<open>build\<close> makes the components
  from the configuration and connects them; \<open>main_start\<close> is the program up to the point where the
  listeners start, and \<open>main_end\<close> what it does when a signal arrives or the server returns.
\<close>

section \<open>The components from the configuration\<close>

definition version :: string where
  "version = ''v0.0.6''"

definition health_options_of :: "Config \<Rightarrow> HealthOptions" where
  "health_options_of cfg =
     (let h = cfg_BackendHealth cfg in
      \<lparr>hc_Enabled = bh_Enabled h, Interval = bh_Interval h, Timeout = bh_Timeout h,
       FailureThreshold = bh_FailureThreshold h, SuccessThreshold = bh_SuccessThreshold h,
       ProbeProtocol = bh_ProbeProtocol h, opt_ProbeHost = bh_ProbeHost h, CircuitBreakerTTL = bh_CircuitBreakerTTL h\<rparr>)"

definition guard_options_of :: "Config \<Rightarrow> GuardOptions" where
  "guard_options_of cfg =
     (let f = cfg_Fail2Ban cfg in
      \<lparr>fb_Enabled = fc_Enabled f, MaxFailures = fc_MaxFailures f, Window = fc_Window f,
       BanDuration = fc_BanDuration f, EarlyDisconnect = fc_EarlyDisconnect f\<rparr>)"

definition pool_options_of :: "Config \<Rightarrow> PoolOptions" where
  "pool_options_of cfg =
     \<lparr>MaxIdlePerBackend = pl_MaxIdlePerBackend (cfg_Pool cfg), IdleTimeout = pl_IdleTimeout (cfg_Pool cfg)\<rparr>"

definition server_options_of :: "Config \<Rightarrow> Options" where
  "server_options_of cfg =
     \<lparr>ListenAddr = cfg_Listen cfg, HandshakeTimeout = to_Handshake (cfg_Timeouts cfg),
      BackendDialTimeout = to_BackendDial (cfg_Timeouts cfg), srv_IdleTimeout = to_Idle (cfg_Timeouts cfg),
      ShutdownTimeout = to_Shutdown (cfg_Timeouts cfg), MaxHandshakeSize = cfg_MaxHandshakeSize cfg,
      MaxStatusResponseSize = cfg_MaxStatusResponseSize cfg, StatusCacheEnabled = sc_Enabled (cfg_StatusCache cfg),
      StatusCacheTTL = sc_TTL (cfg_StatusCache cfg), MOTDCacheEnabled = mc_Enabled (cfg_MOTDCache cfg),
      MOTDFallbackTTL = mc_FallbackTTL (cfg_MOTDCache cfg),
      StatusFallbackWhenUnhealthy = bh_StatusFallbackWhenUnhealthy (cfg_BackendHealth cfg),
      StatusFallback = \<lparr>VersionName = sf_VersionName (cfg_StatusFallback cfg),
                        PlayersMax = sf_PlayersMax (cfg_StatusFallback cfg)\<rparr>\<rparr>"

definition management_options_of :: "Config \<Rightarrow> ManagementOptions" where
  "management_options_of cfg =
     \<lparr>mo_Enabled = mg_Enabled (cfg_Management cfg), mo_Address = mg_Address (cfg_Management cfg), mo_Version = version\<rparr>"

record System =
  sys_logger :: "Handler \<times> Closer"
  sys_server :: Server
  sys_listener :: listener_state
  sys_world :: World
  sys_targets :: "BackendTarget list"
  sys_dialer :: NetDialer
  sys_management :: ManagementOptions

definition build :: "Handler \<times> Closer \<Rightarrow> clock \<Rightarrow> (nat \<Rightarrow> go_error option) \<Rightarrow> Config \<Rightarrow> System" where
  "build logger clk answers cfg =
     (let rs = RouteBackends cfg;
          def = DefaultBackendConfig cfg;
          targets = BuildTargets rs def (bh_ProbeHost (cfg_BackendHealth cfg));
          world = new_world clk (Some (guard_options_of cfg)) True (Some (health_options_of cfg, targets)) True;
          world = w_metric (SetHealthSource True) world;
          connPool = (if pl_Enabled (cfg_Pool cfg) then Some (NewPool (pool_options_of cfg)) else None);
          dialer = NewNetDialer connPool answers clk;
          dialer = (if connPool \<noteq> None then Warm dialer (Backends cfg) else dialer)
      in \<lparr>sys_logger = logger, sys_server = NewServerWithGuard (server_options_of cfg) (NewStaticRouter rs def) True,
          sys_listener = \<lparr>ln = None\<rparr>, sys_world = world, sys_targets = targets, sys_dialer = dialer,
          sys_management = NewManagement (management_options_of cfg)\<rparr>)"

section \<open>The program\<close>

datatype exit = VersionPrinted string | ExitOne go_error | Stopped

definition main_start ::
  "(string \<Rightarrow> go_error + byte list) \<Rightarrow> (byte list \<Rightarrow> Config \<Rightarrow> go_error + Config) \<Rightarrow> bool \<Rightarrow> string \<Rightarrow>
     clock \<Rightarrow> (nat \<Rightarrow> go_error option) \<Rightarrow> exit + System" where
  "main_start read_file unmarshal showVersion configPath clk answers =
     (if showVersion then Inl (VersionPrinted (version @ newline))
      else case LoadFile read_file unmarshal configPath of
        Inl err \<Rightarrow> Inl (ExitOne err)
      | Inr cfg \<Rightarrow>
          (case fst (NewLogger (cfg_Logging cfg)) of
             Inl err \<Rightarrow> Inl (ExitOne err)
           | Inr logger \<Rightarrow> Inr (build logger clk answers cfg)))"

definition context_Canceled :: go_error where
  "context_Canceled = Errorf ''context canceled''"

text \<open>
  What ends the program: a signal, the server's return or, as if a signal had arrived, the failure of the management
  server.  \<open>main_returns\<close> is the deferred calls of \<^verbatim>\<open>main\<close>, which an exit with status 1 does
  not run; \<open>None\<close> is an event after which the program goes on.
\<close>

datatype main_event =
    SignalArrived shutdown_race
  | ServerReturned "go_error option"
  | ManagementReturned "go_error option" shutdown_race

definition main_returns :: "System \<Rightarrow> System" where
  "main_returns sys = sys\<lparr>sys_dialer := (sys_dialer sys)\<lparr>d_pool := map_option ClosePool (d_pool (sys_dialer sys))\<rparr>\<rparr>"

definition main_shutdown :: "System \<Rightarrow> shutdown_race \<Rightarrow> exit \<times> System" where
  "main_shutdown sys race =
     (case Shutdown (sys_listener sys) race of
        Some err \<Rightarrow> (ExitOne err, sys)
      | None \<Rightarrow> (Stopped, main_returns sys))"

definition main_end :: "System \<Rightarrow> main_event \<Rightarrow> (exit \<times> System) option" where
  "main_end sys event =
     (case event of
        SignalArrived race \<Rightarrow> Some (main_shutdown sys race)
      | ServerReturned None \<Rightarrow> Some (Stopped, main_returns sys)
      | ServerReturned (Some err) \<Rightarrow>
          Some (if errors_Is err errNetClosed \<or> errors_Is err context_Canceled then (Stopped, main_returns sys)
                else (ExitOne err, sys))
      | ManagementReturned None race \<Rightarrow> None
      | ManagementReturned (Some err) race \<Rightarrow>
          if mo_Enabled (sys_management sys) \<and> \<not> errors_Is err context_Canceled then Some (main_shutdown sys race) else None)"

text \<open>A program that stops has closed its pool, and no refill that is still under way fills it again.\<close>

lemma stopped_pool_closed:
  "main_end sys event = Some (Stopped, sys') \<Longrightarrow> d_pool (sys_dialer sys') = Some p \<Longrightarrow> pool_closed p"
  by (auto simp: main_end_def main_shutdown_def main_returns_def split: main_event.splits option.splits if_splits)

section \<open>The health checks see what the router serves\<close>

text \<open>The targets of the health checks and the backends of the pool are built by two loops that agree.\<close>

definition same_backends :: "BackendTarget list \<times> (string, nat) gomap \<Rightarrow> string set \<times> Backend list \<Rightarrow> bool" where
  "same_backends acc acc' \<longleftrightarrow>
     map tgt_Backend (fst acc) = snd acc' \<and> (\<forall>a. map_get (snd acc) a \<noteq> None \<longleftrightarrow> a \<in> fst acc')"

lemma same_backends_add:
  "same_backends acc acc' \<Longrightarrow> same_backends (build_add probeHost acc b host) (add_backend acc' b)"
proof -
  assume same: "same_backends acc acc'"
  have self: "(map tgt_Backend ts)[i := tgt_Backend (ts ! i)] = map tgt_Backend ts" for ts and i
    by (metis list_update_id map_update)
  obtain ts seen where acc: "acc = (ts, seen)" by (rule prod.exhaust)
  obtain known bs where acc': "acc' = (known, bs)" by (rule prod.exhaust)
  have "map_get seen a \<noteq> None \<longleftrightarrow> a \<in> known" for a using same by (simp add: same_backends_def acc acc')
  then have iff: "map_get seen (Addr b) = None \<longleftrightarrow> Addr b \<notin> known" by blast
  show ?thesis
  proof (cases "map_get seen (Addr b)")
    case None
    with iff have "Addr b \<notin> known" by simp
    with None same show ?thesis
      by (auto simp: same_backends_def build_add_def add_backend_def Let_def map_get_set acc acc')
  next
    case (Some i)
    with iff have "Addr b \<in> known" by simp
    with Some same show ?thesis
      by (auto simp: same_backends_def build_add_def add_backend_def Let_def map_update self acc acc')
  qed
qed

lemma targets_are_Backends:
  "map tgt_Backend (BuildTargets (RouteBackends cfg) (DefaultBackendConfig cfg) probeHost) = Backends cfg"
proof -
  have fold: "same_backends acc acc' \<Longrightarrow>
      same_backends (foldl (\<lambda>acc route. build_add probeHost acc (RouteBackend route) (route_host route)) acc rs)
        (foldl add_backend acc' (map RouteBackend rs))" for acc acc' rs
    by (induction rs arbitrary: acc acc') (simp_all add: same_backends_add)
  have "same_backends ([], []) ({}, [])" by (simp add: same_backends_def)
  from fold [OF this, of "RouteBackends cfg"] show ?thesis
    using same_backends_add
    by (cases "DefaultBackendConfig cfg") (auto simp: BuildTargets_def Backends_def Let_def same_backends_def)
qed


lemma Backends_invariant:
  "(\<forall>a. a \<in> fst acc \<longleftrightarrow> a \<in> set (map Addr (snd acc))) \<and> distinct (map Addr (snd acc)) \<Longrightarrow>
     (let acc' = add_backend acc b in
      (\<forall>a. a \<in> fst acc' \<longleftrightarrow> a \<in> set (map Addr (snd acc'))) \<and> distinct (map Addr (snd acc'))
      \<and> set (map Addr (snd acc')) = set (map Addr (snd acc)) \<union> ({Addr b} - {''''}))"
  by (cases acc) (auto simp: add_backend_def Let_def)

lemma Backends_addresses:
  "distinct (map Addr (Backends cfg))
   \<and> set (map Addr (Backends cfg)) = (set (map rc_Backend (cfg_Routes cfg)) \<union> {cfg_DefaultBackend cfg}) - {''''}"
proof -
  let ?inv = "\<lambda>acc. (\<forall>a. a \<in> fst acc \<longleftrightarrow> a \<in> set (map Addr (snd acc))) \<and> distinct (map Addr (snd acc))"
  have fold: "?inv acc \<Longrightarrow> ?inv (foldl add_backend acc bs)
      \<and> set (map Addr (snd (foldl add_backend acc bs))) = set (map Addr (snd acc)) \<union> (set (map Addr bs) - {''''})" for acc bs
  proof (induction bs arbitrary: acc)
    case (Cons b bs)
    note step = Backends_invariant [OF Cons.prems, of b, unfolded Let_def]
    have "?inv (add_backend acc b)" by (rule conjI [OF step [THEN conjunct1] step [THEN conjunct2, THEN conjunct1]])
    from Cons.IH [OF this] step show ?case by auto
  qed simp
  let ?acc = "foldl add_backend ({}, []) (map RouteBackend (RouteBackends cfg))"
  have f: "?inv ?acc" "set (map Addr (snd ?acc)) = set (map rc_Backend (cfg_Routes cfg)) - {''''}"
    using fold [of "({}, [])" "map RouteBackend (RouteBackends cfg)"]
    by (auto simp: RouteBackends_def route_of_def image_iff)
  show ?thesis
  proof (cases "cfg_DefaultBackend cfg = ''''")
    case True
    then have "Backends cfg = snd ?acc" by (simp add: Backends_def DefaultBackendConfig_def Let_def)
    with f True show ?thesis by simp
  next
    case False
    let ?def = "\<lparr>Name = cfg_DefaultBackend cfg, Addr = cfg_DefaultBackend cfg, StatusCacheFlag = None\<rparr>"
    have "Backends cfg = snd (add_backend ?acc ?def)"
      using False by (simp add: Backends_def DefaultBackendConfig_def Let_def)
    with f False Backends_invariant [OF f(1), of ?def] show ?thesis by (auto simp: Let_def)
  qed
qed

section \<open>What a started proxy is\<close>

lemma main_start_Inr:
  "main_start read_file unmarshal showVersion path clk answers = Inr sys \<longleftrightarrow>
     \<not> showVersion \<and> (\<exists>cfg logger. LoadFile read_file unmarshal path = Inr cfg \<and> fst (NewLogger (cfg_Logging cfg)) = Inr logger
       \<and> sys = build logger clk answers cfg)"
  by (auto simp: main_start_def split: sum.splits)

lemma build_router: "router (sys_server (build logger clk answers cfg)) = NewStaticRouter (RouteBackends cfg) (DefaultBackendConfig cfg)"
  by (simp add: build_def Let_def NewServerWithGuard_def)

lemma build_targets: "map tgt_Backend (sys_targets (build logger clk answers cfg)) = Backends cfg"
  by (simp add: build_def Let_def targets_are_Backends)

lemma host_names_table:
  "routes_ok (cfg_Routes cfg) \<Longrightarrow> map fst (route_table (RouteBackends cfg)) = host_names (cfg_Routes cfg)"
proof -
  have names: "map fst (route_table (map route_of rs)) = filter (\<lambda>n. n \<noteq> '''') (host_names rs)" for rs
    by (induction rs) (simp_all add: route_table_def host_names_def route_of_def comp_def filter_map)
  assume "routes_ok (cfg_Routes cfg)"
  then have "filter (\<lambda>n. n \<noteq> '''') (host_names (cfg_Routes cfg)) = host_names (cfg_Routes cfg)"
    by (intro filter_True) (auto simp: routes_ok_def)
  with names show ?thesis by (simp add: RouteBackends_def)
qed


lemma Resolve_configured:
  assumes "config_ok cfg" "r \<in> set (cfg_Routes cfg)" "h \<in> set (rc_Hosts r)" "NormalizeHost a = NormalizeHost h"
  shows "Resolve (NewStaticRouter (RouteBackends cfg) (DefaultBackendConfig cfg)) a = Some (RouteBackend (route_of r))"
proof (rule Resolve_unique)
  have ok: "routes_ok (cfg_Routes cfg)" using assms(1) by (simp add: config_ok_def)
  then show "distinct (map fst (route_table (RouteBackends cfg)))" by (simp add: host_names_table) (simp add: routes_ok_def)
  show "route_of r \<in> set (RouteBackends cfg)" "h \<in> set (Hosts (route_of r))"
    using assms(2,3) by (simp_all add: RouteBackends_def route_of_def)
  have "NormalizeHost h \<in> set (host_names (cfg_Routes cfg))" using assms(2,3) by (auto simp: host_names_def)
  then show "NormalizeHost h \<noteq> ''''" using ok by (auto simp: routes_ok_def)
qed (rule assms(4))

lemma Resolve_unconfigured:
  assumes "config_ok cfg" "NormalizeHost a \<notin> set (host_names (cfg_Routes cfg))"
  shows "Resolve (NewStaticRouter (RouteBackends cfg) (DefaultBackendConfig cfg)) a = DefaultBackendConfig cfg"
proof -
  have "map fst (route_table (RouteBackends cfg)) = host_names (cfg_Routes cfg)"
    using assms(1) by (simp add: config_ok_def host_names_table)
  then have "NormalizeHost a \<notin> fst ` set (rev (route_table (RouteBackends cfg)))" using assms(2) by (metis set_map set_rev)
  then have "map_of (rev (route_table (RouteBackends cfg))) (NormalizeHost a) = None" by (rule map_of_eq_None_iff [THEN iffD2])
  then show ?thesis by (simp add: Resolve_NewStaticRouter)
qed

lemma Resolve_is_Backend:
  assumes ok: "config_ok cfg"
    and res: "Resolve (NewStaticRouter (RouteBackends cfg) (DefaultBackendConfig cfg)) a = Some b"
  shows "Addr b \<in> set (map Addr (Backends cfg)) \<and> addr_ok (Addr b)"
proof -
  have "(\<exists>r \<in> set (cfg_Routes cfg). Addr b = rc_Backend r) \<or> cfg_DefaultBackend cfg \<noteq> '''' \<and> Addr b = cfg_DefaultBackend cfg"
  proof (cases "NormalizeHost a \<in> set (host_names (cfg_Routes cfg))")
    case True
    then obtain r h where "r \<in> set (cfg_Routes cfg)" "h \<in> set (rc_Hosts r)" "NormalizeHost a = NormalizeHost h"
      by (auto simp: host_names_def)
    with Resolve_configured [OF ok this] res show ?thesis by (auto simp: route_of_def)
  next
    case False
    from Resolve_unconfigured [OF ok this] res show ?thesis by (auto simp: DefaultBackendConfig_def split: if_splits)
  qed
  moreover have "addr_ok (rc_Backend r)" if "r \<in> set (cfg_Routes cfg)" for r
    using ok that by (simp add: config_ok_def routes_ok_def list_all_iff)
  moreover have "cfg_DefaultBackend cfg \<noteq> '''' \<Longrightarrow> addr_ok (cfg_DefaultBackend cfg)"
    using ok by (simp add: config_ok_def)
  ultimately have good: "addr_ok (Addr b)" "Addr b \<in> set (map rc_Backend (cfg_Routes cfg)) \<union> {cfg_DefaultBackend cfg}"
    by auto
  moreover have "Addr b \<noteq> ''''" using good(1) by auto
  ultimately show ?thesis
    unfolding Backends_addresses [of cfg, THEN conjunct2] by simp
qed

lemma NewChecker_known:
  assumes "t \<in> set tgts" "Addr (tgt_Backend t) \<noteq> ''''"
  shows "map_get (entries (NewChecker opts tgts)) (Addr (tgt_Backend t)) \<noteq> None"
proof -
  have keeps: "map_get m a \<noteq> None \<Longrightarrow> map_get (foldl (add_target ph) m ts) a \<noteq> None" for m ph ts a
    by (induction ts arbitrary: m) (auto simp: add_target_def Let_def map_get_set)
  have "t \<in> set ts \<Longrightarrow> map_get (foldl (add_target ph) m ts) (Addr (tgt_Backend t)) \<noteq> None" for m ph ts
  proof (induction ts arbitrary: m)
    case (Cons t' ts)
    show ?case
    proof (cases "t = t'")
      case True
      have "map_get (add_target ph m t) (Addr (tgt_Backend t)) \<noteq> None"
        using assms(2) by (simp add: add_target_def Let_def)
      with True keeps show ?thesis by simp
    next
      case False
      with Cons show ?thesis by simp
    qed
  qed simp
  then show ?thesis using assms(1) by (simp add: NewChecker_def Let_def)
qed

lemma routed_known:
  assumes "config_ok cfg" "Resolve (NewStaticRouter (RouteBackends cfg) (DefaultBackendConfig cfg)) a = Some b"
  shows "known (NewChecker (health_options_of cfg) (sys_targets (build logger clk answers cfg))) (Addr b)"
proof -
  have b: "Addr b \<in> set (map Addr (Backends cfg))" "Addr b \<noteq> ''''"
    using Resolve_is_Backend [OF assms] by auto
  then have "Addr b \<in> Addr ` tgt_Backend ` set (sys_targets (build logger clk answers cfg))"
    unfolding build_targets [of logger clk answers cfg, symmetric] by (simp add: image_image)
  then obtain t where "t \<in> set (sys_targets (build logger clk answers cfg))" "Addr (tgt_Backend t) = Addr b" by auto
  with b(2) NewChecker_known show ?thesis unfolding known_def by metis
qed

lemma build_world_ok:
  assumes "\<forall>n. 0 < clk n"
  shows "world_ok (sys_world (build logger clk answers cfg))"
proof -
  let ?w = "new_world clk (Some (guard_options_of cfg)) True
    (Some (health_options_of cfg, BuildTargets (RouteBackends cfg) (DefaultBackendConfig cfg) (bh_ProbeHost (cfg_BackendHealth cfg)))) True"
  have "world_ok ?w" using assms by (rule new_world_ok)
  moreover have "pred_option recorder_inv (map_option (SetHealthSource True) (w_metrics ?w))"
    by (simp add: new_world_def recorder_inv_def NewRecorder_def SetHealthSource_def)
  ultimately show ?thesis by (simp add: build_def Let_def world_ok_def w_metric_def clock_ok_def)
qed

section \<open>The running proxy\<close>

text \<open>
  What happens to the started components: clients connect, the operator asks, and the health checker
  checks one target after the other; the three take turns in any order.
\<close>

datatype system_event =
    ClientConnects Session
  | OperatorAsks http_request
  | TargetChecked BackendTarget "go_error option"

definition health_check :: "BackendTarget \<Rightarrow> go_error option \<Rightarrow> World \<Rightarrow> World" where
  "health_check target result w =
     (case w_health w of
        None \<Rightarrow> w
      | Some c \<Rightarrow>
          (let (c, clk) = check_target (\<lambda>_. result) target (c, w_clock w) in w\<lparr>w_health := Some c, w_clock := clk\<rparr>))"

primrec system_step ::
  "Server \<Rightarrow> (http_request \<Rightarrow> World \<Rightarrow> http_response \<times> World) \<Rightarrow> system_event \<Rightarrow> World \<Rightarrow> World" where
  "system_step s mux (ClientConnects x) w = session_step s x w"
| "system_step s mux (OperatorAsks r) w = snd (mux r w)"
| "system_step s mux (TargetChecked target result) w = health_check target result w"

text \<open>The health records are those of a checker that has gone through some results.\<close>

definition health_since :: "Checker \<Rightarrow> World \<Rightarrow> bool" where
  "health_since c w \<longleftrightarrow> (\<exists>ops. w_health w = Some (run health_step ops c))"

lemma health_since_trans: "health_since c w \<Longrightarrow> w_health w' = w_health w \<Longrightarrow> health_since c w'"
  by (simp add: health_since_def)

lemma handleConn_health: "health_since c w \<Longrightarrow> health_since c (handleConn s w)"
proof -
  assume "health_since c w"
  then obtain ops where "w_health w = Some (run health_step ops c)" by (auto simp: health_since_def)
  moreover obtain ops' where "w_health (handle_client s (w_metric IncActiveConnections w))
      = map_option (run health_step ops') (w_health (w_metric IncActiveConnections w))"
    using handle_client_evolves [of "w_metric IncActiveConnections w" s] by (auto simp: evolves_def runs_to_def w_logged_def)
  ultimately have "w_health (handleConn s w) = Some (run health_step (ops @ ops') c)"
    by (simp add: handleConn_def Let_def w_metric_def)
  then show ?thesis unfolding health_since_def by blast
qed

lemma health_check_step:
  assumes "world_ok w" "health_since c w"
  shows "world_ok (health_check target result w) \<and> active (health_check target result w) = active w
    \<and> health_since c (health_check target result w)"
proof -
  obtain ops where h: "w_health w = Some (run health_step ops c)" using assms(2) by (auto simp: health_since_def)
  obtain x clk where step: "check_target (\<lambda>_. result) target (run health_step ops c, w_clock w)
      = (health_step x (run health_step ops c), clk)"
    using check_target_step by blast
  have "\<forall>n. 0 < clk n"
    using step assms(1) by (auto simp: check_target_def Let_def tick_def world_ok_def clock_ok_def split: option.splits)
  moreover have "checker_inv (health_step x (run health_step ops c))"
    using assms(1) h by (intro checker_machine.inv_step) (simp_all add: world_ok_def)
  moreover have "health_check target result w = w\<lparr>w_health := Some (run health_step (ops @ [x]) c), w_clock := clk\<rparr>"
    using step h by (simp add: health_check_def)
  moreover have "health_since c (w\<lparr>w_health := Some (run health_step (ops @ [x]) c), w_clock := clk\<rparr>)"
    unfolding health_since_def by (rule exI [of _ "ops @ [x]"]) simp
  ultimately show ?thesis
    using assms(1) by (simp add: world_ok_def clock_ok_def active_def)
qed

interpretation running: invariant_machine "system_step s (management_mux other time_text opts ready)" "\<lambda>_. True"
    "\<lambda>w. world_ok w \<and> active w = n \<and> health_since c w"
proof unfold_locales
  fix w x
  assume inv: "world_ok w \<and> active w = n \<and> health_since c w"
  show "world_ok (system_step s (management_mux other time_text opts ready) x w)
    \<and> active (system_step s (management_mux other time_text opts ready) x w) = n
    \<and> health_since c (system_step s (management_mux other time_text opts ready) x w)"
  proof (cases x)
    case (ClientConnects y)
    then show ?thesis
      using inv session_active [of w s y] handleConn_health [of c "connect y w" s]
        handleConn_ok [of "connect y w" s]
      by (simp add: session_step_def world_ok_connect) (simp add: connect_def health_since_def)
  next
    case (OperatorAsks r)
    obtain resp w' where run: "management_mux other time_text opts ready r w = (resp, w')" by (rule prod.exhaust)
    show ?thesis
      using OperatorAsks run management_mux_ok [OF run] inv world_eqD(3) [OF management_mux_frame [OF run]]
      by (simp add: health_since_def)
  next
    case (TargetChecked target result)
    then show ?thesis using inv health_check_step [of w c target result] by simp
  qed
qed

section \<open>A concrete configuration\<close>

definition demo_config :: Config where
  "demo_config = Default\<lparr>cfg_Routes := [\<lparr>rc_Hosts = [''mc.example''], rc_Backend = ''10.0.0.1:25565'', rc_StatusCache = None\<rparr>],
     cfg_DefaultBackend := ''10.0.0.2:25565''\<rparr>"

definition demo_unmarshal :: "byte list \<Rightarrow> Config \<Rightarrow> go_error + Config" where
  "demo_unmarshal _ c = Inr (c\<lparr>cfg_Routes := [\<lparr>rc_Hosts = [''mc.example''], rc_Backend = ''10.0.0.1:25565'', rc_StatusCache = None\<rparr>],
     cfg_DefaultBackend := ''10.0.0.2:25565''\<rparr>)"

lemma demo_ApplyDefaults: "ApplyDefaults demo_config = demo_config"
  by (simp add: demo_config_def defaults_defs or_default_def or_default_text_def Default_def
      Minute_def Second_def Millisecond_def)

lemma demo_lowered: "lowered ''info'' = ''info''" "lowered ''text'' = ''text''" "lowered ''stdout'' = ''stdout''"
  by (simp_all add: lowered_def TrimSpace_none_ascii IsSpace_def ToLower_ascii lower_char_def ascii_lower_def char_of_eq_iff)

lemma demo_host: "NormalizeHost ''mc.example'' = ''mc.example''"
proof -
  have "plain_host ''mc.example''" by (simp add: plain_host_def special_chars_def IsSpace_def)
  then show ?thesis
    by (simp add: NormalizeHost_plain ToLower_ascii lower_char_def ascii_lower_def char_of_eq_iff)
qed

lemma demo_config_ok: "config_ok demo_config"
proof -
  have "addr_ok ''10.0.0.1:25565''" "addr_ok ''10.0.0.2:25565''"
    using SplitHostPort_plain [of "''10.0.0.1''" "''25565''"] SplitHostPort_plain [of "''10.0.0.2''" "''25565''"]
    by (simp_all add: addr_ok_def TrimSpace_none_ascii IsSpace_def)
  then show ?thesis
    by (simp add: config_ok_def demo_config_def routes_ok_def host_names_def health_ok_def logging_ok_def Default_def
        demo_lowered demo_host Minute_def Second_def Millisecond_def
        defaultMaxHandshakeSize_def defaultMaxStatusResponseSize_def)
qed

lemma demo_LoadFile: "LoadFile (\<lambda>_. Inr []) demo_unmarshal ''config.yaml'' = Inr demo_config"
proof -
  have "demo_unmarshal [] Default = Inr demo_config" by (simp add: demo_unmarshal_def demo_config_def)
  then show ?thesis unfolding LoadFile_Inr using demo_ApplyDefaults demo_config_ok by auto
qed

lemma demo_main_start:
  obtains sys where "main_start (\<lambda>_. Inr []) demo_unmarshal False ''config.yaml'' demo_clock (\<lambda>_. None) = Inr sys"
proof -
  have "logging_normalize = lowered" by (simp add: fun_eq_iff lowered_def logging_normalize_def)
  then obtain logger where "fst (NewLogger (cfg_Logging demo_config)) = Inr logger"
    by (auto simp: NewLogger_def parseLevel_def writer_def demo_config_def Default_def demo_lowered Let_def)
  then show thesis using that demo_LoadFile by (simp add: main_start_def)
qed

section \<open>Properties\<close>






text \<open>
  C5: The running proxy stays sound: from the start on, whatever clients connect, operators ask and checks find,
  in any order, the shared invariants hold, no connection is counted that is over, and a backend that a
  client can be routed to still has its health record.
\<close>

theorem running_proxy_stays_sound:
  assumes "main_start read_file unmarshal False path clk answers = Inr sys" "\<forall>n. 0 < clk n"
    and "LoadFile read_file unmarshal path = Inr cfg"
    and "w = run (system_step (sys_server sys) (management_mux other time_text (sys_management sys) ready)) events (sys_world sys)"
  shows "world_ok w \<and> active w = Some 0
    \<and> (\<forall>a b. Resolve (router (sys_server sys)) a = Some b \<longrightarrow> (\<exists>c. w_health w = Some c \<and> known c (Addr b)))"
proof -
  obtain logger where sys: "sys = build logger clk answers cfg" using assms(1,3) by (auto simp: main_start_Inr)
  have ok: "config_ok cfg" using assms(3) by (auto simp: LoadFile_Inr)
  let ?c = "NewChecker (health_options_of cfg) (sys_targets sys)"
  have "w_health (sys_world sys) = Some (run health_step [] ?c)"
    by (simp add: sys build_def Let_def new_world_def w_metric_def)
  then have "health_since ?c (sys_world sys)" unfolding health_since_def by blast
  moreover have "active (sys_world sys) = Some 0"
    by (simp add: sys build_def Let_def new_world_def w_metric_def active_def NewRecorder_def SetHealthSource_def)
  moreover have "world_ok (sys_world sys)" using build_world_ok [OF assms(2)] sys by simp
  ultimately have w: "world_ok w \<and> active w = Some 0 \<and> health_since ?c w"
    unfolding assms(4) by (intro running.inv_run) (simp_all add: list_all_iff)
  then obtain ops where h: "w_health w = Some (run health_step ops ?c)" by (auto simp: health_since_def)
  have "known (run health_step ops ?c) (Addr b)" if "Resolve (router (sys_server sys)) a = Some b" for a b
    using routed_known [OF ok] that by (intro known_run) (simp add: sys build_router)
  with w h show ?thesis by blast
qed

theorem running_proxy_stays_sound_witness:
  "\<exists>sys. main_start (\<lambda>_. Inr []) demo_unmarshal False ''config.yaml'' demo_clock (\<lambda>_. None) = Inr sys
     \<and> active (run (system_step (sys_server sys) (management_mux (\<lambda>_. http_Error ''404 page not found'' 404) (\<lambda>_. '''')
           (sys_management sys) (Some True)))
         [ClientConnects (demo_session [1, 2]), TargetChecked \<lparr>tgt_Backend = lobby, tgt_ProbeHost = ''''\<rparr> (Some EOF),
          OperatorAsks \<lparr>req_Method = ''DELETE'', req_Path = ''/fail2ban/bans'', req_Query = [], req_RemoteAddr = ''''\<rparr>]
         (sys_world sys)) = Some 0"
proof -
  obtain sys where sys: "main_start (\<lambda>_. Inr []) demo_unmarshal False ''config.yaml'' demo_clock (\<lambda>_. None) = Inr sys"
    by (rule demo_main_start)
  have clk: "\<forall>n. 0 < demo_clock n" by (simp add: demo_clock_def)
  from running_proxy_stays_sound [OF sys clk demo_LoadFile refl] sys show ?thesis by blast
qed

end
