(* ===== verification/Probe.thy ===== *)
theory Probe
  imports Status JsonTree Health "HOL-Library.Sublist"
begin

text \<open>
  \<^verbatim>\<open>internal/probe/probe.go\<close>, the status exchange from the client's side, with which the health checks
  look at a backend: \<open>ProbeCheck\<close> of \<^verbatim>\<open>internal/health/checker.go\<close> is here too.  The network's
  answer to the dial is an argument; the deadline is part of the connection's reader.  The decoder's
  floating point is two arguments: which numbers are a \<^verbatim>\<open>float64\<close>, and how one is printed.
\<close>

section \<open>Definitions\<close>

record ProbeOptions =
  po_Addr :: string
  po_Host :: string
  po_Port :: uint16
  po_ProtocolVersion :: int32
  po_Timeout :: Duration
  po_MaxResponseSize :: int

record ProbeResult =
  pr_Addr :: string
  pr_Host :: string
  pr_Protocol :: int32
  pr_DurationMS :: int
  pr_Version :: "(string \<times> json) list option"
  pr_Players :: "(string \<times> json) list option"
  pr_Description :: string
  pr_RawJSONLength :: int

record floats =
  float_ok :: "string \<Rightarrow> bool"
  float_sprint :: "string \<Rightarrow> string"
  float_marshal :: "string \<Rightarrow> string"

subsection \<open>The description\<close>

text \<open>A \<^verbatim>\<open>nil\<close> is \<open>JNull\<close>; a value without any text is printed as JSON.\<close>

fun flattenDescription :: "floats \<Rightarrow> json \<Rightarrow> string" where
  "flattenDescription fl JNull = ''''"
| "flattenDescription fl (JString s) = s"
| "flattenDescription fl (JArray vs) = concat (map (flattenDescription fl) vs)"
| "flattenDescription fl (JObject ms) =
     (let texts = map (\<lambda>(k, v). (k, v, flattenDescription fl v)) ms;
          text = (case map_of (rev texts) ''text'' of Some (JString s, _) \<Rightarrow> s | _ \<Rightarrow> '''');
          extra = (case map_of (rev texts) ''extra'' of Some (_, t) \<Rightarrow> t | None \<Rightarrow> '''');
          out = text @ extra
      in if out \<noteq> '''' then out else json_encode (any_encodable (float_marshal fl) (JObject ms)))"
| "flattenDescription fl (JBool b) = FormatBool b"
| "flattenDescription fl (JNumber n) = float_sprint fl n"

subsection \<open>Decoding the document\<close>

record status_root =
  root_Version :: "(string \<times> json) list option"
  root_Players :: "(string \<times> json) list option"
  root_Description :: json
  root_error :: "go_error option"

definition unmarshal_error :: go_error where
  "unmarshal_error = Errorf ''json: cannot unmarshal''"

text \<open>An error in a member is remembered, the first one, and the decoding goes on.\<close>

definition note_error :: "bool \<Rightarrow> status_root \<Rightarrow> status_root" where
  "note_error bad root =
     (if bad \<and> root_error root = None then root\<lparr>root_error := Some unmarshal_error\<rparr> else root)"

text \<open>A value decoded into a map that may hold members already.\<close>

definition decode_map ::
  "floats \<Rightarrow> json \<Rightarrow> (string \<times> json) list option \<Rightarrow> (string \<times> json) list option \<times> bool" where
  "decode_map fl v old =
     (case v of
        JNull \<Rightarrow> (None, False)
      | JObject ms \<Rightarrow>
          (Some ((case old of Some ms0 \<Rightarrow> ms0 | None \<Rightarrow> []) @ ms), \<not> list_all (float_ok fl) (numbers v))
      | _ \<Rightarrow> (old, True))"

definition decode_member :: "floats \<Rightarrow> status_root \<Rightarrow> string \<times> string \<Rightarrow> status_root" where
  "decode_member fl root member =
     (let (name, raw) = member;
          v = json_decode (maxNestingDepth - 1) raw
      in if selects name ''version'' then
           (let (ms, bad) = decode_map fl v (root_Version root) in note_error bad (root\<lparr>root_Version := ms\<rparr>))
         else if selects name ''players'' then
           (let (ms, bad) = decode_map fl v (root_Players root) in note_error bad (root\<lparr>root_Players := ms\<rparr>))
         else if selects name ''description'' then
           note_error (\<not> list_all (float_ok fl) (numbers v)) (root\<lparr>root_Description := v\<rparr>)
         else root)"

definition empty_root :: status_root where
  "empty_root = \<lparr>root_Version = None, root_Players = None, root_Description = JNull, root_error = None\<rparr>"

definition Unmarshal_root :: "floats \<Rightarrow> string \<Rightarrow> go_error + status_root" where
  "Unmarshal_root fl raw =
     (case Unmarshal_raw_map raw of
        None \<Rightarrow> Inl unmarshal_error
      | Some ms \<Rightarrow>
          (let root = foldl (decode_member fl) empty_root ms
           in case root_error root of Some err \<Rightarrow> Inl err | None \<Rightarrow> Inr root))"

definition empty_result :: ProbeResult where
  "empty_result = \<lparr>pr_Addr = '''', pr_Host = '''', pr_Protocol = 0, pr_DurationMS = 0, pr_Version = None,
     pr_Players = None, pr_Description = '''', pr_RawJSONLength = 0\<rparr>"

definition parseStatus :: "floats \<Rightarrow> string \<Rightarrow> go_error + ProbeResult" where
  "parseStatus fl raw =
     (case Unmarshal_root fl raw of
        Inl err \<Rightarrow> Inl (Wrapf ''parse status json'' err)
      | Inr root \<Rightarrow>
          Inr (empty_result\<lparr>pr_Version := root_Version root, pr_Players := root_Players root,
                            pr_Description := flattenDescription fl (root_Description root)\<rparr>))"

subsection \<open>The exchange\<close>

definition probe_defaults :: "ProbeOptions \<Rightarrow> ProbeOptions" where
  "probe_defaults o1 =
     (let o1 = (if po_Port o1 = 0 then o1\<lparr>po_Port := 25565\<rparr> else o1);
          o1 = (if po_ProtocolVersion o1 = 0 then o1\<lparr>po_ProtocolVersion := DefaultProtocolVersion\<rparr> else o1);
          o1 = (if po_Timeout o1 = 0 then o1\<lparr>po_Timeout := 5 * Second\<rparr> else o1);
          o1 = (if po_Addr o1 = '''' then o1\<lparr>po_Addr := JoinHostPort (po_Host o1) (show_nat (unat (po_Port o1)))\<rparr> else o1)
      in if po_MaxResponseSize o1 = 0 then o1\<lparr>po_MaxResponseSize := MaxPacketLength\<rparr> else o1)"

definition Milliseconds :: "Duration \<Rightarrow> int" where
  "Milliseconds d = (if 0 \<le> d then d div Millisecond else - (- d div Millisecond))"

definition probe_conn_ReadPacket :: "conn \<Rightarrow> int \<Rightarrow> (go_error + Packet) \<times> conn" where
  "probe_conn_ReadPacket c maxLen = (let (res, r) = ReadPacket (inp c) maxLen in (res, c\<lparr>inp := r\<rparr>))"

text \<open>What happens on the connection until the document is there.\<close>

definition probe_exchange :: "ProbeOptions \<Rightarrow> conn \<Rightarrow> (go_error + string) \<times> conn" where
  "probe_exchange o1 c =
     (case WritePacket c (BuildHandshake (po_ProtocolVersion o1) (po_Host o1) (po_Port o1) NextStateStatus) of
        (Some err, c) \<Rightarrow> (Inl (Wrapf ''write handshake'' err), c)
      | (None, c) \<Rightarrow>
          (case WritePacket c (NewPacket StatusRequestPacketID []) of
             (Some err, c) \<Rightarrow> (Inl (Wrapf ''write status request'' err), c)
           | (None, c) \<Rightarrow>
               (case probe_conn_ReadPacket c (po_MaxResponseSize o1) of
                  (Inl err, c) \<Rightarrow> (Inl (Wrapf ''read status response'' err), c)
                | (Inr response, c) \<Rightarrow> (ParseStatusJSON response, c))))"

text \<open>\<open>start\<close> and \<open>stop\<close> are the readings of the clock; the connection, if there was one, is returned closed.\<close>

definition Run ::
  "floats \<Rightarrow> (string \<Rightarrow> go_error + conn) \<Rightarrow> Time \<Rightarrow> Time \<Rightarrow> ProbeOptions \<Rightarrow> (go_error + ProbeResult) \<times> conn option" where
  "Run fl dial start stop o1 =
     (if TrimSpace (po_Host o1) = '''' then (Inl (Errorf ''host is required''), None)
      else (let o1 = probe_defaults o1 in
        case dial (po_Addr o1) of
          Inl err \<Rightarrow> (Inl (Wrapf ''connect'' err), None)
        | Inr c \<Rightarrow>
            (let (res, c) = probe_exchange o1 c in
             (case res of
                Inl err \<Rightarrow> Inl err
              | Inr statusJSON \<Rightarrow>
                  (case parseStatus fl statusJSON of
                     Inl err \<Rightarrow> Inl err
                   | Inr parsed \<Rightarrow>
                       Inr (parsed\<lparr>pr_Addr := po_Addr o1, pr_Host := po_Host o1, pr_Protocol := po_ProtocolVersion o1,
                                   pr_DurationMS := Milliseconds (Sub stop start),
                                   pr_RawJSONLength := int (length statusJSON)\<rparr>)),
              Some (Close c)))))"

text \<open>\<^verbatim>\<open>ProbeCheck\<close>: the check of a backend that the health checker uses by default.\<close>

definition ProbeCheck ::
  "floats \<Rightarrow> (string \<Rightarrow> go_error + conn) \<Rightarrow> Time \<Rightarrow> Time \<Rightarrow> HealthOptions \<Rightarrow> BackendTarget \<Rightarrow> go_error option" where
  "ProbeCheck fl dial start stop opts target =
     (case fst (Run fl dial start stop
        \<lparr>po_Addr = Addr (tgt_Backend target), po_Host = tgt_ProbeHost target, po_Port = 25565,
         po_ProtocolVersion = ProbeProtocol opts, po_Timeout = Timeout opts, po_MaxResponseSize = 0\<rparr>) of
        Inl err \<Rightarrow> Some err
      | Inr _ \<Rightarrow> None)"


section \<open>Lemmas\<close>

definition probe_request :: "ProbeOptions \<Rightarrow> byte list" where
  "probe_request o1 = Raw (BuildHandshake (po_ProtocolVersion o1) (po_Host o1) (po_Port o1) NextStateStatus)
     @ Raw (NewPacket StatusRequestPacketID [])"

lemma WritePacket_Build: "WritePacket c (BuildHandshake v host port st) = Write (Raw (BuildHandshake v host port st)) c"
  by (simp add: BuildHandshake_def)

text \<open>Whatever happens, the probe writes its two packets, or a beginning of them, and nothing else.\<close>

lemma probe_exchange_out:
  assumes "probe_exchange o1 c = (res, c')"
  shows "\<exists>bs. outp c' = outp c @ bs \<and> prefix bs (probe_request o1)"
proof -
  let ?hs = "Raw (BuildHandshake (po_ProtocolVersion o1) (po_Host o1) (po_Port o1) NextStateStatus)"
  let ?sr = "Raw (NewPacket StatusRequestPacketID [])"
  obtain e1 c1 where c1: "Write ?hs c = (e1, c1)" by fastforce
  obtain e2 c2 where c2: "Write ?sr c1 = (e2, c2)" by fastforce
  obtain r3 c3 where c3: "probe_conn_ReadPacket c2 (po_MaxResponseSize o1) = (r3, c3)" by fastforce
  have read: "outp c3 = outp c2" using c3 by (auto simp: probe_conn_ReadPacket_def split: prod.splits)
  obtain n where n: "outp c1 = outp c @ take n ?hs" using Write_prefix [of ?hs c] c1 by auto
  obtain m where m: "outp c2 = outp c1 @ take m ?sr" using Write_prefix [of ?sr c1] c2 by auto
  consider "c' = c1" | "e1 = None" "outp c' = outp c2"
    using assms c1 c2 c3 read unfolding probe_exchange_def WritePacket_Build WritePacket_NewPacket
    by (cases e1; cases e2; cases r3) auto
  then show ?thesis
  proof cases
    case 1
    have "prefix (take n ?hs) (probe_request o1)"
      unfolding probe_request_def by (rule prefix_prefix [OF take_is_prefix])
    with n 1 show ?thesis by blast
  next
    case 2
    then have "outp c1 = outp c @ ?hs" using Write_ok [of ?hs c c1] c1 by simp
    then have "outp c' = outp c @ ?hs @ take m ?sr" using m 2 by simp
    moreover have "prefix (?hs @ take m ?sr) (probe_request o1)"
      unfolding probe_request_def by (simp add: take_is_prefix)
    ultimately show ?thesis by blast
  qed
qed

lemma BuildStatusResponse_wire:
  "length json < 2 ^ 30 \<Longrightarrow> packet_on_wire (BuildStatusResponse json)"
  using length_Payload_NewPacket [of StatusResponsePacketID "EncodeString json"] length_EncodeString [of json]
  unfolding BuildStatusResponse_def by (intro NewPacket_wire) (simp add: MaxVarIntBytes_def)

text \<open>A backend that answers with a document.\<close>

lemma probe_exchange_answered:
  assumes "\<not> closed c" "write_script c = []" "inp c = \<lparr>pending = Raw (BuildStatusResponse json) @ rest, at_end = e\<rparr>"
    and "wire_string 32767 json" "json \<noteq> []" "length json < 2 ^ 30"
    and "int (length (Payload (BuildStatusResponse json))) \<le> po_MaxResponseSize o1"
  shows "probe_exchange o1 c = (Inr json, c\<lparr>outp := outp c @ probe_request o1, inp := \<lparr>pending = rest, at_end = e\<rparr>\<rparr>)"
  using assms ReadPacket_wire [OF BuildStatusResponse_wire [OF assms(6)] assms(7)] ParseStatusJSON_Build [OF assms(4,5)]
  unfolding probe_exchange_def WritePacket_Build WritePacket_NewPacket
  by (simp add: probe_conn_ReadPacket_def probe_request_def)

section \<open>Properties\<close>

text \<open>
  C33: A probe leaves nothing behind and says only what it should: on every path the connection is closed,
  and what was written to it is a beginning of one handshake and one status request; when the backend
  answers with a document, both were written completely and the result is what the document
  says, with its length.
\<close>

theorem probe_exchange_is_clean:
  assumes "Run fl dial start stop o1 = (res, conn)"
  shows "(\<forall>c'. conn = Some c' \<longrightarrow> closed c' \<and> (\<exists>c bs. dial (po_Addr (probe_defaults o1)) = Inr c \<and>
            outp c' = outp c @ bs \<and> prefix bs (probe_request (probe_defaults o1))))
    \<and> (dial (po_Addr (probe_defaults o1)) = Inr c \<and> TrimSpace (po_Host o1) \<noteq> '''' \<and> \<not> closed c \<and> write_script c = []
        \<and> inp c = \<lparr>pending = Raw (BuildStatusResponse json) @ rest, at_end = e\<rparr> \<and> wire_string 32767 json \<and> json \<noteq> []
        \<and> length json < 2 ^ 30
        \<and> int (length (Payload (BuildStatusResponse json))) \<le> po_MaxResponseSize (probe_defaults o1) \<longrightarrow>
        map_option outp conn = Some (outp c @ probe_request (probe_defaults o1))
        \<and> map_sum id (\<lambda>r. (pr_Version r, pr_Players r, pr_Description r, pr_RawJSONLength r)) res
          = map_sum id (\<lambda>r. (pr_Version r, pr_Players r, pr_Description r, int (length json))) (parseStatus fl json))"
proof (intro conjI allI impI)
  fix c' assume "conn = Some c'"
  with assms obtain c r c1 where c: "dial (po_Addr (probe_defaults o1)) = Inr c"
    "probe_exchange (probe_defaults o1) c = (r, c1)" "c' = Close c1"
    by (auto simp: Run_def Let_def split: if_splits sum.splits prod.splits)
  with probe_exchange_out [OF c(2)] show "closed c'"
    "\<exists>c bs. dial (po_Addr (probe_defaults o1)) = Inr c \<and> outp c' = outp c @ bs \<and> prefix bs (probe_request (probe_defaults o1))"
    by (auto simp: Close_def)
next
  assume "dial (po_Addr (probe_defaults o1)) = Inr c \<and> TrimSpace (po_Host o1) \<noteq> '''' \<and> \<not> closed c \<and> write_script c = []
        \<and> inp c = \<lparr>pending = Raw (BuildStatusResponse json) @ rest, at_end = e\<rparr> \<and> wire_string 32767 json \<and> json \<noteq> []
        \<and> length json < 2 ^ 30
        \<and> int (length (Payload (BuildStatusResponse json))) \<le> po_MaxResponseSize (probe_defaults o1)"
  then have run: "Run fl dial start stop o1 =
      (case parseStatus fl json of Inl err \<Rightarrow> Inl err | Inr parsed \<Rightarrow>
         Inr (parsed\<lparr>pr_Addr := po_Addr (probe_defaults o1), pr_Host := po_Host (probe_defaults o1),
           pr_Protocol := po_ProtocolVersion (probe_defaults o1), pr_DurationMS := Milliseconds (Sub stop start),
           pr_RawJSONLength := int (length json)\<rparr>),
       Some (Close (c\<lparr>outp := outp c @ probe_request (probe_defaults o1), inp := \<lparr>pending = rest, at_end = e\<rparr>\<rparr>)))"
    using probe_exchange_answered [of c json rest e "probe_defaults o1"] by (simp add: Run_def Let_def)
  show "map_option outp conn = Some (outp c @ probe_request (probe_defaults o1))"
    using assms run by (auto simp: Close_def)
  have "res = fst (Run fl dial start stop o1)" using assms by simp
  then show "map_sum id (\<lambda>r. (pr_Version r, pr_Players r, pr_Description r, pr_RawJSONLength r)) res
          = map_sum id (\<lambda>r. (pr_Version r, pr_Players r, pr_Description r, int (length json))) (parseStatus fl json)"
    unfolding run by (cases "parseStatus fl json") simp_all
qed


text \<open>A backend that answers with a document, and closes.\<close>

theorem probe_exchange_is_clean_witness:
  "let opts = \<lparr>po_Addr = ''10.0.0.1:25565'', po_Host = ''mc.example'', po_Port = 0, po_ProtocolVersion = 0, po_Timeout = 0,
         po_MaxResponseSize = 0\<rparr>;
       c = new_conn (Raw (BuildStatusResponse ''[]'')) EOF [] ''10.0.0.1:25565''
   in map_option outp (snd (Run \<lparr>float_ok = \<lambda>_. True, float_sprint = id, float_marshal = id\<rparr> (\<lambda>_. Inr c) 0 5 opts))
      = Some (probe_request (probe_defaults opts))"
proof -
  let ?opts = "\<lparr>po_Addr = ''10.0.0.1:25565'', po_Host = ''mc.example'', po_Port = 0, po_ProtocolVersion = 0, po_Timeout = 0,
         po_MaxResponseSize = 0\<rparr>"
  let ?c = "new_conn (Raw (BuildStatusResponse ''[]'')) EOF [] ''10.0.0.1:25565''"
  obtain res conn where run: "Run \<lparr>float_ok = \<lambda>_. True, float_sprint = id, float_marshal = id\<rparr> (\<lambda>_. Inr ?c) 0 5 ?opts = (res, conn)"
    by (rule prod.exhaust)
  have "int (length (Payload (BuildStatusResponse ''[]''))) \<le> po_MaxResponseSize (probe_defaults ?opts)"
    using length_Payload_NewPacket [of StatusResponsePacketID "EncodeString ''[]''"] length_EncodeString [of "''[]''"]
    by (simp add: BuildStatusResponse_def probe_defaults_def Let_def MaxPacketLength_def MaxVarIntBytes_def)
  moreover have "TrimSpace (po_Host ?opts) \<noteq> ''''" by (simp add: TrimSpace_none_ascii IsSpace_def)
  moreover have "wire_string 32767 ''[]''" by (simp add: wire_string_ascii)
  ultimately have "map_option outp conn = Some (outp ?c @ probe_request (probe_defaults ?opts))"
    using probe_exchange_is_clean [OF run, of ?c "''[]''" "[]" EOF] by (simp add: new_conn_def)
  then show ?thesis unfolding Let_def run by (simp add: new_conn_def)
qed

end
