(* ===== verification/ProbeCommand.thy ===== *)
theory ProbeCommand
  imports Probe JsonDecode
begin

text \<open>
  \<^verbatim>\<open>cmd/ciallo-probe/main.go\<close>: the probe as a command.  What it was asked is the values of its flags
  (\<^verbatim>\<open>uint\<close> and \<^verbatim>\<open>int\<close> have 64 bits); what it does is what it writes to its two outputs and the
  status it exits with.
\<close>

section \<open>Definitions\<close>

record ProbeFlags =
  pf_addr :: string
  pf_host :: string
  pf_port :: "64 word"
  pf_protocol :: "64 word"
  pf_timeout :: Duration
  pf_json :: bool

text \<open>The flags of a command line without any.\<close>

definition default_flags :: ProbeFlags where
  "default_flags = \<lparr>pf_addr = '''', pf_host = '''', pf_port = 25565, pf_protocol = scast DefaultProtocolVersion,
     pf_timeout = 5 * Second, pf_json = False\<rparr>"

definition probe_options :: "ProbeFlags \<Rightarrow> ProbeOptions" where
  "probe_options flags =
     \<lparr>po_Addr = pf_addr flags, po_Host = pf_host flags, po_Port = ucast (pf_port flags),
      po_ProtocolVersion = ucast (pf_protocol flags), po_Timeout = pf_timeout flags, po_MaxResponseSize = 0\<rparr>"

subsection \<open>What is written\<close>

text \<open>The JSON form of a \<^verbatim>\<open>probe.Result\<close>; a map and the description are left out when they are empty.\<close>

definition map_member :: "floats \<Rightarrow> string \<Rightarrow> (string \<times> json) list option \<Rightarrow> (string \<times> json) list" where
  "map_member fl name m =
     (case m of
        None \<Rightarrow> []
      | Some [] \<Rightarrow> []
      | Some (x # ms) \<Rightarrow> [(name, any_encodable (float_marshal fl) (JObject (x # ms)))])"

definition result_json :: "floats \<Rightarrow> ProbeResult \<Rightarrow> json" where
  "result_json fl r =
     JObject ([(''addr'', JString (pr_Addr r)), (''host'', JString (pr_Host r)),
       (''protocol'', int_json (sint (pr_Protocol r))), (''duration_ms'', int_json (pr_DurationMS r))]
       @ map_member fl ''version'' (pr_Version r) @ map_member fl ''players'' (pr_Players r)
       @ (if pr_Description r = '''' then [] else [(''description'', JString (pr_Description r))])
       @ [(''raw_json_length'', int_json (pr_RawJSONLength r))])"

text \<open>A decoded value under the verb \<^verbatim>\<open>%v\<close> of \<^verbatim>\<open>fmt\<close>, which prints maps with their keys in order.\<close>

fun fmt_v :: "floats \<Rightarrow> json \<Rightarrow> string" where
  "fmt_v fl JNull = ''<nil>''"
| "fmt_v fl (JBool b) = FormatBool b"
| "fmt_v fl (JNumber n) = float_sprint fl n"
| "fmt_v fl (JString s) = s"
| "fmt_v fl (JArray vs) = ''['' @ join_with '' '' (map (fmt_v fl) vs) @ '']''"
| "fmt_v fl (JObject ms) =
     ''map['' @ join_with '' '' (map (\<lambda>(k, t). k @ '':'' @ t) (last_of_each (map (\<lambda>(k, v). (k, fmt_v fl v)) ms))) @ '']''"

definition map_line :: "floats \<Rightarrow> string \<Rightarrow> (string \<times> json) list option \<Rightarrow> string" where
  "map_line fl name m =
     (case m of
        None \<Rightarrow> ''''
      | Some [] \<Rightarrow> ''''
      | Some (x # ms) \<Rightarrow> name @ '': '' @ fmt_v fl (JObject (x # ms)) @ newline)"

definition result_text :: "floats \<Rightarrow> ProbeResult \<Rightarrow> string" where
  "result_text fl r =
     ''host: '' @ pr_Host r @ newline
     @ ''addr: '' @ pr_Addr r @ newline
     @ ''protocol: '' @ show_int (sint (pr_Protocol r)) @ newline
     @ ''duration_ms: '' @ show_int (pr_DurationMS r) @ newline
     @ map_line fl ''version'' (pr_Version r)
     @ map_line fl ''players'' (pr_Players r)
     @ ''description: '' @ pr_Description r @ newline"

subsection \<open>The command\<close>

record ProbeOutcome =
  out_stdout :: string
  out_stderr :: string
  out_status :: nat

definition error_json :: "ProbeFlags \<Rightarrow> go_error \<Rightarrow> json" where
  "error_json flags err =
     JObject [(''addr'', JString (pf_addr flags)), (''error'', JString (Error err)),
       (''host'', JString (pf_host flags)), (''ok'', JBool False)]"

definition probe_main ::
  "floats \<Rightarrow> (string \<Rightarrow> go_error + conn) \<Rightarrow> Time \<Rightarrow> Time \<Rightarrow> ProbeFlags \<Rightarrow> ProbeOutcome" where
  "probe_main fl dial start stop flags =
     (case fst (Run fl dial start stop (probe_options flags)) of
        Inl err \<Rightarrow>
          (if pf_json flags
           then \<lparr>out_stdout = json_encode (error_json flags err) @ newline, out_stderr = '''', out_status = 1\<rparr>
           else \<lparr>out_stdout = '''', out_stderr = ''probe failed: '' @ Error err @ newline, out_status = 1\<rparr>)
      | Inr result \<Rightarrow>
          (if pf_json flags
           then \<lparr>out_stdout = json_encode (JObject [(''ok'', JBool True), (''result'', result_json fl result)]) @ newline,
                 out_stderr = '''', out_status = 0\<rparr>
           else \<lparr>out_stdout = result_text fl result, out_stderr = '''', out_status = 0\<rparr>))"

section \<open>Lemmas\<close>

text \<open>
  What is relied on of the encoder's rendering of numbers: a number that is a \<^verbatim>\<open>float64\<close> is written
  as a numeral.
\<close>

definition floats_ok :: "floats \<Rightarrow> bool" where
  "floats_ok fl \<longleftrightarrow> (\<forall>n. numeral_text n \<and> float_ok fl n \<longrightarrow> numeral_text (float_marshal fl n))"

definition writable :: "floats \<Rightarrow> (string \<times> json) list option \<Rightarrow> bool" where
  "writable fl m \<longleftrightarrow>
     (\<forall>ms. m = Some ms \<longrightarrow> (\<forall>(k, v) \<in> set ms. encodable (maxNestingDepth - 2) (any_encodable (float_marshal fl) v)))"

lemma decode_map_writable:
  assumes "floats_ok fl" "json_skip (maxNestingDepth - 1) raw = Some []" "writable fl old"
    and "decode_map fl (json_decode (maxNestingDepth - 1) raw) old = (m, False)"
  shows "writable fl m"
proof (cases "json_decode (maxNestingDepth - 1) raw")
  case (JObject ms)
  with assms(4) have ok: "\<forall>n \<in> set (numbers (JObject ms)). float_ok fl n"
    and m: "m = Some ((case old of Some ms0 \<Rightarrow> ms0 | None \<Rightarrow> []) @ ms)"
    by (simp_all add: decode_map_def list_all_iff del: numbers.simps)
  have "\<forall>(k, v) \<in> set ms. encodable (maxNestingDepth - 1 - 1) (any_encodable (float_marshal fl) v)"
    using decode_any_object [OF assms(2) JObject [unfolded json_decode_def], where number = "float_marshal fl"] ok assms(1)
    unfolding floats_ok_def by blast
  moreover have "maxNestingDepth - 1 - 1 = maxNestingDepth - 2" by simp
  ultimately show ?thesis using assms(3) unfolding m writable_def by (auto split: option.splits)
qed (use assms in \<open>auto simp: decode_map_def writable_def\<close>)

text \<open>As long as no error is noted, what has been decoded can be written.\<close>

lemma decode_member_writable:
  assumes "floats_ok fl" "json_skip (maxNestingDepth - 1) (snd member) = Some []"
    and "root_error root = None \<Longrightarrow> writable fl (root_Version root) \<and> writable fl (root_Players root)"
    and "root_error (decode_member fl root member) = None"
  shows "writable fl (root_Version (decode_member fl root member)) \<and> writable fl (root_Players (decode_member fl root member))"
proof -
  obtain name raw where member: "member = (name, raw)" by (rule prod.exhaust)
  have noted: "root_error (note_error bad r) = None \<Longrightarrow> \<not> bad \<and> root_error r = None \<and> note_error bad r = r" for bad r
    by (auto simp: note_error_def split: if_splits)
  have skip: "json_skip (maxNestingDepth - 1) raw = Some []" using assms(2) by (simp add: member)
  obtain ms1 bad1 where d1: "decode_map fl (json_decode (maxNestingDepth - 1) raw) (root_Version root) = (ms1, bad1)" by fastforce
  obtain ms2 bad2 where d2: "decode_map fl (json_decode (maxNestingDepth - 1) raw) (root_Players root) = (ms2, bad2)" by fastforce
  show ?thesis
    using assms(3,4) d1 d2 decode_map_writable [OF assms(1) skip]
    by (auto simp: decode_member_def member Let_def split: if_splits dest!: noted)
qed

lemma parseStatus_writable:
  assumes "floats_ok fl" "parseStatus fl raw = Inr r"
  shows "writable fl (pr_Version r) \<and> writable fl (pr_Players r)"
proof -
  from assms(2) obtain ms root where ms: "Unmarshal_raw_map raw = Some ms"
    and root: "root = foldl (decode_member fl) empty_root ms" "root_error root = None"
      "pr_Version r = root_Version root" "pr_Players r = root_Players root"
    by (auto simp: parseStatus_def Unmarshal_root_def Let_def split: sum.splits option.splits)
  have raw: "\<forall>m \<in> set ms. json_skip (maxNestingDepth - 1) (snd m) = Some []"
    using ms members_raw by (auto simp: Unmarshal_raw_map_def Let_def split: if_splits) 
  have "(root_error acc = None \<longrightarrow> writable fl (root_Version acc) \<and> writable fl (root_Players acc)) \<Longrightarrow>
      \<forall>m \<in> set xs. json_skip (maxNestingDepth - 1) (snd m) = Some [] \<Longrightarrow>
      root_error (foldl (decode_member fl) acc xs) = None \<Longrightarrow>
      writable fl (root_Version (foldl (decode_member fl) acc xs)) \<and> writable fl (root_Players (foldl (decode_member fl) acc xs))"
    for acc xs
  proof (induction xs arbitrary: acc)
    case (Cons x xs)
    show ?case using Cons.IH [of "decode_member fl acc x"] Cons.prems decode_member_writable [OF assms(1), of x acc] by simp
  qed simp
  from this [of empty_root ms] raw root show ?thesis by (simp add: empty_root_def writable_def)
qed

lemma Run_writable:
  assumes "floats_ok fl" "fst (Run fl dial start stop o1) = Inr r"
  shows "writable fl (pr_Version r) \<and> writable fl (pr_Players r)"
proof -
  from assms(2) obtain raw p where "parseStatus fl raw = Inr p" "pr_Version r = pr_Version p" "pr_Players r = pr_Players p"
    by (auto simp: Run_def Let_def split: if_splits sum.splits prod.splits)
  with parseStatus_writable [OF assms(1)] show ?thesis by metis
qed


lemma map_member_encodable:
  "writable fl m \<Longrightarrow> list_all (\<lambda>(k, v). encodable (maxNestingDepth - 1) v) (map_member fl name m)"
  unfolding map_member_def
  by (auto simp: writable_def simp del: any_encodable.simps split: option.splits list.splits
      intro!: encodable_members simp: maxNestingDepth_def)

lemma result_json_encodable:
  assumes "writable fl (pr_Version r)" "writable fl (pr_Players r)"
  shows "encodable maxNestingDepth (result_json fl r)"
proof -
  have "0 < maxNestingDepth" by (simp add: maxNestingDepth_def)
  then show ?thesis
    using map_member_encodable [OF assms(1), of "''version''"] map_member_encodable [OF assms(2), of "''players''"]
    by (simp add: result_json_def)
qed

text \<open>The document of the command.\<close>

definition report :: "floats \<Rightarrow> ProbeFlags \<Rightarrow> go_error + ProbeResult \<Rightarrow> json" where
  "report fl flags res =
     (case res of
        Inl err \<Rightarrow> error_json flags err
      | Inr result \<Rightarrow> JObject [(''ok'', JBool True), (''result'', result_json fl result)])"

lemma report_encodable:
  assumes "floats_ok fl"
  shows "encodable (Suc maxNestingDepth) (report fl flags (fst (Run fl dial start stop o1)))"
proof (cases "fst (Run fl dial start stop o1)")
  case (Inr r)
  then show ?thesis using Run_writable [OF assms Inr] by (simp add: report_def result_json_encodable)
qed (simp add: report_def error_json_def)

lemma report_stdout:
  "pf_json flags \<Longrightarrow> out_stdout (probe_main fl dial start stop flags)
     = json_encode (report fl flags (fst (Run fl dial start stop (probe_options flags)))) @ newline"
  by (simp add: probe_main_def report_def split: sum.splits)

section \<open>Properties\<close>

text \<open>
  C32: The command says how the probe ended, whatever the server answered: the exit status is 0 exactly
  when the probe succeeded.  With JSON output nothing goes to the error output, and the output is one line with one
  JSON document, which a reader decodes to an object whose member \<^verbatim>\<open>ok\<close> agrees with the exit status, with
  the result or the text of the error beside it; without it a failure is one line on the error output only.
\<close>

theorem probe_command_reports:
  assumes "floats_ok fl"
    and "fst (Run fl dial start stop (probe_options flags)) = res" "probe_main fl dial start stop flags = out"
  shows "out_status out = (case res of Inl _ \<Rightarrow> 1 | Inr _ \<Rightarrow> 0)
    \<and> (pf_json flags \<longrightarrow> out_stderr out = '''' \<and> (\<exists>line ms. out_stdout out = line @ newline \<and> CHR 0x0A \<notin> set line
        \<and> json_skip (Suc maxNestingDepth) line = Some [] \<and> json_decode (Suc maxNestingDepth) line = JObject ms
        \<and> map_of ms ''ok'' = Some (JBool (out_status out = 0))
        \<and> (case res of Inl err \<Rightarrow> map_of ms ''error'' = Some (JString (to_valid (Error err)))
            | Inr r \<Rightarrow> map_of ms ''result'' = Some (clean (result_json fl r)))))
    \<and> (\<not> pf_json flags \<longrightarrow> (case res of
          Inl err \<Rightarrow> out_stdout out = '''' \<and> out_stderr out = ''probe failed: '' @ Error err @ newline
        | Inr r \<Rightarrow> out_stdout out = result_text fl r \<and> out_stderr out = ''''))"
proof (intro conjI impI)
  show status: "out_status out = (case res of Inl _ \<Rightarrow> 1 | Inr _ \<Rightarrow> 0)"
    using assms(2,3) by (auto simp: probe_main_def split: sum.splits)
  assume json: "pf_json flags"
  let ?v = "report fl flags res"
  have v: "encodable (Suc maxNestingDepth) ?v" using report_encodable [OF assms(1)] assms(2) by blast
  obtain ms where ms: "?v = JObject ms" by (cases res) (simp_all add: report_def error_json_def)
  show "out_stderr out = ''''" using json assms(3) by (auto simp: probe_main_def split: sum.splits)
  have "CHR 0x0A \<notin> set (json_encode ?v)" using printable_encode [OF v] by (auto simp: printable_def)
  moreover have "json_skip (Suc maxNestingDepth) (json_encode ?v) = Some []"
    using json_encode_skip [OF v, of "[]"] by (simp add: delimits_def)
  moreover have "json_decode (Suc maxNestingDepth) (json_encode ?v) = JObject (map (\<lambda>(k, v). (to_valid k, clean v)) ms)"
    using json_decode_encode [OF v] by (simp add: ms)
  moreover have "map_of (map (\<lambda>(k, v). (to_valid k, clean v)) ms) ''ok'' = Some (JBool (out_status out = 0))"
    "case res of Inl err \<Rightarrow> map_of (map (\<lambda>(k, v). (to_valid k, clean v)) ms) ''error'' = Some (JString (to_valid (Error err)))
      | Inr r \<Rightarrow> map_of (map (\<lambda>(k, v). (to_valid k, clean v)) ms) ''result'' = Some (clean (result_json fl r))"
    using ms status by (auto simp: report_def error_json_def to_valid_ascii split: sum.splits)
  ultimately show "\<exists>line ms. out_stdout out = line @ newline \<and> CHR 0x0A \<notin> set line
        \<and> json_skip (Suc maxNestingDepth) line = Some [] \<and> json_decode (Suc maxNestingDepth) line = JObject ms
        \<and> map_of ms ''ok'' = Some (JBool (out_status out = 0))
        \<and> (case res of Inl err \<Rightarrow> map_of ms ''error'' = Some (JString (to_valid (Error err)))
            | Inr r \<Rightarrow> map_of ms ''result'' = Some (clean (result_json fl r)))"
    using report_stdout [OF json, of fl dial start stop] assms(2,3) by metis
next
  assume "\<not> pf_json flags"
  then show "case res of
          Inl err \<Rightarrow> out_stdout out = '''' \<and> out_stderr out = ''probe failed: '' @ Error err @ newline
        | Inr r \<Rightarrow> out_stdout out = result_text fl r \<and> out_stderr out = ''''"
    using assms(2,3) by (auto simp: probe_main_def split: sum.splits)
qed

text \<open>A server that answers with an empty document, asked in JSON.\<close>

theorem probe_command_reports_witness:
  "let fl = \<lparr>float_ok = \<lambda>_. True, float_sprint = id, float_marshal = id\<rparr>;
       flags = default_flags\<lparr>pf_host := ''mc.example'', pf_json := True\<rparr>;
       c = new_conn (Raw (BuildStatusResponse ''{}'')) EOF [] ''10.0.0.1:25565'';
       out = probe_main fl (\<lambda>_. Inr c) 0 5 flags
   in floats_ok fl \<and> out_status out = 0 \<and> out_stderr out = '''' \<and> CHR 0x0A \<notin> set (butlast (out_stdout out))"
proof -
  let ?fl = "\<lparr>float_ok = \<lambda>_. True, float_sprint = id, float_marshal = id\<rparr>"
  let ?flags = "default_flags\<lparr>pf_host := ''mc.example'', pf_json := True\<rparr>"
  let ?c = "new_conn (Raw (BuildStatusResponse ''{}'')) EOF [] ''10.0.0.1:25565''"
  have ok: "floats_ok ?fl" by (simp add: floats_ok_def)
  have "json_skip maxNestingDepth ''{}'' = Some []"
    unfolding json_skip_def skip_value.simps by (simp add: skip_ws_def is_ws_def maxNestingDepth_def)
  then have "parseStatus ?fl ''{}'' = Inr empty_result"
    by (simp add: parseStatus_def Unmarshal_root_def Unmarshal_raw_map_def json_Valid_def skip_ws_def is_ws_def
        empty_root_def empty_result_def Let_def)
  moreover have "int (length (Payload (BuildStatusResponse ''{}''))) \<le> po_MaxResponseSize (probe_defaults (probe_options ?flags))"
    using length_Payload_NewPacket [of StatusResponsePacketID "EncodeString ''{}''"] length_EncodeString [of "''{}''"]
    by (simp add: BuildStatusResponse_def probe_defaults_def probe_options_def Let_def MaxPacketLength_def MaxVarIntBytes_def)
  moreover have "TrimSpace ''mc.example'' \<noteq> ''''" by (simp add: TrimSpace_none_ascii IsSpace_def)
  moreover have "wire_string 32767 ''{}''" by (simp add: wire_string_ascii)
  ultimately have "\<exists>r. fst (Run ?fl (\<lambda>_. Inr ?c) 0 5 (probe_options ?flags)) = Inr r"
    using probe_exchange_answered [of ?c "''{}''" "[]" EOF "probe_defaults (probe_options ?flags)"]
    by (simp add: Run_def new_conn_def probe_options_def Let_def)
  then obtain r where "fst (Run ?fl (\<lambda>_. Inr ?c) 0 5 (probe_options ?flags)) = Inr r" ..
  from probe_command_reports [OF ok this refl] ok show ?thesis
    by (auto simp: Let_def default_flags_def newline_def butlast_append)
qed

end
