(* ===== verification/Access.thy ===== *)
theory Access
  imports Sessions
begin

text \<open>
  The record that each connection leaves: \<open>w_log\<close> is the access log of \<^verbatim>\<open>proxy/server.go\<close>, without its
  durations and addresses.  Whatever happens on a connection, it leaves one record, whose fields have the values
  that the log's readers and the metrics count on, and agree with each other.
\<close>

section \<open>Kinds of errors\<close>

definition err_kinds :: "string set" where
  "err_kinds = {''none'', ''unsupported_state'', ''backend_dial_failed'', ''backend_replay_failed'', ''backend_status_failed'',
     ''client_bad_packet'', ''client_io''}"

lemma classifyError_kinds:
  "classifyError err phase \<in> err_kinds \<and> (classifyError err phase = ''none'' \<longleftrightarrow> err = None)"
  by (cases err) (simp_all add: classifyError_def err_kinds_def Let_def)

section \<open>Status requests\<close>

text \<open>The result with which a request was taken up, or the same with the ping answered, which no error follows.\<close>

definition settled :: "StatusResult \<Rightarrow> StatusResult \<times> go_error option \<Rightarrow> bool" where
  "settled r res \<longleftrightarrow> (\<exists>pong. fst res = r\<lparr>PongHandled := pong\<rparr> \<and> (pong \<longrightarrow> snd res = None))"

definition fell_back :: "StatusResult \<Rightarrow> StatusResult" where
  "fell_back r = r\<lparr>CacheResult := ''fallback'', FallbackUsed := True\<rparr>"

definition served :: "StatusResult \<Rightarrow> StatusResult \<times> go_error option \<Rightarrow> bool" where
  "served r res \<longleftrightarrow> settled r res \<or> settled (fell_back r) res"

lemma settled_refl: "\<not> PongHandled r \<Longrightarrow> settled r (r, err)"
  unfolding settled_def by (rule exI [of _ False]) simp

lemma PongHandled_fell_back [simp]: "PongHandled (fell_back r) = PongHandled r"
  by (simp add: fell_back_def)

lemma handleCachedPing_pong: "handleCachedPing s w = ((pong, err), w') \<Longrightarrow> pong \<Longrightarrow> err = None"
  by (auto simp: handleCachedPing_def Let_def split: sum.splits prod.splits if_splits)

lemma proxyStatusPing_pong: "proxyStatusPing s w = ((pong, err), w') \<Longrightarrow> pong \<Longrightarrow> err = None"
  by (auto simp: proxyStatusPing_def Let_def split: sum.splits prod.splits option.splits)

lemma serve_document_settled:
  "serve_document s r raw w = (res, w') \<Longrightarrow> \<not> PongHandled r \<Longrightarrow> settled r res"
  using handleCachedPing_pong
  by (auto simp: serve_document_def Let_def settled_refl split: prod.splits option.splits) (fastforce simp: settled_def)

lemma serve_fallback_served:
  "serve_fallback s r key hs enabled failure w = (res, w') \<Longrightarrow> \<not> PongHandled r \<Longrightarrow> served r res"
  using serve_document_settled [of s "fell_back r"]
  by (auto simp: serve_fallback_def served_def settled_refl fell_back_def split: prod.splits option.splits)

lemma status_answer_served:
  assumes "status_answer s r b hs key enabled rr w = (res, w')" "\<not> PongHandled r"
  shows "served r res"
proof (cases rr)
  case (Inl e)
  with assms show ?thesis by (auto simp: status_answer_def dest: serve_fallback_served)
next
  case (Inr resp)
  have "settled r res"
    using assms Inr proxyStatusPing_pong
    by (auto simp: status_answer_def Let_def settled_refl split: if_splits prod.splits option.splits)
      (fastforce simp: settled_def)+
  then show ?thesis by (simp add: served_def)
qed

lemma status_exchange_served:
  "status_exchange s r b hs hp sr key enabled w = (res, w') \<Longrightarrow> \<not> PongHandled r \<Longrightarrow> served r res"
  by (auto simp: status_exchange_def served_def [of r "(r, _)"] settled_refl
      dest: status_answer_served split: prod.splits option.splits)

lemma status_via_backend_served:
  "status_via_backend s r b hs hp sr key enabled w = (res, w') \<Longrightarrow> \<not> PongHandled r \<Longrightarrow> served r res"
  by (auto simp: status_via_backend_def Let_def dest: serve_fallback_served status_exchange_served split: prod.splits option.splits)

lemma status_miss_served:
  "status_miss s r b hs hp sr key enabled w = (res, w') \<Longrightarrow> \<not> PongHandled r \<Longrightarrow> served r res"
  by (auto simp: status_miss_def Let_def dest: serve_fallback_served status_via_backend_served split: prod.splits if_splits)

definition status_result_ok :: "StatusResult \<times> go_error option \<Rightarrow> bool" where
  "status_result_ok res \<longleftrightarrow>
     CacheResult (fst res) \<in> {''disabled'', ''miss'', ''hit'', ''fallback''}
     \<and> (FallbackUsed (fst res) \<longleftrightarrow> CacheResult (fst res) = ''fallback'')
     \<and> (PongHandled (fst res) \<longrightarrow> snd res = None)"

lemma settled_ok:
  "settled r res \<Longrightarrow> CacheResult r \<in> {''disabled'', ''miss'', ''hit'', ''fallback''} \<Longrightarrow>
     FallbackUsed r \<longleftrightarrow> CacheResult r = ''fallback'' \<Longrightarrow> status_result_ok res"
  by (auto simp: settled_def status_result_ok_def)

lemma served_ok:
  "served r res \<Longrightarrow> CacheResult r \<in> {''disabled'', ''miss''} \<Longrightarrow> \<not> FallbackUsed r \<Longrightarrow> status_result_ok res"
  unfolding served_def by (elim disjE; rule settled_ok) (auto simp: fell_back_def)

lemma handleStatus_result:
  assumes "handleStatus s b hs hp w = (res, w')"
  shows "status_result_ok res"
proof -
  let ?r = "\<lparr>CacheResult = ''disabled'', FallbackUsed = False, PongHandled = False\<rparr>"
  let ?r' = "if statusCacheEnabled s b then ?r\<lparr>CacheResult := ''miss''\<rparr> else ?r"
  consider (early) err where "res = (?r, err)" | (hit) w1 raw where "serve_document s (?r'\<lparr>CacheResult := ''hit''\<rparr>) raw w1 = (res, w')"
    | (miss) w1 sr where "status_miss s ?r' b hs hp sr (statusCacheKey b hs) (statusCacheEnabled s b) w1 = (res, w')"
    using assms unfolding handleStatus_def Let_def by (auto split: sum.splits prod.splits if_splits option.splits)
  then show ?thesis
  proof cases
    case early
    then show ?thesis by (simp add: status_result_ok_def)
  next
    case hit
    from serve_document_settled [OF hit] show ?thesis by (rule settled_ok) (simp_all split: if_splits)
  next
    case miss
    from status_miss_served [OF miss] show ?thesis by (rule served_ok) (simp_all split: if_splits)
  qed
qed

section \<open>Logins\<close>

definition no_bytes :: PipeStats where
  "no_bytes = \<lparr>clientToBackend = 0, backendToClient = 0\<rparr>"

definition login_result_ok :: "LoginResult \<times> go_error option \<Rightarrow> bool" where
  "login_result_ok res \<longleftrightarrow>
     Fail2BanAction (fst res) \<in> {''none'', ''ip_banned'', ''player_banned'', ''record_failure'', ''record_success''}
     \<and> (Fail2BanAction (fst res) = ''record_success'' \<longrightarrow> snd res = None)
     \<and> (Fail2BanAction (fst res) \<in> {''none'', ''ip_banned'', ''player_banned''} \<longrightarrow> snd res \<noteq> None \<and> Stats (fst res) = no_bytes)"

definition untouched :: "LoginResult \<Rightarrow> bool" where
  "untouched r \<longleftrightarrow> Stats r = no_bytes \<and> Fail2BanAction r = ''none''"

lemma login_proxy_result: "login_proxy s r route ip username w = (res, w') \<Longrightarrow> login_result_ok res"
  by (auto simp: login_proxy_def Let_def login_result_ok_def split: prod.splits if_splits)

lemma login_forward_result:
  "login_forward s r b route hp ls ip username w = (res, w') \<Longrightarrow> untouched r \<Longrightarrow> login_result_ok res"
  using login_proxy_result
  by (auto simp: login_forward_def Let_def split: prod.splits option.splits) (simp_all add: login_result_ok_def untouched_def)

lemma login_identified_result:
  "login_identified s r b route hp ls ip username w = (res, w') \<Longrightarrow> untouched r \<Longrightarrow> login_result_ok res"
  using login_forward_result
  by (auto simp: login_identified_def Let_def split: prod.splits if_splits) (simp_all add: login_result_ok_def untouched_def)

lemma handleLogin_result:
  assumes "handleLogin s b route hs hp ip w = (res, w')"
  shows "login_result_ok res"
proof -
  have "login_identified s \<lparr>Stats = no_bytes, login_Username = u, Fail2BanAction = ''none''\<rparr> b route' hp ls ip username w1 = (res, w')
      \<Longrightarrow> login_result_ok res" for u route' ls username w1
    by (erule login_identified_result) (simp add: untouched_def)
  then show ?thesis
    using assms by (auto simp: handleLogin_def Let_def no_bytes_def split: prod.splits if_splits sum.splits)
      (simp_all add: login_result_ok_def no_bytes_def)
qed

section \<open>The records\<close>

primrec record_ok :: "log_event \<Rightarrow> bool" where
  "record_ok (BadHandshake kind) \<longleftrightarrow> kind \<in> err_kinds - {''none''}"
| "record_ok (RouteNotFound host) \<longleftrightarrow> True"
| "record_ok (AccessStatus r message kind) \<longleftrightarrow>
     kind \<in> err_kinds \<and> (kind = ''none'' \<longrightarrow> message = '''')
     \<and> CacheResult r \<in> {''disabled'', ''miss'', ''hit'', ''fallback''}
     \<and> (FallbackUsed r \<longleftrightarrow> CacheResult r = ''fallback'') \<and> (PongHandled r \<longrightarrow> kind = ''none'')"
| "record_ok (AccessLogin r message kind) \<longleftrightarrow>
     kind \<in> err_kinds \<and> (kind = ''none'' \<longrightarrow> message = '''')
     \<and> Fail2BanAction r \<in> {''none'', ''ip_banned'', ''player_banned'', ''record_failure'', ''record_success''}
     \<and> (Fail2BanAction r = ''record_success'' \<longrightarrow> kind = ''none'')
     \<and> (Fail2BanAction r \<in> {''none'', ''ip_banned'', ''player_banned''} \<longrightarrow> kind \<noteq> ''none'' \<and> Stats r = no_bytes)"
| "record_ok (UnsupportedState kind) \<longleftrightarrow> kind = ''unsupported_state''"

lemma err_text_none: "classifyError err phase = ''none'' \<Longrightarrow> err_text err = ''''"
  using classifyError_kinds [of err phase] by (simp add: err_text_def)

lemma dispatch_record: "\<exists>e. w_log (dispatch s b host hs hp w) = w_log w @ [e] \<and> record_ok e"
proof -
  obtain r1 e1 w1 where w1: "handleStatus s b hs hp w = ((r1, e1), w1)" by (metis prod.collapse)
  obtain r2 e2 w2 where w2: "handleLogin s b host hs hp (remoteIP (w_client w)) w = ((r2, e2), w2)"
    by (metis prod.collapse)
  have log: "w_log w1 = w_log w" "w_log w2 = w_log w" "w_log (w_metric f w') = w_log w'"
    "w_log (record_login_metrics host b r2 w2) = w_log w2" for f w'
    using handleStatus_evolves [OF w1] handleLogin_evolves [OF w2] record_login_metrics_evolves
    by (simp_all add: evolves_def w_metric_def)
  note kinds = classifyError_kinds [of e1 "''status''"] classifyError_kinds [of e2 "''login''"]
  have "record_ok (AccessStatus r1 (err_text e1) (classifyError e1 ''status''))"
    using handleStatus_result [OF w1] kinds err_text_none [of e1] by (auto simp: status_result_ok_def)
  moreover have "record_ok (AccessLogin r2 (err_text e2) (classifyError e2 ''login''))"
    using handleLogin_result [OF w2] kinds err_text_none [of e2] by (auto simp: login_result_ok_def)
  moreover have "record_ok (UnsupportedState (classifyError (Some errUnsupportedState) ''state''))"
    by (simp add: classifyError_def)
  ultimately show ?thesis
    unfolding dispatch_def w1 w2 Let_def prod.case by (simp add: w_logged_def log)
qed

lemma handle_client_record: "\<exists>e. w_log (handle_client s w) = w_log w @ [e] \<and> record_ok e"
proof -
  obtain r1 w1 where w1: "client_ReadPacket (MaxHandshakeSize (options s)) w = (r1, w1)" by fastforce
  have "w_log w1 = w_log w" using client_ReadPacket_evolves [OF w1] by (simp add: evolves_def)
  moreover have "record_ok (BadHandshake (classifyError (Some err) ''handshake''))" for err
    using classifyError_kinds [of "Some err" "''handshake''"] by simp
  ultimately show ?thesis
    unfolding handle_client_def w1 prod.case Let_def
    using dispatch_record [of s _ _ _ _ w1] by (auto simp: w_logged_def split: sum.split option.split)
qed

lemma session_record: "\<exists>e. w_log (session_step s x w) = w_log w @ [e] \<and> record_ok e"
  using handle_client_record [of s "w_metric IncActiveConnections (connect x w)"]
  by (simp add: session_step_def handleConn_def Let_def w_metric_def connect_def)

section \<open>Properties\<close>



end
