(* ===== verification/Spec2Isabelle.thy ===== *)
theory Spec2Isabelle
  imports Scenario Proxy ProbeCommand Access
begin

text \<open>
  A model of ciallo, a reverse proxy for Minecraft servers, and what makes it correct.

  \<^bold>\<open>The program.\<close>  The proxy accepts a TCP connection, reads the one packet it must understand (the
  handshake), looks the host named there up in its table of routes, and then either answers a status
  request, from its cache, from a backend or with a document of its own, or checks a login against the
  bans, replays the bytes read so far to the backend and copies bytes in both directions until one side ends.
  Beside that it checks its backends' health, keeps a pool of idle connections to them, counts what
  happens and lets an operator look at it over HTTP.  The sources are Go, under \<^verbatim>\<open>src/internal\<close> with two
  commands under \<^verbatim>\<open>src/cmd\<close>.

  \<^bold>\<open>The theories\<close> and what they model, each with the records, operations and names of the source:

    \<^item> \<^verbatim>\<open>Prelude\<close>, \<^verbatim>\<open>GoText\<close>, \<^verbatim>\<open>GoTime\<close>, \<^verbatim>\<open>GoIO\<close>, \<^verbatim>\<open>GoMap\<close>: the parts of Go and of its standard library
      the sources call (errors with their texts, UTF-8, strings, host and port, durations, readers and connections,
      maps), and \<^verbatim>\<open>Codec\<close>, \<^verbatim>\<open>Machines\<close>: the interfaces as locales.
    \<^item> \<^verbatim>\<open>VarInt\<close>, \<^verbatim>\<open>Packet\<close>, \<^verbatim>\<open>Handshake\<close>, \<^verbatim>\<open>Host\<close>, \<^verbatim>\<open>Status\<close>: \<^verbatim>\<open>internal/mcproto\<close>, the wire format (\<^verbatim>\<open>varint.go\<close>,
      \<^verbatim>\<open>packet.go\<close>, \<^verbatim>\<open>handshake.go\<close>, \<^verbatim>\<open>status.go\<close>, \<^verbatim>\<open>login.go\<close>).
    \<^item> \<^verbatim>\<open>GoJson\<close>, \<^verbatim>\<open>JsonTree\<close>, \<^verbatim>\<open>JsonText\<close>, \<^verbatim>\<open>JsonCompact\<close>, \<^verbatim>\<open>JsonDecode\<close>: what is used of \<^verbatim>\<open>encoding/json\<close>; the
      scanner, the splitting of objects, the encoder, and that they fit together.
    \<^item> \<^verbatim>\<open>Router\<close>, \<^verbatim>\<open>Cache\<close>, \<^verbatim>\<open>Guard\<close>, \<^verbatim>\<open>Pool\<close>, \<^verbatim>\<open>Dialer\<close>, \<^verbatim>\<open>Pipe\<close>, \<^verbatim>\<open>Metrics\<close>, \<^verbatim>\<open>Health\<close>: the components
      \<^verbatim>\<open>proxy/router.go\<close>, \<^verbatim>\<open>cache/status_cache.go\<close>, \<^verbatim>\<open>fail2ban/guard.go\<close>, \<^verbatim>\<open>pool/pool.go\<close>, \<^verbatim>\<open>proxy/dialer.go\<close>,
      \<^verbatim>\<open>proxy/pipe.go\<close>, \<^verbatim>\<open>metrics/metrics.go\<close> and \<^verbatim>\<open>health/checker.go\<close>.
    \<^item> \<^verbatim>\<open>Server\<close>: \<^verbatim>\<open>proxy/server.go\<close>, every handler on the \<open>World\<close> of a connection; \<^verbatim>\<open>Relay\<close>: what travels through it;
      \<^verbatim>\<open>Sessions\<close>: many connections, the accept loop and the listener; \<^verbatim>\<open>Access\<close>: the record each of them leaves.
    \<^item> \<^verbatim>\<open>Config\<close>, \<^verbatim>\<open>Logging\<close>, \<^verbatim>\<open>Management\<close>: \<^verbatim>\<open>config/config.go\<close> and \<^verbatim>\<open>load.go\<close>, \<^verbatim>\<open>logging/logging.go\<close>, \<^verbatim>\<open>management/server.go\<close>.
    \<^item> \<^verbatim>\<open>Proxy\<close>: \<^verbatim>\<open>cmd/mcproxy/main.go\<close>, how the components are built from the configuration, connected, run and stopped;
      \<^verbatim>\<open>Probe\<close>, \<^verbatim>\<open>ProbeCommand\<close>: \<^verbatim>\<open>probe/probe.go\<close> and \<^verbatim>\<open>cmd/ciallo-probe/main.go\<close>, the other end of a status exchange.
    \<^item> \<^verbatim>\<open>Scenario\<close>: the concrete routes, packets and clients the witnesses are evaluated on.

  \<^bold>\<open>State and effects.\<close>  A component is a record with the fields of its struct, an operation a function that
  returns the new record; a \<^verbatim>\<open>nil\<close> component is \<open>None\<close>.  An error is a value of \<open>go_error\<close>, an
  operation that can fail returns \<open>go_error + 'a\<close>, and every early return is a branch.  The \<open>World\<close> threads the shared
  components, the client, the backend and the clock through a handler; each reading of the clock takes the next instant.
  A connection is the bytes that will arrive with the error that ends them, the bytes written, and a script of how its
  writes end, so that every failure of the network, a deadline included, is a value of the input.

  \<^bold>\<open>The interfaces.\<close>  \<open>wire_format\<close> (an encoder and a decoder of prefixes) is interpreted on the strings, the
  variable-length integers and the packets; \<open>host_router\<close> on the static router; \<open>keyed_machine\<close> (operations touch
  the entry of their key alone) on the cache, the guard and the health checker; \<open>invariant_machine\<close> on all of these, the pool,
  the dialer, the metrics, the sessions of a proxy, its operator and the running proxy with all of them
  together.  The properties rest on the facts of these interpretations.

  \<^bold>\<open>What is shown.\<close>  C1 to C11 are about the whole proxy: what may travel where, who is refused, what is
  answered without a backend, that the shared components stay sound under all connections, operator requests
  and health checks in any order, and that each connection leaves one well-typed record.  C12 to C17: the bans refine a specification of counted failures, keep to
  their keys, are listed and lifted truly, and the operator reads them back from valid JSON.  C18 to C26:
  copying, dialling, pooling and health checking under interleaving, and a configuration that loads gives a proxy that
  starts and looks after its backends.  The rest: the configuration, the cache, the
  fallback documents, the metrics exposition, the probe and its command, and the wire format down to the
  integers.

  \<^bold>\<open>Bounds and fuel.\<close>  \<^verbatim>\<open>int32\<close> and \<^verbatim>\<open>uint16\<close> are words of their width; lengths that the sources keep in \<^verbatim>\<open>int\<close> are
  bounded by the packet limits, and counters in \<^verbatim>\<open>int64\<close> are integers, since 2 ^ 63 events are out of reach.  The JSON scanner
  recurses on fuel; \<open>json_skip\<close> gives it twice the length of the text, and \<open>skip_fuel\<close> and \<open>skip_mono\<close> show that more
  changes nothing.  The decoder of trees takes the length of the text, which \<open>decode_encode\<close> shows to be enough for whatever the encoder
  writes.  Unquoting and the parsing of durations take the length of their text, of which every step uses up at
  least one character.  All other loops have termination proofs; that the copying of a login, whose steps are a relation,
  always ends is C19.

  \<^bold>\<open>What is not modelled.\<close>
    \<^item> The text of log lines and the durations in them, and the additional lines of the debug level; the record of a connection
      and of a request to the management server is modelled, as a value.
    \<^item> Interleaving below the operations of a component: each takes its lock once, and the handlers of two
      connections interleave in C5, C10 and C11 as whole sessions.  Finer grain is modelled where it matters: the two
      copiers, the background refills of the dialer, the two critical sections of a cache lookup.
    \<^item> The order in which Go visits a map (the model's is that of insertion; the statements do not depend on it)
      and \<^verbatim>\<open>sort.Slice\<close> being unstable (the keys that are sorted are distinct).
    \<^item> TCP keepalive, command-line flags, the delivery of signals, and goroutines that only wait: the values and events
      they deliver are arguments.
    \<^item> Third-party code and what the program does not contain: the YAML decoder and the file system (arguments of
      \<open>LoadFile\<close>), the rotating log writer (its settings), the multiplexer's answers for unknown paths, the rendering of
      instants and of floating point numbers.  \<^verbatim>\<open>MarshalYAML\<close> is called by nothing.
\<close>

section \<open>Lemmas that span components\<close>

lemma append_separator:
  assumes "a @ x # s = b @ x # t" "x \<notin> set a" "x \<notin> set b"
  shows "a = b \<and> s = t"
  using assms
proof (induction a arbitrary: b)
  case Nil
  then show ?case by (cases b) auto
next
  case (Cons c a)
  then show ?case by (cases b) auto
qed

lemma append_separator_right:
  assumes "s @ x # a = t @ x # b" "x \<notin> set a" "x \<notin> set b"
  shows "s = t \<and> a = b"
proof -
  have "rev a @ x # rev s = rev b @ x # rev t"
    using arg_cong [OF assms(1), of rev] by simp
  from append_separator [OF this] assms(2,3) show ?thesis by simp
qed

lemma metrics_of_helpers:
  "w_metrics (w_logged e w) = w_metrics w" "w_metrics (w_metric f w) = map_option f (w_metrics w)"
  by (simp_all add: w_logged_def w_metric_def)

text \<open>What a handler does before and after the login itself leaves the connections alone.\<close>

lemma handleConn_login:
  assumes "ReadPacket (inp (w_client w)) (MaxHandshakeSize (options s)) = (Inr hp, r)"
    and "ParseHandshake hp = Inr hs" "NextState hs = NextStateLogin"
    and "Resolve (router s) (NormalizeHost (ServerAddress hs)) = Some b"
  obtains w1 res err w2 where
    "w1 = (w_metric IncActiveConnections w)\<lparr>w_client := (w_client w)\<lparr>inp := r\<rparr>\<rparr>"
    "handleLogin s b (NormalizeHost (ServerAddress hs)) hs hp (remoteIP (w_client w)) w1 = ((res, err), w2)"
    "w_dialed (handleConn s w) = w_dialed w2" "w_backend (handleConn s w) = w_backend w2"
    "outp (w_client (handleConn s w)) = outp (w_client w2)"
    "w_metrics (handleConn s w) =
       w_metrics (w_metric DecActiveConnections (record_login_metrics (NormalizeHost (ServerAddress hs)) b res w2))"
proof -
  let ?w = "(w_metric IncActiveConnections w)\<lparr>w_client := (w_client w)\<lparr>inp := r\<rparr>\<rparr>"
  let ?host = "NormalizeHost (ServerAddress hs)"
  obtain res err w2 where w2: "handleLogin s b ?host hs hp (remoteIP (w_client w)) ?w = ((res, err), w2)"
    by (metis prod.collapse)
  have read: "client_ReadPacket (MaxHandshakeSize (options s)) (w_metric IncActiveConnections w) = (Inr hp, ?w)"
    using assms(1) by (simp add: client_ReadPacket_def conn_ReadPacket_def w_metric_def)
  have not_status: "NextStateLogin \<noteq> NextStateStatus" by (simp add: NextStateLogin_def NextStateStatus_def)
  let ?final = "w_logged (AccessLogin res (err_text err) (classifyError err ''login'')) (record_login_metrics ?host b res w2)"
  have ip: "remoteIP ((w_client w)\<lparr>inp := r\<rparr>) = remoteIP (w_client w)"
    by (cases "SplitHostPort (remote_addr (w_client w))") (auto simp: remoteIP_def)
  have client: "handle_client s (w_metric IncActiveConnections w) = ?final"
    unfolding handle_client_def read using assms(2-4) w2 not_status
    by (simp add: dispatch_def Let_def ip)
  have same: "conns ?final = conns w2"
    by (simp add: record_login_metrics_def Let_def)
  have "conns (w_metric DecActiveConnections ?final) = conns w2" using same by simp
  from conns_eqD [OF this] have
    "w_dialed (handleConn s w) = w_dialed w2" "w_backend (handleConn s w) = w_backend w2"
    "outp (w_client (handleConn s w)) = outp (w_client w2)"
    by (simp_all add: handleConn_def Let_def client Close_def)
  moreover have "w_metrics (handleConn s w) =
       w_metrics (w_metric DecActiveConnections (record_login_metrics ?host b res w2))"
    unfolding handleConn_def Let_def client by (simp add: metrics_of_helpers)
  ultimately show thesis using that [OF refl w2] by blast
qed

lemma handshake_payload:
  "wire_string 255 host \<Longrightarrow> length (Payload (BuildHandshake v host port st)) \<le> 1042"
proof -
  assume "wire_string 255 host"
  then have "length host \<le> 1020" using wire_string_bytes [of 255 host] by simp
  then have "length (EncodeVarInt v @ EncodeString host @ BigEndian_PutUint16 port @ EncodeVarInt st) \<le> 5 + (5 + 1020) + 2 + 5"
    using length_EncodeVarInt [of v] length_EncodeVarInt [of st] length_EncodeString [of host]
    by (simp add: MaxVarIntBytes_def BigEndian_PutUint16_def)
  then show ?thesis
    using length_Payload_NewPacket [of HandshakePacketID "EncodeVarInt v @ EncodeString host @ BigEndian_PutUint16 port @ EncodeVarInt st"]
    unfolding BuildHandshake_def by (simp add: MaxVarIntBytes_def)
qed

lemma handshake_wire: "wire_string 255 host \<Longrightarrow> packet_on_wire (BuildHandshake v host port st)"
  using handshake_payload [of host v port st] unfolding BuildHandshake_def by (intro NewPacket_wire) simp

lemma request_wire: "packet_on_wire (NewPacket StatusRequestPacketID [])" "length (Payload (NewPacket StatusRequestPacketID [])) \<le> 5"
  using length_Payload_NewPacket [of StatusRequestPacketID "[]"] by (auto simp: MaxVarIntBytes_def intro: NewPacket_wire)

text \<open>A probe's connection to the proxy, answered from the cache.\<close>

lemma handleConn_probe:
  assumes wire: "wire_string 255 (po_Host o1)" and size: "1042 \<le> MaxHandshakeSize (options s)"
    and client: "inp (w_client w) = \<lparr>pending = probe_request o1, at_end = e\<rparr>" "\<not> closed (w_client w)"
      "write_script (w_client w) = []"
    and route: "Resolve (router s) (NormalizeHost (po_Host o1)) = Some b"
    and cache: "statusCacheEnabled s b" "w_cache w = Some c"
      "fst (cache_Get c (statusCacheKey b \<lparr>ProtocolVersion = po_ProtocolVersion o1, ServerAddress = po_Host o1,
          ServerPort = po_Port o1, NextState = NextStateStatus\<rparr>) (w_clock w 0) (w_clock w 1)) = Some raw"
  shows "outp (w_client (handleConn s w)) = outp (w_client w) @ raw \<and> w_dialed (handleConn s w) = w_dialed w
    \<and> w_backend (handleConn s w) = w_backend w"
proof -
  let ?hp = "BuildHandshake (po_ProtocolVersion o1) (po_Host o1) (po_Port o1) NextStateStatus"
  let ?hs = "\<lparr>ProtocolVersion = po_ProtocolVersion o1, ServerAddress = po_Host o1, ServerPort = po_Port o1, NextState = NextStateStatus\<rparr>"
  let ?sr = "NewPacket StatusRequestPacketID []"
  let ?max = "MaxHandshakeSize (options s)"
  define w0 where "w0 = w_metric IncActiveConnections w"
  define w1 where "w1 = w0\<lparr>w_client := (w_client w)\<lparr>inp := \<lparr>pending = Raw ?sr, at_end = e\<rparr>\<rparr>\<rparr>"
  define w2 where "w2 = w0\<lparr>w_client := (w_client w)\<lparr>inp := \<lparr>pending = [], at_end = e\<rparr>\<rparr>\<rparr>"
  have "ReadPacket \<lparr>pending = Raw ?hp @ Raw ?sr, at_end = e\<rparr> ?max = (Inr ?hp, \<lparr>pending = Raw ?sr, at_end = e\<rparr>)"
    using handshake_payload [OF wire, of "po_ProtocolVersion o1" "po_Port o1" NextStateStatus] size
    by (intro ReadPacket_wire handshake_wire wire) simp
  then have read1: "client_ReadPacket ?max w0 = (Inr ?hp, w1)"
    by (simp add: client_ReadPacket_def conn_ReadPacket_def w0_def w1_def w_metric_def client probe_request_def)
  have "ReadPacket \<lparr>pending = Raw ?sr @ [], at_end = e\<rparr> ?max = (Inr ?sr, \<lparr>pending = [], at_end = e\<rparr>)"
    using request_wire size by (intro ReadPacket_wire) simp_all
  then have read2: "client_ReadPacket ?max w1 = (Inr ?sr, w2)"
    by (simp add: client_ReadPacket_def conn_ReadPacket_def w1_def w2_def)
  obtain r3 w3 where run: "handleStatus s b ?hs ?hp w1 = (r3, w3)" by (rule prod.exhaust)
  define w4 where "w4 = w2\<lparr>w_clock := \<lambda>n. w_clock w (Suc (Suc n)), w_cache := Some c\<rparr>"
  have hit: "cacheGet (statusCacheKey b ?hs) w2 = (Some raw, w4)"
    using cache(2,3) cache_Get_unchanged [OF cache(3)]
    by (cases "cache_Get c (statusCacheKey b ?hs) (w_clock w 0) (w_clock w 1)")
      (simp add: cacheGet_def w4_def w2_def w0_def w_metric_def world_defs)
  define w5 where "w5 = w4\<lparr>w_client := (w_client w2)\<lparr>outp := outp (w_client w) @ raw\<rparr>\<rparr>"
  have wr: "client_Write raw w4 = (None, w5)"
    using client by (simp add: client_Write_def w5_def w4_def w2_def)
  have ping: "handleCachedPing s w5 = ((False, None), w5)"
  proof -
    obtain res r where rd: "ReadPacket \<lparr>pending = [], at_end = e\<rparr> ?max = (res, r)" by (rule prod.exhaust)
    have "res \<noteq> Inr p" for p
      using ReadPacket_Inr [of "\<lparr>pending = [], at_end = e\<rparr>" ?max p r] rd by (auto simp: packet_on_wire_def is_varint_def)
    then obtain err where "res = Inl err" by (cases res) auto
    moreover have "r = \<lparr>pending = [], at_end = e\<rparr>"
      using ReadPacket_suffix [OF rd] by (cases r) auto
    ultimately show ?thesis
      using rd by (simp add: handleCachedPing_def client_ReadPacket_def conn_ReadPacket_def w5_def w4_def w2_def)
  qed
  have "w3 = w5"
    using run read2 hit wr ping cache(1) by (simp add: handleStatus_def serve_document_def Let_def)
  have "handle_client s w0 = w_logged (AccessStatus (fst r3) (err_text (snd r3)) (classifyError (snd r3) ''status''))
      (w_metric (RecordStatus (NormalizeHost (po_Host o1)) (Addr b) (CacheResult (fst r3)) (FallbackUsed (fst r3))) w3)"
    unfolding handle_client_def read1 using ParseHandshake_BuildHandshake [OF wire] route run
    by (simp add: dispatch_def Let_def split_beta)
  then have "conns (handle_client s w0) = conns w5" using \<open>w3 = w5\<close> by simp
  then have "conns (w_metric DecActiveConnections (handle_client s w0)) = conns w5" by simp
  from conns_eqD [OF this] show ?thesis
    by (simp add: handleConn_def Let_def Close_def w0_def [symmetric]) (simp add: w5_def w4_def w2_def w0_def w_metric_def)
qed

section \<open>Properties\<close>

text \<open>
  C1: A backend sees only what the client sent: whatever happens in a connection, the bytes written to the
  backend are a prefix of the client's stream, from its first byte, so that the handshake, the
  first packet and everything after are replayed unchanged, in order and without additions.
\<close>

theorem backend_sees_only_client_bytes:
  assumes "\<forall>call c. s_dial x call = Inr c \<longrightarrow> outp c = []"
    and "w_backend (session_step s x w) = Some b"
  shows "prefix (outp b) (pending (inp (s_client x)))"
  using handleConn_sees [of "connect x w" s] assms
  by (simp add: session_step_def connect_def fresh_dials_def sees_def)

theorem backend_sees_only_client_bytes_witness:
  "case w_backend (session_step demo_server (demo_session (Raw (demo_handshake 2) @ Raw demo_login)) demo_world) of
     None \<Rightarrow> True | Some b \<Rightarrow> prefix (outp b) (Raw (demo_handshake 2) @ Raw demo_login)"
  using backend_sees_only_client_bytes [of "demo_session (Raw (demo_handshake 2) @ Raw demo_login)" demo_server demo_world]
  by (auto simp: demo_session_def demo_backend_conn_def demo_client_def new_conn_def split: option.split)

text \<open>
  C2: The client of a login sees only the backend: what a login writes to the client is a prefix of
  what the backend sent, or of the one packet that tells a banned player so.
\<close>

theorem login_client_sees_only_backend:
  assumes "handleLogin s b route hs hp ip w = (res, w')"
  shows "\<exists>bs. outp (w_client w') = outp (w_client w) @ bs \<and>
    (prefix bs (Raw (BuildLoginDisconnect banned_json)) \<or>
     (\<exists>bc. w_dial w (Dial b) = Inr bc \<and> prefix bs (pending (inp bc))))"
  using handleLogin_client [OF assms] by (simp add: login_output_def)

theorem login_client_sees_only_backend_witness:
  "\<exists>bs. outp (w_client (snd (handleLogin demo_server lobby ''mc.example''
        \<lparr>ProtocolVersion = 772, ServerAddress = ''mc.example'', ServerPort = 25565, NextState = 2\<rparr> (demo_handshake 2)
        ''198.51.100.7'' (connect (demo_session (Raw demo_login)) demo_world)))) = bs
     \<and> (prefix bs (Raw (BuildLoginDisconnect banned_json)) \<or> prefix bs [9, 8, 7])"
proof -
  let ?w = "connect (demo_session (Raw demo_login)) demo_world"
  obtain res w' where run: "handleLogin demo_server lobby ''mc.example''
      \<lparr>ProtocolVersion = 772, ServerAddress = ''mc.example'', ServerPort = 25565, NextState = 2\<rparr> (demo_handshake 2)
      ''198.51.100.7'' ?w = (res, w')"
    by fastforce
  with login_client_sees_only_backend [OF run] show ?thesis
    by (auto simp: connect_def demo_session_def demo_backend_conn_def demo_client_def new_conn_def)
qed

text \<open>
  C3: A banned address gets nothing: if the guard holds the client's address banned on the route the
  handshake names, the connection is closed without a dial, without a byte to the client, and is
  counted as a block.
\<close>

theorem banned_address_is_refused:
  assumes "ReadPacket (inp (w_client w)) (MaxHandshakeSize (options s)) = (Inr hp, r)"
    and "ParseHandshake hp = Inr hs" "NextState hs = NextStateLogin"
    and "Resolve (router s) (NormalizeHost (ServerAddress hs)) = Some b"
    and "w_guard w = Some g" "host = NormalizeHost (ServerAddress hs)"
    and "fst (IsBanned g (w_clock w 0) (if host = [] then routeKey b else host) ''ip'' (remoteIP (w_client w)))"
  shows "w_dialed (handleConn s w) = w_dialed w \<and> w_backend (handleConn s w) = w_backend w
    \<and> outp (w_client (handleConn s w)) = outp (w_client w) \<and> closed (w_client (handleConn s w))
    \<and> (\<forall>m. w_metrics w = Some m \<longrightarrow> (\<exists>m'. w_metrics (handleConn s w) = Some m' \<and>
         counter (fail2banBlocks m') \<lparr>fk_Route = host, fk_Kind = ''ip''\<rparr>
           = counter (fail2banBlocks m) \<lparr>fk_Route = host, fk_Kind = ''ip''\<rparr> + 1))"
proof -
  obtain w1 res err w2 where w1: "w1 = (w_metric IncActiveConnections w)\<lparr>w_client := (w_client w)\<lparr>inp := r\<rparr>\<rparr>"
    and run: "handleLogin s b host hs hp (remoteIP (w_client w)) w1 = ((res, err), w2)"
    and out: "w_dialed (handleConn s w) = w_dialed w2" "w_backend (handleConn s w) = w_backend w2"
      "outp (w_client (handleConn s w)) = outp (w_client w2)"
      "w_metrics (handleConn s w) = w_metrics (w_metric DecActiveConnections (record_login_metrics host b res w2))"
    using handleConn_login [OF assms(1-4)] assms(6) by blast
  have w1_eqs: "w_guard w1 = Some g" "w_clock w1 = w_clock w" "w_dialed w1 = w_dialed w" "w_backend w1 = w_backend w"
    "outp (w_client w1) = outp (w_client w)" "w_metrics w1 = map_option IncActiveConnections (w_metrics w)"
    using assms(5) by (simp_all add: w1 w_metric_def)
  have refused: "Fail2BanAction res = ''ip_banned''" "conns w2 = conns w1" "w_metrics w2 = w_metrics w1"
    using handleLogin_ip_banned [of w1 g host b "remoteIP (w_client w)" s hs hp] w1_eqs(1,2) assms(7) run by auto
  have known: "valueOrUnknown ''ip'' = ''ip''"
    by (simp add: valueOrUnknown_def TrimSpace_none_ascii IsSpace_def)
  have "\<exists>m'. w_metrics (handleConn s w) = Some m' \<and> counter (fail2banBlocks m') \<lparr>fk_Route = host, fk_Kind = ''ip''\<rparr>
      = counter (fail2banBlocks m) \<lparr>fk_Route = host, fk_Kind = ''ip''\<rparr> + 1" if "w_metrics w = Some m" for m
    using that refused w1_eqs(6)
    by (simp add: out(4) record_login_metrics_def Let_def w_metric_def metrics_defs known counter_map_inc)
  then show ?thesis
    using out(1-3) conns_eqD [OF refused(2)] w1_eqs handleConn_closed by simp
qed

text \<open>The first connection of a banned address at the demonstration server.\<close>

theorem banned_address_is_refused_witness:
  "let w = (connect (demo_session (Raw (demo_handshake 2) @ Raw demo_login)) demo_world)
             \<lparr>w_guard := Some (snd (RecordFailure (NewGuard demo_guard_options) 900 ''mc.example'' ''ip'' ''198.51.100.7''))\<rparr>
   in w_dialed (handleConn demo_server w) = [] \<and> outp (w_client (handleConn demo_server w)) = []"
proof -
  let ?g = "snd (RecordFailure (NewGuard demo_guard_options) 900 ''mc.example'' ''ip'' ''198.51.100.7'')"
  let ?w = "(connect (demo_session (Raw (demo_handshake 2) @ Raw demo_login)) demo_world)\<lparr>w_guard := Some ?g\<rparr>"
  let ?hs = "\<lparr>ProtocolVersion = 772, ServerAddress = ''mc.example'', ServerPort = 25565, NextState = 2\<rparr>"
  have client: "w_client ?w = demo_client (Raw (demo_handshake 2) @ Raw demo_login)"
    by (simp add: connect_def demo_session_def)
  have "w_clock ?w 0 = 1000" by (simp add: connect_def demo_world_def new_world_def demo_clock_def)
  then have "fst (IsBanned ?g (w_clock ?w 0) ''mc.example'' ''ip'' ''198.51.100.7'')"
    by (simp add: IsBanned_iff RecordFailure_def Let_def demo_normalize demo_guard_options_def NewGuard_def Enabled_def
        zero_guard_entry_def time_defs Minute_def Second_def Millisecond_def)
  then have "w_dialed (handleConn demo_server ?w) = w_dialed ?w \<and> outp (w_client (handleConn demo_server ?w)) = outp (w_client ?w)"
    using banned_address_is_refused [of ?w demo_server "demo_handshake 2" "\<lparr>pending = Raw demo_login, at_end = EOF\<rparr>" ?hs lobby ?g "''mc.example''"]
      demo_ReadPacket [OF demo_handshake_wire, of 2 "Raw demo_login"]
    by (simp add: client demo_ParseHandshake NextStateLogin_def demo_NormalizeHost demo_Resolve demo_remoteIP)
  then show ?thesis
    unfolding Let_def client by (simp add: connect_def demo_client_def new_conn_def)
qed





text \<open>
  C7: The circuit breaker keeps status requests away from an unhealthy backend: with the option on
  and the backend marked unhealthy, no status request dials it, whatever the cache, the
  clock and the client do.
\<close>

theorem unhealthy_backend_is_not_dialled:
  assumes "StatusFallbackWhenUnhealthy (options s)"
    and "w_health w = Some (run health_step ops (NewChecker opts tgts))" "hc_Enabled opts"
    and "\<not> spec_healthy (FailureThreshold (health_defaults opts)) (SuccessThreshold (health_defaults opts)) (outcomes (Addr b) ops)"
    and "handleStatus s b hs hp w = (res, w')"
  shows "w_dialed w' = w_dialed w \<and> w_backend w' = w_backend w"
proof (rule handleStatus_unhealthy [OF assms(1,2) checker_inv_run _ _ assms(5)])
  show "hc_Enabled (health_options (run health_step ops (NewChecker opts tgts)))"
    using assms(3) by (simp add: NewChecker_def Let_def health_defaults_def)
  show "\<not> Healthy (entry_for (run health_step ops (NewChecker opts tgts)) (Addr b))"
    using matches_New [OF assms(3), of "Addr b" ops tgts] assms(4) by (simp add: matches_def)
qed

theorem unhealthy_backend_is_not_dialled_witness:
  "let opts = \<lparr>hc_Enabled = True, Interval = 0, Timeout = 0, FailureThreshold = 1, SuccessThreshold = 1,
         ProbeProtocol = 0, opt_ProbeHost = '''', CircuitBreakerTTL = 0\<rparr>;
       w = (connect (demo_session (Raw demo_status_request)) demo_world)
             \<lparr>w_health := Some (run health_step [OpFailure 1 2 ''10.0.0.1:25565'' None] (NewChecker opts []))\<rparr>
   in w_dialed (snd (handleStatus demo_server lobby
        \<lparr>ProtocolVersion = 772, ServerAddress = ''mc.example'', ServerPort = 25565, NextState = 1\<rparr> (demo_handshake 1) w)) = []"
proof -
  let ?opts = "\<lparr>hc_Enabled = True, Interval = 0, Timeout = 0, FailureThreshold = 1, SuccessThreshold = 1,
         ProbeProtocol = 0, opt_ProbeHost = '''', CircuitBreakerTTL = 0\<rparr>"
  let ?ops = "[OpFailure 1 2 ''10.0.0.1:25565'' None]"
  let ?w = "(connect (demo_session (Raw demo_status_request)) demo_world)\<lparr>w_health := Some (run health_step ?ops (NewChecker ?opts []))\<rparr>"
  let ?hs = "\<lparr>ProtocolVersion = 772, ServerAddress = ''mc.example'', ServerPort = 25565, NextState = 1\<rparr>"
  obtain res w' where run: "handleStatus demo_server lobby ?hs (demo_handshake 1) ?w = (res, w')" by fastforce
  have request: "ID demo_status_request = StatusRequestPacketID" by (simp add: demo_status_request_def)
  have "StatusFallbackWhenUnhealthy (options demo_server)"
    by (simp add: demo_server_def NewServerWithGuard_def server_defaults_def demo_options_def Let_def)
  then have "w_dialed w' = w_dialed ?w"
    using unhealthy_backend_is_not_dialled [OF _ _ _ _ run, of ?ops ?opts "[]"]
    by (simp add: outcomes_def health_defaults_def Let_def lobby_def)
  with run show ?thesis by (simp add: Let_def connect_def)
qed

text \<open>
  C10: However many connections the accept loop has served, the gauge of active connections is back
  where it was, every client is closed, and the guard, the cache, the health checker and
  the counters satisfy their invariants.
\<close>

theorem serving_preserves_shared_state:
  assumes "world_ok w"
  shows "world_ok (snd (Serve s arrivals w)) \<and> active (snd (Serve s arrivals w)) = active w
    \<and> (accepted arrivals \<noteq> [] \<longrightarrow> closed (w_client (snd (Serve s arrivals w))))"
proof -
  have "world_ok (run (session_step s) (accepted arrivals) w) \<and> active (run (session_step s) (accepted arrivals) w) = active w"
    using gauge.inv_run [of w "active w" "accepted arrivals" s] assms by (simp add: list_all_iff)
  moreover have "closed (w_client (run (session_step s) (accepted arrivals) w))" if "accepted arrivals \<noteq> []"
    using that handleConn_closed
    by (cases "accepted arrivals" rule: rev_cases) (simp_all add: session_step_def)
  ultimately show ?thesis by (simp add: Serve_run)
qed

theorem serving_preserves_shared_state_witness:
  "active (snd (Serve demo_server [Accepted (demo_session (Raw (demo_handshake 2) @ Raw demo_login)),
      Accepted (demo_session [1, 2, 3])] demo_world)) = Some 0"
  using serving_preserves_shared_state [OF demo_world_ok, of demo_server
      "[Accepted (demo_session (Raw (demo_handshake 2) @ Raw demo_login)), Accepted (demo_session [1, 2, 3])]"]
  by (simp add: active_def demo_world_def new_world_def NewRecorder_def)

text \<open>
  C30: The cache never mixes up requests: for backend addresses without a vertical bar, two requests share
  a cache key only if backend address, normalised host and protocol version agree, even though
  the host is chosen by the client.
\<close>

theorem cache_key_identifies_request:
  assumes "statusCacheKey b hs = statusCacheKey b' hs'"
    and "CHR ''|'' \<notin> set (Addr b)" "CHR ''|'' \<notin> set (Addr b')"
  shows "Addr b = Addr b' \<and> NormalizeHost (ServerAddress hs) = NormalizeHost (ServerAddress hs')
    \<and> ProtocolVersion hs = ProtocolVersion hs'"
proof -
  have no_bar: "CHR ''|'' \<notin> set (show_int i)" for i
    using show_int_chars [of "CHR ''|''" i] by (auto simp: is_digit_def)
  have "Addr b @ CHR ''|'' # (NormalizeHost (ServerAddress hs) @ CHR ''|'' # show_int (sint (ProtocolVersion hs)))
      = Addr b' @ CHR ''|'' # (NormalizeHost (ServerAddress hs') @ CHR ''|'' # show_int (sint (ProtocolVersion hs')))"
    using assms(1) by (simp add: statusCacheKey_def)
  from append_separator [OF this assms(2,3)] have addr: "Addr b = Addr b'"
    and rest: "NormalizeHost (ServerAddress hs) @ CHR ''|'' # show_int (sint (ProtocolVersion hs))
      = NormalizeHost (ServerAddress hs') @ CHR ''|'' # show_int (sint (ProtocolVersion hs'))" by simp_all
  from append_separator_right [OF rest no_bar no_bar] show ?thesis
    using addr by (auto simp: show_int_inj intro: signed_word_eqI)
qed

theorem cache_key_identifies_request_witness:
  "statusCacheKey lobby \<lparr>ProtocolVersion = 772, ServerAddress = ''mc.example'', ServerPort = 1, NextState = 1\<rparr>
   = statusCacheKey lobby \<lparr>ProtocolVersion = 772, ServerAddress = ''mc.example'', ServerPort = 2, NextState = 1\<rparr>
   \<and> NormalizeHost ''mc.example'' = ''mc.example''"
  using cache_key_identifies_request [of lobby "\<lparr>ProtocolVersion = 772, ServerAddress = ''mc.example'', ServerPort = 1, NextState = 1\<rparr>"
      lobby "\<lparr>ProtocolVersion = 772, ServerAddress = ''mc.example'', ServerPort = 2, NextState = 1\<rparr>"]
  by (simp add: statusCacheKey_def demo_NormalizeHost lobby_def)


text \<open>
  C9: A probe of the proxy itself works: a proxy that holds a document for the probed host answers the probe's
  two packets with exactly that document, without a dial, and the probe reads it back unchanged.
\<close>

theorem probe_reads_cached_status:
  assumes "o1 = probe_defaults opts" "wire_string 255 (po_Host o1)" "1042 \<le> MaxHandshakeSize (options s)"
    and "inp (w_client w) = \<lparr>pending = probe_request o1, at_end = e\<rparr>" "\<not> closed (w_client w)"
      "write_script (w_client w) = []" "outp (w_client w) = []"
    and "Resolve (router s) (NormalizeHost (po_Host o1)) = Some b" "statusCacheEnabled s b" "w_cache w = Some c"
    and "fst (cache_Get c (statusCacheKey b \<lparr>ProtocolVersion = po_ProtocolVersion o1, ServerAddress = po_Host o1,
            ServerPort = po_Port o1, NextState = NextStateStatus\<rparr>) (w_clock w 0) (w_clock w 1))
          = Some (Raw (BuildStatusResponse json))"
    and "wire_string 32767 json" "json \<noteq> []" "length json < 2 ^ 30"
      "int (length (Payload (BuildStatusResponse json))) \<le> po_MaxResponseSize o1"
    and "pc = new_conn (outp (w_client (handleConn s w))) EOF [] addr"
  shows "w_dialed (handleConn s w) = w_dialed w \<and> outp (w_client (handleConn s w)) = Raw (BuildStatusResponse json)
    \<and> fst (probe_exchange o1 pc) = Inr json \<and> outp (snd (probe_exchange o1 pc)) = probe_request o1"
proof -
  have answer: "outp (w_client (handleConn s w)) = Raw (BuildStatusResponse json)" "w_dialed (handleConn s w) = w_dialed w"
    using handleConn_probe [OF assms(2,3,4,5,6,8,9,10,11)] assms(7) by simp_all
  have "pc = new_conn (Raw (BuildStatusResponse json) @ []) EOF [] addr" using assms(16) answer by simp
  then have "inp pc = \<lparr>pending = Raw (BuildStatusResponse json) @ [], at_end = EOF\<rparr>" "\<not> closed pc" "write_script pc = []" "outp pc = []"
    by (simp_all add: new_conn_def)
  from probe_exchange_answered [OF this(2,3,1) assms(12-15)] this(4) answer show ?thesis by simp
qed

theorem probe_reads_cached_status_witness:
  "let opts = \<lparr>po_Addr = ''10.0.0.9:25565'', po_Host = ''mc.example'', po_Port = 25565, po_ProtocolVersion = 772, po_Timeout = 0,
         po_MaxResponseSize = 0\<rparr>;
       hs = \<lparr>ProtocolVersion = 772, ServerAddress = ''mc.example'', ServerPort = 25565, NextState = NextStateStatus\<rparr>;
       w = (connect (demo_session (probe_request (probe_defaults opts))) demo_world)
             \<lparr>w_cache := Some (SetWithFallback NewStatusCache (statusCacheKey lobby hs) (Raw (BuildStatusResponse ''[]'')) 500 0 900)\<rparr>
   in fst (probe_exchange (probe_defaults opts) (new_conn (outp (w_client (handleConn demo_server w))) EOF [] '''')) = Inr ''[]''"
proof -
  let ?opts = "\<lparr>po_Addr = ''10.0.0.9:25565'', po_Host = ''mc.example'', po_Port = 25565, po_ProtocolVersion = 772, po_Timeout = 0,
         po_MaxResponseSize = 0\<rparr>"
  let ?hs = "\<lparr>ProtocolVersion = 772, ServerAddress = ''mc.example'', ServerPort = 25565, NextState = NextStateStatus\<rparr>"
  let ?c = "SetWithFallback NewStatusCache (statusCacheKey lobby ?hs) (Raw (BuildStatusResponse ''[]'')) 500 0 900"
  let ?w = "(connect (demo_session (probe_request (probe_defaults ?opts))) demo_world)\<lparr>w_cache := Some ?c\<rparr>"
  have opts: "probe_defaults ?opts = ?opts\<lparr>po_Timeout := 5 * Second, po_MaxResponseSize := MaxPacketLength\<rparr>"
    by (simp add: probe_defaults_def Let_def)
  have clock: "w_clock ?w 0 = 1000" by (simp add: connect_def demo_world_def new_world_def demo_clock_def)
  have "fst (cache_Get ?c (statusCacheKey lobby ?hs) (w_clock ?w 0) (w_clock ?w 1)) = Some (Raw (BuildStatusResponse ''[]''))"
    unfolding cache_Get_hit clock by (simp add: cache_view_Set)
  moreover have "statusCacheEnabled demo_server lobby"
    by (simp add: statusCacheEnabled_def lobby_def demo_server_def NewServerWithGuard_def server_defaults_def demo_options_def Let_def)
  moreover have "int (length (Payload (BuildStatusResponse ''[]''))) \<le> MaxPacketLength"
    using length_Payload_NewPacket [of StatusResponsePacketID "EncodeString ''[]''"] length_EncodeString [of "''[]''"]
    by (simp add: BuildStatusResponse_def MaxPacketLength_def MaxVarIntBytes_def)
  moreover have "wire_string 255 ''mc.example''" "wire_string 32767 ''[]''" by (simp_all add: wire_string_ascii)
  moreover have "inp (w_client ?w) = \<lparr>pending = probe_request (probe_defaults ?opts), at_end = EOF\<rparr>" "\<not> closed (w_client ?w)"
    "write_script (w_client ?w) = []" "outp (w_client ?w) = []"
    by (simp_all add: connect_def demo_session_def demo_client_def new_conn_def)
  moreover have "1042 \<le> MaxHandshakeSize (options demo_server)"
    by (simp add: demo_server_def NewServerWithGuard_def server_defaults_def demo_options_def Let_def)
  moreover have "Resolve (router demo_server) (NormalizeHost ''mc.example'') = Some lobby"
    by (simp add: demo_Resolve demo_NormalizeHost)
  moreover have "w_cache ?w = Some ?c" by simp
  ultimately show ?thesis
    using probe_reads_cached_status [OF refl, of ?opts demo_server ?w EOF lobby ?c "''[]''"
        "new_conn (outp (w_client (handleConn demo_server ?w))) EOF [] ''''" "''''", THEN conjunct2, THEN conjunct2, THEN conjunct1]
    unfolding Let_def by (simp only: opts) simp
qed

end
